(* ===== verification/Prelude.thy ===== *)
theory Prelude
  imports Main "HOL-Library.State_Monad" "HOL-Library.Monad_Syntax"
begin

text \<open>
  Shared vocabulary of the development: the fact collections the component proofs draw on, the
  predicate transformer of the state monad, and generic lemmas about lists and maps.

  A handler of the adapter is a program of the library's state monad over the session record.
  \<open>wp m Q s\<close> says that running \<open>m\<close> from \<open>s\<close> gives a result and a state that satisfy \<open>Q\<close> (programs
  are total, so this is also the weakest precondition); \<open>hoare P m Q\<close> is the triple. The
  equations for \<open>wp\<close> are in \<open>wp_simps\<close>, and triples the components prove for their operations are
  collected in \<open>keeps_rules\<close>.
\<close>

named_theorems wp_simps \<open>equations that push wp through a program\<close>
named_theorems keeps_rules \<open>invariants an operation keeps\<close>

type_synonym go_string = string
type_synonym bytes = string

subsection \<open>Programs over a state\<close>

definition wp :: "('s, 'a) state \<Rightarrow> ('a \<Rightarrow> 's \<Rightarrow> bool) \<Rightarrow> 's \<Rightarrow> bool" where
  "wp m Q s = (case run_state m s of (x, s') \<Rightarrow> Q x s')"

definition hoare :: "('s \<Rightarrow> bool) \<Rightarrow> ('s, 'a) state \<Rightarrow> ('a \<Rightarrow> 's \<Rightarrow> bool) \<Rightarrow> bool" where
  "hoare P m Q \<longleftrightarrow> (\<forall>s. P s \<longrightarrow> wp m Q s)"

abbreviation keeps :: "('s \<Rightarrow> bool) \<Rightarrow> ('s, 'a) state \<Rightarrow> bool" where
  "keeps I m \<equiv> hoare I m (\<lambda>_. I)"

definition do_when :: "bool \<Rightarrow> ('s, unit) state \<Rightarrow> ('s, unit) state" where
  "do_when b m = (if b then m else State_Monad.return ())"

primrec for_each :: "('a \<Rightarrow> ('s, unit) state) \<Rightarrow> 'a list \<Rightarrow> ('s, unit) state" where
  "for_each f [] = State_Monad.return ()"
| "for_each f (x # xs) = State_Monad.bind (f x) (\<lambda>_. for_each f xs)"

lemma run_bind [simp]:
  "run_state (State_Monad.bind m f) s = (case run_state m s of (x, t) \<Rightarrow> run_state (f x) t)"
  by (cases m) (simp add: State_Monad.bind_def)

lemma run_update [simp]: "run_state (State_Monad.update f) s = ((), f s)"
  by (simp add: State_Monad.update_def)

lemma wp_return [wp_simps]: "wp (State_Monad.return x) Q s = Q x s"
  by (simp add: wp_def)

lemma wp_get [wp_simps]: "wp State_Monad.get Q s = Q s s"
  by (simp add: wp_def State_Monad.get_def)

lemma wp_update [wp_simps]: "wp (State_Monad.update f) Q s = Q () (f s)"
  by (simp add: wp_def)

lemma wp_State [wp_simps]: "wp (State f) Q s = (case f s of (x, s') \<Rightarrow> Q x s')"
  by (simp add: wp_def)

lemma wp_bind [wp_simps]: "wp (State_Monad.bind m f) Q s = wp m (\<lambda>x. wp (f x) Q) s"
  by (simp add: wp_def split: prod.split)

lemma wp_if [wp_simps]: "wp (if b then m else n) Q s = (if b then wp m Q s else wp n Q s)"
  by simp

lemma wp_when [wp_simps]: "wp (do_when b m) Q s = (if b then wp m Q s else Q () s)"
  by (simp add: do_when_def wp_return)

lemma wp_option [wp_simps]:
  "wp (case x of None \<Rightarrow> m | Some y \<Rightarrow> f y) Q s
     = (case x of None \<Rightarrow> wp m Q s | Some y \<Rightarrow> wp (f y) Q s)"
  by (cases x) simp_all

lemma wp_sum [wp_simps]:
  "wp (case x of Inl y \<Rightarrow> f y | Inr z \<Rightarrow> g z) Q s
     = (case x of Inl y \<Rightarrow> wp (f y) Q s | Inr z \<Rightarrow> wp (g z) Q s)"
  by (cases x) simp_all

lemma wp_prod [wp_simps]: "wp (case x of (a, b) \<Rightarrow> f a b) Q s = (case x of (a, b) \<Rightarrow> wp (f a b) Q s)"
  by (cases x) simp

lemma wp_let [wp_simps]: "wp (let x = a in f x) Q s = (let x = a in wp (f x) Q s)"
  by simp

lemma wp_mono: "wp m P s \<Longrightarrow> (\<And>x t. P x t \<Longrightarrow> Q x t) \<Longrightarrow> wp m Q s"
  by (auto simp: wp_def split: prod.splits)

lemma wp_all: "(\<And>x t. Q x t) \<Longrightarrow> wp m Q s"
  by (simp add: wp_def split: prod.split)

lemma wp_conj: "wp m (\<lambda>x t. P x t \<and> Q x t) s \<longleftrightarrow> wp m P s \<and> wp m Q s"
  by (auto simp: wp_def split: prod.splits)

lemma wp_run: "wp m Q s \<Longrightarrow> run_state m s = (x, t) \<Longrightarrow> Q x t"
  by (simp add: wp_def)

lemma hoareI [intro?]: "(\<And>s. P s \<Longrightarrow> wp m Q s) \<Longrightarrow> hoare P m Q"
  by (simp add: hoare_def)

lemma hoareD: "hoare P m Q \<Longrightarrow> P s \<Longrightarrow> wp m Q s"
  by (simp add: hoare_def)

lemma hoare_run: "hoare P m Q \<Longrightarrow> P s \<Longrightarrow> run_state m s = (x, t) \<Longrightarrow> Q x t"
  by (simp add: hoare_def wp_def split: prod.splits)

text \<open>Using a triple inside a larger program: the rest runs from any state the triple allows.\<close>

lemma hoare_wp: "hoare P m R \<Longrightarrow> P s \<Longrightarrow> (\<And>x t. R x t \<Longrightarrow> Q x t) \<Longrightarrow> wp m Q s"
  unfolding hoare_def by (blast intro: wp_mono)

lemma keeps_return [keeps_rules]: "keeps I (State_Monad.return x)"
  by (simp add: hoare_def wp_simps)

lemma keeps_get [keeps_rules]: "keeps I State_Monad.get"
  by (simp add: hoare_def wp_simps)

lemma keeps_update: "(\<And>s. I s \<Longrightarrow> I (f s)) \<Longrightarrow> keeps I (State_Monad.update f)"
  by (simp add: hoare_def wp_simps)

lemma keeps_bind [keeps_rules]:
  "keeps I m \<Longrightarrow> (\<And>x. keeps I (f x)) \<Longrightarrow> keeps I (State_Monad.bind m f)"
  by (auto simp: hoare_def wp_bind intro: wp_mono)

lemma keeps_if [keeps_rules]: "keeps I m \<Longrightarrow> keeps I n \<Longrightarrow> keeps I (if b then m else n)"
  by simp

lemma keeps_when [keeps_rules]: "keeps I m \<Longrightarrow> keeps I (do_when b m)"
  by (simp add: do_when_def keeps_return)

lemma keeps_option [keeps_rules]:
  "keeps I m \<Longrightarrow> (\<And>y. keeps I (f y)) \<Longrightarrow> keeps I (case x of None \<Rightarrow> m | Some y \<Rightarrow> f y)"
  by (cases x) simp_all

lemma keeps_sum [keeps_rules]:
  "(\<And>y. keeps I (f y)) \<Longrightarrow> (\<And>z. keeps I (g z)) \<Longrightarrow> keeps I (case x of Inl y \<Rightarrow> f y | Inr z \<Rightarrow> g z)"
  by (cases x) simp_all

lemma keeps_prod [keeps_rules]:
  "(\<And>a b. keeps I (f a b)) \<Longrightarrow> keeps I (case x of (a, b) \<Rightarrow> f a b)"
  by (cases x) simp

lemma keeps_let [keeps_rules]: "(\<And>x. keeps I (f x)) \<Longrightarrow> keeps I (let x = a in f x)"
  by simp

lemma keeps_for_each [keeps_rules]: "(\<And>x. keeps I (f x)) \<Longrightarrow> keeps I (for_each f xs)"
  by (induction xs) (auto intro: keeps_rules)

subsection \<open>Lists\<close>

lemma length_takeWhile_rev_le: "length (rev (takeWhile P (rev xs))) \<le> length xs"
  by (metis length_rev length_takeWhile_le)

lemma set_rev_takeWhile: "c \<in> set (rev (takeWhile P (rev xs))) \<Longrightarrow> P c \<and> c \<in> set xs"
  by (auto dest: set_takeWhileD)

lemma find_SomeD: "find P xs = Some x \<Longrightarrow> P x \<and> x \<in> set xs"
  by (induction xs) (auto split: if_splits)

lemma find_upt_rev_Some:
  "find P (rev [lo..<hi]) = Some i \<Longrightarrow> lo \<le> i \<and> i < hi \<and> P i"
  by (auto dest: find_SomeD)

end
