(* ===== verification/GoText.thy ===== *)
theory GoText
  imports Prelude "HOL-Library.Sublist"
begin

text \<open>
  The parts of Go's language and standard library that the adapter's text handling uses.
  A Go string is a sequence of bytes, here a \<open>string\<close> (a list of 8-bit \<open>char\<close>s); \<open>len\<close> is
  \<open>length\<close>. A rune is a code point. \<open>decode_rune\<close> and \<open>encode_rune\<close> are
  \<open>utf8.DecodeRuneInString\<close> and \<open>utf8.AppendRune\<close> with Go's treatment of malformed input
  (one byte is consumed and the replacement rune U+FFFD is produced); \<open>runes\<close> is what a
  \<open>range\<close> loop over a string visits. \<open>parse_int64\<close> and \<open>format_int\<close> are
  \<open>strconv.ParseInt(s, 10, 64)\<close> and \<open>strconv.FormatInt(i, 10)\<close>.

  The lemmas: decoding inverts encoding, every decoded rune is encodable, decoding the last
  rune of an encoded text yields that rune, and the decimal round trip.
\<close>

type_synonym rune = nat

abbreviation byte :: "char \<Rightarrow> nat" where
  "byte c \<equiv> of_char c"

abbreviation chr :: "nat \<Rightarrow> char" where
  "chr n \<equiv> char_of n"

lemma byte_chr: "byte (chr n) = n mod 256"
  by simp

lemma byte_less [simp]: "byte c < 256"
  by simp

definition RuneError :: rune where
  "RuneError = 0xFFFD"

definition valid_rune :: "rune \<Rightarrow> bool" where
  "valid_rune r \<longleftrightarrow> r \<le> 0x10FFFF \<and> \<not> (0xD800 \<le> r \<and> r \<le> 0xDFFF)"

definition cont_byte :: "char \<Rightarrow> bool" where
  "cont_byte c \<longleftrightarrow> 0x80 \<le> byte c \<and> byte c \<le> 0xBF"

subsection \<open>UTF-8\<close>

text \<open>The accepted range of the second byte depends on the first.\<close>

definition second_lo :: "nat \<Rightarrow> nat" where
  "second_lo p0 = (if p0 = 0xE0 then 0xA0 else if p0 = 0xF0 then 0x90 else 0x80)"

definition second_hi :: "nat \<Rightarrow> nat" where
  "second_hi p0 = (if p0 = 0xED then 0x9F else if p0 = 0xF4 then 0x8F else 0xBF)"

definition second_ok :: "nat \<Rightarrow> char \<Rightarrow> bool" where
  "second_ok p0 c \<longleftrightarrow> second_lo p0 \<le> byte c \<and> byte c \<le> second_hi p0"

fun decode_rune :: "go_string \<Rightarrow> rune \<times> nat" where
  "decode_rune [] = (RuneError, 0)"
| "decode_rune (c0 # cs) =
     (let p0 = byte c0 in
      if p0 < 0x80 then (p0, 1)
      else if p0 < 0xC2 \<or> 0xF4 < p0 then (RuneError, 1)
      else if p0 < 0xE0 then
        (case cs of
           c1 # _ \<Rightarrow> if cont_byte c1
                      then ((p0 - 0xC0) * 64 + (byte c1 - 0x80), 2) else (RuneError, 1)
         | _ \<Rightarrow> (RuneError, 1))
      else if p0 < 0xF0 then
        (case cs of
           c1 # c2 # _ \<Rightarrow> if second_ok p0 c1 \<and> cont_byte c2
                      then ((p0 - 0xE0) * 4096 + (byte c1 - 0x80) * 64 + (byte c2 - 0x80), 3)
                      else (RuneError, 1)
         | _ \<Rightarrow> (RuneError, 1))
      else
        (case cs of
           c1 # c2 # c3 # _ \<Rightarrow> if second_ok p0 c1 \<and> cont_byte c2 \<and> cont_byte c3
                      then ((p0 - 0xF0) * 262144 + (byte c1 - 0x80) * 4096
                              + (byte c2 - 0x80) * 64 + (byte c3 - 0x80), 4)
                      else (RuneError, 1)
         | _ \<Rightarrow> (RuneError, 1)))"

definition encode_raw :: "rune \<Rightarrow> go_string" where
  "encode_raw r =
     (if r < 0x80 then [chr r]
      else if r < 0x800 then [chr (0xC0 + r div 64), chr (0x80 + r mod 64)]
      else if r < 0x10000 then
        [chr (0xE0 + r div 4096), chr (0x80 + r div 64 mod 64), chr (0x80 + r mod 64)]
      else
        [chr (0xF0 + r div 262144), chr (0x80 + r div 4096 mod 64),
         chr (0x80 + r div 64 mod 64), chr (0x80 + r mod 64)])"

definition encode_rune :: "rune \<Rightarrow> go_string" where
  "encode_rune r = encode_raw (if valid_rune r then r else RuneError)"

lemma decode_rune_size_pos: "s \<noteq> [] \<Longrightarrow> 0 < snd (decode_rune s)"
  by (cases s) (auto simp: Let_def split: list.splits)

lemma decode_rune_size_le: "snd (decode_rune s) \<le> length s"
  by (cases s) (auto simp: Let_def split: list.splits)

function runes :: "go_string \<Rightarrow> rune list" where
  "runes s = (if s = [] then []
              else let (r, n) = decode_rune s in r # runes (drop n s))"
  by pat_completeness auto
termination
proof (relation "measure length")
  fix s x r n
  assume "s \<noteq> []" and "x = decode_rune s" and "(r, n) = x"
  then have "0 < n" using decode_rune_size_pos [of s] by (metis snd_conv)
  with \<open>s \<noteq> []\<close> show "(drop n s, s) \<in> measure length" by simp
qed simp

declare runes.simps [simp del]

definition encode_runes :: "rune list \<Rightarrow> go_string" where
  "encode_runes rs = concat (map encode_rune rs)"

lemma encode_runes_simps [simp]:
  "encode_runes [] = []"
  "encode_runes (r # rs) = encode_rune r @ encode_runes rs"
  "encode_runes (rs @ rs') = encode_runes rs @ encode_runes rs'"
  by (simp_all add: encode_runes_def)

lemma runes_Nil [simp]: "runes [] = []"
  by (simp add: runes.simps)

text \<open>Decoding an encoded rune gives the rune back, one lemma per encoded length.\<close>

lemma decode_two_bytes: "\<lbrakk>2 \<le> a; a < 32; b < 64\<rbrakk> \<Longrightarrow> decode_rune (chr (0xC0 + a) # chr (0x80 + b) # s) = (a * 64 + b, 2)"
  by (simp add: cont_byte_def)

lemma decode_three_bytes: "\<lbrakk>a < 16; b < 64; c < 64; a = 0 \<Longrightarrow> 32 \<le> b; a = 13 \<Longrightarrow> b < 32\<rbrakk> \<Longrightarrow> decode_rune (chr (0xE0 + a) # chr (0x80 + b) # chr (0x80 + c) # s) = (a * 4096 + b * 64 + c, 3)"
  by (cases "a = 0"; cases "a = 13"; simp add: cont_byte_def second_ok_def second_lo_def second_hi_def Let_def)

lemma decode_four_bytes: "\<lbrakk>a < 5; b < 64; c < 64; d < 64; a = 0 \<Longrightarrow> 16 \<le> b; a = 4 \<Longrightarrow> b < 16\<rbrakk> \<Longrightarrow> decode_rune (chr (0xF0 + a) # chr (0x80 + b) # chr (0x80 + c) # chr (0x80 + d) # s) = (a * 262144 + b * 4096 + c * 64 + d, 4)"
  by (cases "a = 0"; cases "a = 4"; simp add: cont_byte_def second_ok_def second_lo_def second_hi_def Let_def)

lemma div_mod_split2: "r div 64 * 64 + r mod 64 = (r::nat)"
  by simp

lemma div_mod_split3: "r div 4096 * 4096 + r div 64 mod 64 * 64 + r mod 64 = (r::nat)"
proof -
  have "r div 64 = r div 4096 * 64 + r div 64 mod 64"
    using div_mult_mod_eq [of "r div 64" 64] by (simp add: div_mult2_eq [symmetric])
  then show ?thesis using div_mult_mod_eq [of r 64] by linarith
qed

lemma div_mod_split4: "r div 262144 * 262144 + r div 4096 mod 64 * 4096 + r div 64 mod 64 * 64 + r mod 64 = (r::nat)"
proof -
  have "r div 4096 = r div 262144 * 64 + r div 4096 mod 64"
    using div_mult_mod_eq [of "r div 4096" 64] by (simp add: div_mult2_eq [symmetric])
  then show ?thesis using div_mod_split3 [of r] by linarith
qed

lemma decode_encode_raw:
  assumes "valid_rune r"
  shows "decode_rune (encode_raw r @ s) = (r, length (encode_raw r))"
proof -
  consider "r < 0x80" | "0x80 \<le> r" "r < 0x800" | "0x800 \<le> r" "r < 0x10000" | "0x10000 \<le> r" "r \<le> 0x10FFFF"
    using assms by (force simp: valid_rune_def)
  then show ?thesis
  proof cases
    case 1 then show ?thesis by (simp add: encode_raw_def)
  next
    case 2 
    then have "r div 64 < 32" "2 \<le> r div 64" by auto
    with 2 show ?thesis by (simp add: encode_raw_def decode_two_bytes del: decode_rune.simps)
  next
    case 3
    have a: "r div 4096 < 16" using 3 by auto
    have l: "32 \<le> r div 64 mod 64" if "r div 4096 = 0"
      using 3 that div_mod_split3 [of r] by (simp add: less_eq_div_iff_mult_less_eq)
    have h: "r div 64 mod 64 < 32" if "r div 4096 = 13"
    proof (rule ccontr)
      assume "\<not> r div 64 mod 64 < 32"
      then have "0xD800 \<le> r" "r \<le> 0xDFFF"
        using that div_mod_split3 [of r] mod_less_divisor [of 64 r] mod_less_divisor [of 64 "r div 64"] by linarith+
      with assms show False by (simp add: valid_rune_def)
    qed
    show ?thesis using 3 decode_three_bytes [OF a _ _ l h] div_mod_split3 [of r]
      by (simp add: encode_raw_def del: decode_rune.simps)
  next
    case 4
    have a: "r div 262144 < 5" using 4 by auto
    have l: "16 \<le> r div 4096 mod 64" if "r div 262144 = 0"
      using 4 that div_mod_split4 [of r] mod_less_divisor [of 64 r] mod_less_divisor [of 64 "r div 64"] by linarith
    have h: "r div 4096 mod 64 < 16" if "r div 262144 = 4"
      using 4 that div_mod_split4 [of r] by linarith
    show ?thesis using 4 decode_four_bytes [OF a _ _ _ l h] div_mod_split4 [of r]
      by (simp add: encode_raw_def del: decode_rune.simps)
  qed
qed

lemma valid_RuneError [simp]: "valid_rune RuneError"
  by (simp add: valid_rune_def RuneError_def)

lemma valid_two: 
  "0xC2 \<le> p \<Longrightarrow> p < 0xE0 \<Longrightarrow> cont_byte c
    \<Longrightarrow> valid_rune ((p - 0xC0) * 64 + (byte c - 0x80))"
  unfolding valid_rune_def cont_byte_def by linarith

lemma valid_three: 
  assumes "0xE0 \<le> p" "p < 0xF0" "second_ok p c" "cont_byte d" 
  shows "valid_rune ((p - 0xE0) * 4096 + (byte c - 0x80) * 64 + (byte d - 0x80))"
proof (cases "p = 0xED")
  case True
  with assms show ?thesis unfolding valid_rune_def cont_byte_def second_ok_def second_lo_def second_hi_def by simp linarith
next
  case False
  with assms have "p < 0xED \<or> 0xEE \<le> p" "byte c \<le> 0xBF" "byte d \<le> 0xBF"
    unfolding cont_byte_def second_ok_def second_hi_def by auto
  with assms(1,2) show ?thesis unfolding valid_rune_def by linarith
qed

lemma valid_four: 
  assumes "0xF0 \<le> p" "p \<le> 0xF4" "second_ok p c" "cont_byte d" "cont_byte e"
  shows "valid_rune ((p - 0xF0) * 262144 + (byte c - 0x80) * 4096 + (byte d - 0x80) * 64 + (byte e - 0x80))"
proof -
  consider "p = 0xF4" "byte c \<le> 0x8F" | "p = 0xF0" "0x90 \<le> byte c" "byte c \<le> 0xBF" | "0xF1 \<le> p" "p < 0xF4" "byte c \<le> 0xBF"
    using assms unfolding second_ok_def second_hi_def second_lo_def by (auto split: if_splits)
  then show ?thesis using assms(4,5) unfolding valid_rune_def cont_byte_def by cases linarith+
qed

lemma decode_rune_valid: "valid_rune (fst (decode_rune s))"
proof (cases s)
  case Nil
  then show ?thesis by (simp add: valid_rune_def RuneError_def)
next
  case (Cons c cs)
  have v: "byte c < 0x80 \<Longrightarrow> valid_rune (byte c)" by (simp add: valid_rune_def)
  show ?thesis unfolding Cons decode_rune.simps Let_def
    by (auto split: list.split intro: v valid_two valid_three valid_four)
qed

lemma decode_encode:
  "valid_rune r \<Longrightarrow> decode_rune (encode_rune r @ s) = (r, length (encode_rune r))"
  by (simp add: encode_rune_def decode_encode_raw)

lemma encode_rune_nonempty [simp]: "encode_rune r \<noteq> []"
  by (simp add: encode_rune_def encode_raw_def)

lemma runes_encode_Cons:
  "valid_rune r \<Longrightarrow> runes (encode_rune r @ s) = r # runes s"
  by (subst runes.simps) (simp add: decode_encode)

lemma runes_encode_runes [simp]:
  "list_all valid_rune rs \<Longrightarrow> runes (encode_runes rs) = rs"
  by (induction rs) (simp_all add: runes_encode_Cons)

lemma runes_valid: "list_all valid_rune (runes s)"
proof (induction s rule: runes.induct)
  case (1 s)
  show ?case
  proof (cases "s = []")
    case False
    obtain r n where rn: "decode_rune s = (r, n)" by fastforce
    then have "valid_rune r" using decode_rune_valid [of s] by simp
    with 1 [OF False rn [symmetric] refl] False rn show ?thesis
      by (simp add: runes.simps [of s])
  qed simp
qed

lemma runes_ascii_Cons: "byte c < 0x80 \<Longrightarrow> runes (c # s) = byte c # runes s"
  by (subst runes.simps) simp

text \<open>A string that is the encoding of valid runes; Go's \<open>utf8.ValidString\<close>.\<close>

definition valid_utf8 :: "go_string \<Rightarrow> bool" where
  "valid_utf8 s \<longleftrightarrow> encode_runes (runes s) = s"

lemma valid_utf8_encode_runes: "list_all valid_rune rs \<Longrightarrow> valid_utf8 (encode_runes rs)"
  by (simp add: valid_utf8_def)

lemma valid_utf8E:
  assumes "valid_utf8 s"
  obtains rs where "list_all valid_rune rs" and "s = encode_runes rs"
  using assms runes_valid [of s] unfolding valid_utf8_def by metis

subsection \<open>The last rune\<close>

text \<open>\<open>utf8.DecodeLastRuneInString\<close>: step back at most four bytes to a rune start.\<close>

definition rune_start :: "char \<Rightarrow> bool" where
  "rune_start c \<longleftrightarrow> \<not> cont_byte c"

definition last_start :: "go_string \<Rightarrow> nat" where
  "last_start s =
     (let n = length s; lim = n - 4
      in case find (\<lambda>i. rune_start (s ! i)) (rev [lim..<n - 1]) of
           Some i \<Rightarrow> i
         | None \<Rightarrow> lim - 1)"

definition decode_last_rune :: "go_string \<Rightarrow> rune \<times> nat" where
  "decode_last_rune s =
     (if s = [] then (RuneError, 0)
      else if byte (last s) < 0x80 then (byte (last s), 1)
      else let st = last_start s; (r, size) = decode_rune (drop st s)
           in if st + size \<noteq> length s then (RuneError, 1) else (r, size))"

lemma decode_last_rune_size_pos: "s \<noteq> [] \<Longrightarrow> 0 < snd (decode_last_rune s)"
proof -
  assume "s \<noteq> []"
  moreover have "last_start s < length s" if "s \<noteq> []"
    using that by (auto simp: last_start_def Let_def dest: find_upt_rev_Some split: option.split)
  then have "0 < snd (decode_rune (drop (last_start s) s))" if "s \<noteq> []"
    using that by (simp add: decode_rune_size_pos)
  ultimately show ?thesis
    by (auto simp: decode_last_rune_def Let_def split: prod.split)
qed

lemma decode_last_rune_size_le: "s \<noteq> [] \<Longrightarrow> snd (decode_last_rune s) \<le> length s"
  by (cases s rule: rev_cases) (auto simp: decode_last_rune_def Let_def split: prod.split)

lemma cont_chr: "b < 64 \<Longrightarrow> cont_byte (chr (0x80 + b))"
  by (simp add: cont_byte_def)

lemma start_chr: "0xC0 \<le> a \<Longrightarrow> a < 256 \<Longrightarrow> rune_start (chr a)"
  by (simp add: cont_byte_def rune_start_def)

lemma last_start_append:
  assumes "rune_start c" and "list_all cont_byte cs" and "cs \<noteq> []" and "length cs < 4"
  shows "last_start (xs @ c # cs) = length xs"
proof -
  define s where "s = xs @ c # cs"
  have len: "length s = length xs + Suc (length cs)" by (simp add: s_def)
  have at: "s ! length xs = c" by (simp add: s_def)
  have after: "\<not> rune_start (s ! i)" if "length xs < i" "i < length s" for i
  proof -
    have "s ! i = cs ! (i - length xs - 1)" using that by (simp add: s_def nth_append nth_Cons')
    moreover have "i - length xs - 1 < length cs" using that len by simp
    ultimately show ?thesis using assms(2) by (simp add: rune_start_def list_all_length)
  qed
  have split: "rev [length s - 4..<length s - 1]
      = rev [Suc (length xs)..<length s - 1] @ length xs # rev [length s - 4..<length xs]"
  proof -
    have "[length s - 4..<length s - 1] = [length s - 4..<length xs] @ [length xs..<length s - 1]"
      using assms(3,4) len upt_add_eq_append [of "length s - 4" "length xs" "length cs"] by simp
    moreover have "[length xs..<length s - 1] = length xs # [Suc (length xs)..<length s - 1]"
      using assms(3) len by (intro upt_conv_Cons) (simp add: Suc_le_eq)
    ultimately show ?thesis by simp
  qed
  have none: "find (\<lambda>i. rune_start (s ! i)) (rev [Suc (length xs)..<length s - 1]) = None"
    using after by (auto simp: find_None_iff)
  have app: "find P (as @ bs) = (case find P as of None \<Rightarrow> find P bs | Some z \<Rightarrow> Some z)" for P :: "nat \<Rightarrow> bool" and as bs
    by (induction as) auto
  show ?thesis
    unfolding s_def [symmetric] last_start_def Let_def split app none
    using at assms(1) by simp
qed

lemma decode_last_encode:
  assumes "valid_rune r"
  shows "decode_last_rune (xs @ encode_rune r) = (r, length (encode_rune r))"
proof (cases "r < 0x80")
  case True
  with assms show ?thesis
    by (simp add: encode_rune_def encode_raw_def decode_last_rune_def)
next
  case False
  have ub: "r \<le> 0x10FFFF" using assms by (simp add: valid_rune_def)
  obtain c cs where e: "encode_rune r = c # cs" "rune_start c" "list_all cont_byte cs" "cs \<noteq> []" "length cs < 4"
    using False assms ub
    by (cases "r < 0x800"; cases "r < 0x10000")
       (simp_all add: encode_rune_def encode_raw_def start_chr cont_chr)
  have "byte (last cs) \<ge> 0x80"
    using e(3,4) last_in_set [of cs] by (auto simp: list_all_iff cont_byte_def)
  moreover have "decode_rune (c # cs) = (r, length (c # cs))"
    using decode_encode [OF assms, of "[]"] e(1) by simp
  ultimately show ?thesis
    using last_start_append [OF e(2-5), of xs] e(1,4)
    by (simp add: decode_last_rune_def del: decode_rune.simps)
qed

subsection \<open>Trimming\<close>

definition is_space :: "rune \<Rightarrow> bool" where
  "is_space r \<longleftrightarrow>
     r \<in> {0x09, 0x0A, 0x0B, 0x0C, 0x0D, 0x20, 0x85, 0xA0, 0x1680, 0x2028, 0x2029, 0x202F, 0x205F, 0x3000}
     \<or> (0x2000 \<le> r \<and> r \<le> 0x200A)"

function trim_left :: "go_string \<Rightarrow> go_string" where
  "trim_left s =
     (if s = [] then []
      else let (r, n) = decode_rune s in if is_space r then trim_left (drop n s) else s)"
  by pat_completeness auto
termination
proof (relation "measure length")
  fix s x r n
  assume "s \<noteq> []" and "x = decode_rune s" and "(r, n) = x"
  then have "0 < n" using decode_rune_size_pos [of s] by (metis snd_conv)
  with \<open>s \<noteq> []\<close> show "(drop n s, s) \<in> measure length" by simp
qed simp

function trim_right :: "go_string \<Rightarrow> go_string" where
  "trim_right s =
     (if s = [] then []
      else let (r, n) = decode_last_rune s
           in if is_space r then trim_right (take (length s - n) s) else s)"
  by pat_completeness auto
termination
proof (relation "measure length")
  fix s x r n
  assume "s \<noteq> []" and "x = decode_last_rune s" and "(r, n) = x"
  then have "0 < n" using decode_last_rune_size_pos [of s] by (metis snd_conv)
  with \<open>s \<noteq> []\<close> show "(take (length s - n) s, s) \<in> measure length" by simp
qed simp

declare trim_left.simps [simp del] trim_right.simps [simp del]

definition trim_space :: "go_string \<Rightarrow> go_string" where
  "trim_space s = trim_right (trim_left s)"

lemma trim_left_suffix: "suffix (trim_left s) s"
proof (induction s rule: trim_left.induct)
  case (1 s)
  show ?case
  proof (cases "s = []")
    case True
    then show ?thesis by (simp add: trim_left.simps)
  next
    case False
    obtain r n where rn: "decode_rune s = (r, n)" by fastforce
    show ?thesis
      using "1" [OF False rn [symmetric] refl] False rn suffix_drop [of n s]
      by (auto simp: trim_left.simps [of s] intro: suffix_order.trans)
  qed
qed

lemma trim_right_prefix: "prefix (trim_right s) s"
proof (induction s rule: trim_right.induct)
  case (1 s)
  show ?case
  proof (cases "s = []")
    case True
    then show ?thesis by (simp add: trim_right.simps)
  next
    case False
    obtain r n where rn: "decode_last_rune s = (r, n)" by fastforce
    show ?thesis
      using "1" [OF False rn [symmetric] refl] False rn take_is_prefix [of "length s - n" s]
      by (auto simp: trim_right.simps [of s] intro: prefix_order.trans)
  qed
qed

lemma set_trim_space: "set (trim_space s) \<subseteq> set s"
  using trim_left_suffix [of s] trim_right_prefix [of "trim_left s"]
  unfolding trim_space_def by (meson set_mono_prefix set_mono_suffix subset_trans)

lemma length_trim_space: "length (trim_space s) \<le> length s"
  using trim_left_suffix [of s] trim_right_prefix [of "trim_left s"]
  unfolding trim_space_def by (meson le_trans prefix_length_le suffix_length_le)

lemma trim_left_encode:
  "list_all valid_rune rs \<Longrightarrow> trim_left (encode_runes rs) = encode_runes (dropWhile is_space rs)"
  by (induction rs) (simp_all add: trim_left.simps decode_encode)

lemma trim_right_encode:
  "list_all valid_rune rs
   \<Longrightarrow> trim_right (encode_runes rs) = encode_runes (rev (dropWhile is_space (rev rs)))"
proof (induction rs rule: rev_induct)
  case Nil
  then show ?case by (simp add: trim_right.simps)
next
  case (snoc r rs)
  then show ?case
    by (subst trim_right.simps) (simp add: decode_last_encode)
qed

lemma valid_utf8_trim_space: "valid_utf8 s \<Longrightarrow> valid_utf8 (trim_space s)"
proof (erule valid_utf8E)
  fix rs
  assume v: "list_all valid_rune rs" and s: "s = encode_runes rs"
  have "list_all valid_rune (dropWhile is_space rs)"
    using v by (auto simp: list_all_iff dest: set_dropWhileD)
  moreover from this have "list_all valid_rune (rev (dropWhile is_space (rev (dropWhile is_space rs))))"
    by (auto simp: list_all_iff dest!: set_dropWhileD)
  ultimately show "valid_utf8 (trim_space s)"
    using v unfolding s trim_space_def
    by (simp add: trim_left_encode trim_right_encode valid_utf8_encode_runes)
qed

subsection \<open>Searching\<close>

definition has_prefix :: "go_string \<Rightarrow> go_string \<Rightarrow> bool" where
  "has_prefix s p \<longleftrightarrow> prefix p s"

definition has_suffix :: "go_string \<Rightarrow> go_string \<Rightarrow> bool" where
  "has_suffix s p \<longleftrightarrow> suffix p s"

definition trim_suffix :: "go_string \<Rightarrow> go_string \<Rightarrow> go_string" where
  "trim_suffix s p = (if suffix p s then take (length s - length p) s else s)"

definition go_contains :: "go_string \<Rightarrow> go_string \<Rightarrow> bool" where
  "go_contains s t \<longleftrightarrow> sublist t s"

text \<open>\<open>strings.ContainsAny\<close> and \<open>strings.ContainsFunc\<close> look at code points.\<close>

definition contains_any :: "go_string \<Rightarrow> go_string \<Rightarrow> bool" where
  "contains_any s chars \<longleftrightarrow> list_ex (\<lambda>r. List.member (runes chars) r) (runes s)"

definition contains_func :: "go_string \<Rightarrow> (rune \<Rightarrow> bool) \<Rightarrow> bool" where
  "contains_func s p \<longleftrightarrow> list_ex p (runes s)"

text \<open>\<open>strings.Cut\<close> at a single-byte separator.\<close>

fun go_cut :: "go_string \<Rightarrow> char \<Rightarrow> go_string \<times> go_string \<times> bool" where
  "go_cut [] c = ([], [], False)"
| "go_cut (x # xs) c =
     (if x = c then ([], xs, True)
      else let (a, b, ok) = go_cut xs c in (x # a, b, ok))"

lemma go_cut_append: "c \<notin> set a \<Longrightarrow> go_cut (a @ c # b) c = (a, b, True)"
  by (induction a) auto

lemma go_cut_True: "go_cut s c = (a, b, True) \<Longrightarrow> s = a @ c # b \<and> c \<notin> set a"
  by (induction s arbitrary: a) (auto split: if_splits prod.splits)

lemma go_cut_absent: "c \<notin> set s \<Longrightarrow> go_cut s c = (s, [], False)"
  by (induction s) auto

lemma trim_suffix_append [simp]: "trim_suffix (a @ p) p = a"
  by (simp add: trim_suffix_def suffix_def)

subsection \<open>Decimal integers\<close>

fun format_nat :: "nat \<Rightarrow> go_string" where
  "format_nat n = (if n < 10 then [chr (48 + n)] else format_nat (n div 10) @ [chr (48 + n mod 10)])"

declare format_nat.simps [simp del]

definition format_int :: "int \<Rightarrow> go_string" where
  "format_int i = (if i < 0 then CHR ''-'' # format_nat (nat (- i)) else format_nat (nat i))"

definition is_digit :: "char \<Rightarrow> bool" where
  "is_digit c \<longleftrightarrow> 48 \<le> byte c \<and> byte c \<le> 57"

definition digits_value :: "go_string \<Rightarrow> nat" where
  "digits_value s = foldl (\<lambda>n c. 10 * n + (byte c - 48)) 0 s"

definition parse_nat :: "go_string \<Rightarrow> nat option" where
  "parse_nat s = (if s \<noteq> [] \<and> list_all is_digit s then Some (digits_value s) else None)"

text \<open>\<open>strconv.ParseInt(s, 10, 64)\<close>: an optional sign, digits, and the range of \<open>int64\<close>.\<close>

definition parse_int64 :: "go_string \<Rightarrow> int option" where
  "parse_int64 s =
     (case s of
        [] \<Rightarrow> None
      | c # cs \<Rightarrow>
          if c = CHR ''-'' then
            (case parse_nat cs of
               Some n \<Rightarrow> if int n \<le> 2 ^ 63 then Some (- int n) else None | None \<Rightarrow> None)
          else
            (case parse_nat (if c = CHR ''+'' then cs else s) of
               Some n \<Rightarrow> if int n < 2 ^ 63 then Some (int n) else None | None \<Rightarrow> None))"

lemma format_nat_nonempty [simp]: "format_nat n \<noteq> []"
  by (subst format_nat.simps) simp

lemma is_digit_chr: "d < 10 \<Longrightarrow> is_digit (chr (48 + d))"
  by (simp add: is_digit_def)

lemma format_nat_digits: "list_all is_digit (format_nat n)"
proof (induction n rule: format_nat.induct)
  case (1 n)
  then show ?case by (subst format_nat.simps) (auto simp: is_digit_chr)
qed

lemma digits_value_format: "digits_value (format_nat n) = n"
proof (induction n rule: format_nat.induct)
  case (1 n)
  then show ?case
    by (subst format_nat.simps) (auto simp: digits_value_def)
qed

lemma parse_format_nat [simp]: "parse_nat (format_nat n) = Some n"
  by (simp add: parse_nat_def format_nat_digits digits_value_format)

lemma format_nat_no_sign: "c \<in> set (format_nat n) \<Longrightarrow> is_digit c"
  using format_nat_digits [of n] by (simp add: list_all_iff)

lemma hd_format_nat: "format_nat n = c # cs \<Longrightarrow> c \<noteq> CHR ''-'' \<and> c \<noteq> CHR ''+''"
  using format_nat_no_sign [of c n] by (auto simp: is_digit_def)

lemma parse_format_int:
  assumes "- (2 ^ 63) \<le> i" and "i < 2 ^ 63"
  shows "parse_int64 (format_int i) = Some i"
proof (cases "i < 0")
  case True
  with assms show ?thesis by (simp add: parse_int64_def format_int_def)
next
  case False
  obtain c cs where c: "format_nat (nat i) = c # cs"
    by (cases "format_nat (nat i)") auto
  with False assms hd_format_nat [OF c] parse_format_nat [of "nat i"] show ?thesis
    by (simp add: parse_int64_def format_int_def del: parse_format_nat)
qed

lemma length_format_nat_le: "n < 10 ^ k \<Longrightarrow> 0 < k \<Longrightarrow> length (format_nat n) \<le> k"
proof (induction k arbitrary: n)
  case 0
  then show ?case by simp
next
  case (Suc k)
  show ?case
  proof (cases "n < 10")
    case True
    then show ?thesis by (subst format_nat.simps) simp
  next
    case False
    then have "0 < k" using Suc.prems by (cases k) auto
    moreover have "n div 10 < 10 ^ k" using Suc.prems by (simp add: less_mult_imp_div_less mult.commute)
    ultimately show ?thesis using False Suc.IH [of "n div 10"]
      by (subst format_nat.simps) simp
  qed
qed

lemma parse_int64_bounds: "parse_int64 s = Some i \<Longrightarrow> - (2 ^ 63) \<le> i \<and> i < 2 ^ 63"
  by (auto simp: parse_int64_def split: list.splits option.splits if_splits)

subsection \<open>ASCII bytes of a text\<close>

lemma decode_rune_take_high:
  assumes "0x80 \<le> byte c" and "decode_rune (c # cs) = (r, n)"
  shows "list_all (\<lambda>c. 0x80 \<le> byte c) (take n (c # cs))"
  using assms
  by (auto simp: Let_def cont_byte_def second_ok_def second_lo_def
      split: list.splits if_splits)

text \<open>An ASCII byte of a text is visited as a rune of its own, malformed text included.\<close>

lemma ascii_byte_in_runes: "c \<in> set s \<Longrightarrow> byte c < 0x80 \<Longrightarrow> byte c \<in> set (runes s)"
proof (induction s rule: runes.induct)
  case (1 s)
  obtain x xs where s: "s = x # xs" using "1.prems" by (cases s) auto
  obtain r n where rn: "decode_rune s = (r, n)" by fastforce
  have rs: "runes s = r # runes (drop n s)" using s rn by (subst runes.simps) simp
  show ?case
  proof (cases "byte x < 0x80")
    case True
    then have "r = byte x" "n = 1" using rn s by simp_all
    with "1.IH" [OF _ rn [symmetric] refl] "1.prems" s rs show ?thesis by auto
  next
    case False
    then have "c \<notin> set (take n s)"
      using decode_rune_take_high [of x xs r n] rn s "1.prems" by (force simp: list_all_iff)
    then have "c \<in> set (drop n s)" using "1.prems"
      by (metis Un_iff append_take_drop_id set_append)
    with "1.IH" [OF _ rn [symmetric] refl] "1.prems" s rs show ?thesis by auto
  qed
qed

text \<open>No rune reaches over an ASCII byte.\<close>

lemma decode_rune_stop: "a \<noteq> [] \<Longrightarrow> byte c < 0x80 \<Longrightarrow> decode_rune (a @ c # b) = decode_rune a"
proof -
  assume ne: "a \<noteq> []" and c: "byte c < 0x80"
  then have no: "\<not> cont_byte c" "\<not> second_ok p c" for p
    by (auto simp: cont_byte_def second_ok_def second_lo_def)
  consider x where "a = [x]" | x y where "a = [x, y]" | x y z where "a = [x, y, z]"
    | x y z u r where "a = x # y # z # u # r"
    using ne by (metis neq_Nil_conv)
  then show ?thesis using no by cases (auto simp: decode_rune.simps Let_def split: list.split)
qed

lemma runes_split: "byte c < 0x80 \<Longrightarrow> runes (a @ c # b) = runes a @ runes (c # b)"
proof (induction a rule: runes.induct)
  case (1 a)
  show ?case
  proof (cases "a = []")
    case False
    obtain r n where rn: "decode_rune a = (r, n)" by fastforce
    have "n \<le> length a" using decode_rune_size_le [of a] rn by simp
    then have "runes (a @ c # b) = r # runes (drop n a @ c # b)"
      using False rn decode_rune_stop [OF False "1.prems"] by (subst runes.simps) simp
    also have "runes (drop n a @ c # b) = runes (drop n a) @ runes (c # b)"
      by (rule "1.IH" [OF False rn [symmetric] refl "1.prems"])
    also have "r # (runes (drop n a) @ runes (c # b)) = runes a @ runes (c # b)"
      using False rn by (subst (3) runes.simps) simp
    finally show ?thesis .
  qed simp
qed

lemma encode_rune_high: "0x80 \<le> r \<Longrightarrow> list_all (\<lambda>c. 0x80 \<le> byte c) (encode_rune r)"
proof -
  assume "0x80 \<le> r"
  moreover have "r div 262144 < 5" if "valid_rune r"
    using that by (intro less_mult_imp_div_less) (simp add: valid_rune_def)
  ultimately show ?thesis
    by (auto simp: encode_rune_def encode_raw_def RuneError_def)
qed

lemma valid_utf8_after_ascii:
  assumes "valid_utf8 (a @ c # b)" and "byte c < 0x80"
  shows "valid_utf8 b"
proof -
  have "valid_utf8 b" if "list_all valid_rune rs" "encode_runes rs = a @ c # b" for rs
    using that
  proof (induction rs arbitrary: a)
    case (Cons r rs)
    show ?case
    proof (cases "r < 0x80")
      case True
      then have e: "encode_rune r = [chr r]"
        using Cons.prems by (simp add: encode_rune_def encode_raw_def)
      show ?thesis
      proof (cases a)
        case Nil
        then show ?thesis using Cons.prems e by (auto intro: valid_utf8_encode_runes)
      next
        case (Cons x a')
        then show ?thesis using Cons.prems e Cons.IH [of a'] by simp
      qed
    next
      case False
      then have "c \<notin> set (encode_rune r)"
        using encode_rune_high [of r] assms(2) by (force simp: list_all_iff)
      then obtain a' where "a = encode_rune r @ a'"
        using Cons.prems(2) by (auto simp: append_eq_append_conv2 append_eq_Cons_conv)
      then show ?thesis using Cons.prems Cons.IH [of a'] by simp
    qed
  qed simp
  then show ?thesis using assms(1) by (metis valid_utf8E)
qed

lemma valid_utf8_Nil [simp]: "valid_utf8 []"
  by (simp add: valid_utf8_def)

text \<open>Decoding stays folded in the component proofs, which use the lemmas above.\<close>

declare decode_rune.simps(2) [simp del]

end
