(* ===== verification/Contract.thy ===== *)
theory Contract
  imports GoText "HOL-Library.Char_ord" "HOL-Library.List_Lexorder" "HOL-Library.Word" "HOL-Library.Multiset"
begin

text \<open>
  The helper IPC contract of \<open>adapter/contract.go\<close>: the commands the daemon sends, the events
  the adapter emits, and the JSON line \<open>Event.MarshalJSON\<close> makes of an event.

  Go slices of the event are \<open>list option\<close> (\<open>None\<close> is the nil slice), because the code turns
  nil into an empty array before encoding; slices under an \<open>omitempty\<close> tag are plain lists,
  since nil and empty encode alike there. Pointers are \<open>option\<close>. \<open>uint64\<close> and \<open>uint32\<close>
  values that the code counts with are words; times and sizes it only passes on are \<open>int\<close> and
  \<open>nat\<close>. \<open>json\<close> and \<open>enc_json\<close> are \<open>encoding/json\<close>: struct fields in declaration order, map keys
  sorted, and Go's HTML-safe string escaping.
\<close>

type_synonym u64 = "64 word"
type_synonym u32 = "32 word"

definition HelperProtocol :: int where "HelperProtocol = 1"

definition MaxBundleBytes :: nat where "MaxBundleBytes = 256 * 1024"

definition MaxTextChars :: nat where "MaxTextChars = 8000"

subsection \<open>Records of the contract\<close>

record command =
  cmd_Type :: go_string
  cmd_Account :: go_string
  cmd_BundleB64 :: go_string
  cmd_Conversation :: go_string
  cmd_Message :: go_string
  cmd_Text :: go_string
  cmd_ReplyTo :: go_string
  cmd_Caption :: go_string
  cmd_Path :: go_string
  cmd_Emoji :: go_string
  cmd_Add :: bool
  cmd_Addresses :: "go_string list"
  cmd_Limit :: u32
  cmd_Cursor :: go_string
  cmd_RequestID :: go_string
  cmd_FetchID :: u64

record participant =
  p_LocalID :: go_string
  p_DisplayName :: go_string
  p_Address :: go_string
  p_IsSelf :: bool

record conversation =
  c_LocalID :: go_string
  c_Kind :: go_string
  c_Transport :: go_string
  c_Title :: go_string
  c_Participants :: "participant list"
  c_LatestMessage :: go_string
  c_LastActivityAt :: int
  c_UnreadCount :: "nat option"
  c_Cursor :: go_string
  c_Capabilities :: "go_string list"

record attachment =
  a_LocalID :: go_string
  a_MIME :: go_string
  a_Name :: go_string
  a_SizeBytes :: "nat option"
  a_StagedPath :: go_string

record reaction =
  r_Emoji :: go_string
  r_ParticipantIDs :: "go_string list"

record message =
  m_LocalID :: go_string
  m_Sender :: go_string
  m_Transport :: go_string
  m_SentAt :: "int option"
  m_Text :: go_string
  m_Attachments :: "attachment list"
  m_ReplyTo :: go_string
  m_Reactions :: "reaction list"
  m_Deleted :: bool

record event =
  ev_Type :: go_string
  ev_HelperProtocol :: int
  ev_Name :: go_string
  ev_Account :: go_string
  ev_Label :: go_string
  ev_Connected :: bool
  ev_Authenticated :: bool
  ev_Prompt :: go_string
  ev_Conversations :: "conversation list option"
  ev_Full :: bool
  ev_Generation :: u64
  ev_Conversation :: go_string
  ev_Messages :: "message list option"
  ev_CursorNext :: go_string
  ev_PageComplete :: bool
  ev_FetchID :: u64
  ev_Message :: go_string
  ev_Status :: go_string
  ev_Participants :: "go_string list option"
  ev_LastReadMessage :: go_string
  ev_Unread :: bool
  ev_RequestID :: go_string
  ev_OK :: bool
  ev_Error :: go_string

text \<open>An event literal sets its type and leaves every other field at Go's zero value.\<close>

definition mk_event :: "go_string \<Rightarrow> event" where
  "mk_event ty = \<lparr>ev_Type = ty, ev_HelperProtocol = 0, ev_Name = [], ev_Account = [],
     ev_Label = [], ev_Connected = False, ev_Authenticated = False, ev_Prompt = [],
     ev_Conversations = None, ev_Full = False, ev_Generation = 0, ev_Conversation = [],
     ev_Messages = None, ev_CursorNext = [], ev_PageComplete = False, ev_FetchID = 0,
     ev_Message = [], ev_Status = [], ev_Participants = None, ev_LastReadMessage = [],
     ev_Unread = False, ev_RequestID = [], ev_OK = False, ev_Error = []\<rparr>"

subsection \<open>JSON\<close>

datatype json =
    JStr go_string
  | JInt int
  | JBool bool
  | JArr "json list"
  | JObj "(go_string \<times> json) list"

definition hex_digit :: "nat \<Rightarrow> char" where
  "hex_digit n = ''0123456789abcdef'' ! (n mod 16)"

definition escape_ascii :: "char \<Rightarrow> go_string" where
  "escape_ascii c =
     (if c = CHR 0x22 \<or> c = CHR 0x5C then [CHR 0x5C, c]
      else if c = CHR 0x08 then [CHR 0x5C, CHR ''b'']
      else if c = CHR 0x0C then [CHR 0x5C, CHR ''f'']
      else if c = CHR 0x0A then [CHR 0x5C, CHR ''n'']
      else if c = CHR 0x0D then [CHR 0x5C, CHR ''r'']
      else if c = CHR 0x09 then [CHR 0x5C, CHR ''t'']
      else if byte c < 0x20 \<or> c = CHR ''<'' \<or> c = CHR ''>'' \<or> c = CHR ''&''
      then CHR 0x5C # ''u00'' @ [hex_digit (byte c div 16), hex_digit (byte c)]
      else [c])"

function json_escape :: "go_string \<Rightarrow> go_string" where
  "json_escape s =
     (case s of
        [] \<Rightarrow> []
      | c # cs \<Rightarrow>
          if byte c < 0x80 then escape_ascii c @ json_escape cs
          else let (r, n) = decode_rune s in
            if r = RuneError \<and> n = 1 then CHR 0x5C # ''ufffd'' @ json_escape (drop n s)
            else if r = 0x2028 \<or> r = 0x2029
              then CHR 0x5C # ''u202'' @ hex_digit r # json_escape (drop n s)
            else take n s @ json_escape (drop n s))"
  by pat_completeness auto
termination
proof (relation "measure length")
  have step: "(drop n s, s) \<in> measure length" if "s = c # cs" "x = decode_rune s" "(r, n) = x"
    for s :: go_string and c cs x r n
    using that decode_rune_size_pos [of s] by (metis (no_types) drop_eq_Nil2 in_measure length_drop
        length_greater_0_conv diff_less list.distinct(1) snd_conv)
  fix s c cs x r n
  assume "s = c # (cs :: go_string)" and "x = decode_rune s" and "(r, n) = x"
  then show "(drop n s, s) \<in> measure length" and "(drop n s, s) \<in> measure length"
    and "(drop n s, s) \<in> measure length"
    by (rule step)+
qed auto

declare json_escape.simps [simp del]

definition json_string :: "go_string \<Rightarrow> go_string" where
  "json_string s = CHR 0x22 # json_escape s @ [CHR 0x22]"

fun comma_sep :: "go_string list \<Rightarrow> go_string" where
  "comma_sep [] = []"
| "comma_sep [x] = x"
| "comma_sep (x # xs) = x @ CHR '','' # comma_sep xs"

fun enc_json :: "json \<Rightarrow> go_string" where
  "enc_json (JStr s) = json_string s"
| "enc_json (JInt i) = format_int i"
| "enc_json (JBool b) = (if b then ''true'' else ''false'')"
| "enc_json (JArr xs) = CHR ''['' # comma_sep (map enc_json xs) @ '']''"
| "enc_json (JObj ms) =
     CHR 0x7B # comma_sep (map (\<lambda>(k, v). json_string k @ CHR '':'' # enc_json v) ms) @ [CHR 0x7D]"

text \<open>\<open>omitempty\<close> fields of the nested structs.\<close>

definition opt_str :: "go_string \<Rightarrow> go_string \<Rightarrow> (go_string \<times> json) list" where
  "opt_str k v = (if v \<noteq> [] then [(k, JStr v)] else [])"

definition opt_bool :: "go_string \<Rightarrow> bool \<Rightarrow> (go_string \<times> json) list" where
  "opt_bool k v = (if v then [(k, JBool v)] else [])"

definition opt_arr :: "go_string \<Rightarrow> json list \<Rightarrow> (go_string \<times> json) list" where
  "opt_arr k v = (if v \<noteq> [] then [(k, JArr v)] else [])"

definition opt_ptr :: "go_string \<Rightarrow> int option \<Rightarrow> (go_string \<times> json) list" where
  "opt_ptr k v = (case v of Some i \<Rightarrow> [(k, JInt i)] | None \<Rightarrow> [])"

definition json_participant :: "participant \<Rightarrow> json" where
  "json_participant p = JObj
     ([(''local_id'', JStr (p_LocalID p))]
      @ opt_str ''display_name'' (p_DisplayName p)
      @ opt_str ''address'' (p_Address p)
      @ opt_bool ''is_self'' (p_IsSelf p))"

definition json_conversation :: "conversation \<Rightarrow> json" where
  "json_conversation c = JObj
     ([(''local_id'', JStr (c_LocalID c)), (''kind'', JStr (c_Kind c)),
       (''transport'', JStr (c_Transport c))]
      @ opt_str ''title'' (c_Title c)
      @ opt_arr ''participants'' (map json_participant (c_Participants c))
      @ opt_str ''latest_message'' (c_LatestMessage c)
      @ (if c_LastActivityAt c \<noteq> 0 then [(''last_activity_at'', JInt (c_LastActivityAt c))] else [])
      @ opt_ptr ''unread_count'' (map_option int (c_UnreadCount c))
      @ opt_str ''cursor'' (c_Cursor c)
      @ opt_arr ''capabilities'' (map JStr (c_Capabilities c)))"

definition json_attachment :: "attachment \<Rightarrow> json" where
  "json_attachment a = JObj
     ([(''local_id'', JStr (a_LocalID a))]
      @ opt_str ''mime'' (a_MIME a)
      @ opt_str ''name'' (a_Name a)
      @ opt_ptr ''size_bytes'' (map_option int (a_SizeBytes a))
      @ opt_str ''staged_path'' (a_StagedPath a))"

definition json_reaction :: "reaction \<Rightarrow> json" where
  "json_reaction r = JObj
     ([(''emoji'', JStr (r_Emoji r))]
      @ opt_arr ''participant_ids'' (map JStr (r_ParticipantIDs r)))"

definition json_message :: "message \<Rightarrow> json" where
  "json_message m = JObj
     ([(''local_id'', JStr (m_LocalID m)), (''sender'', JStr (m_Sender m))]
      @ opt_str ''transport'' (m_Transport m)
      @ opt_ptr ''sent_at'' (m_SentAt m)
      @ opt_str ''text'' (m_Text m)
      @ opt_arr ''attachments'' (map json_attachment (m_Attachments m))
      @ opt_str ''reply_to'' (m_ReplyTo m)
      @ opt_arr ''reactions'' (map json_reaction (m_Reactions m))
      @ opt_bool ''deleted'' (m_Deleted m))"

subsection \<open>Event.MarshalJSON\<close>

definition nonNilConversations :: "conversation list option \<Rightarrow> conversation list" where
  "nonNilConversations xs = (case xs of None \<Rightarrow> [] | Some l \<Rightarrow> l)"

definition nonNilMessages :: "message list option \<Rightarrow> message list" where
  "nonNilMessages xs = (case xs of None \<Rightarrow> [] | Some l \<Rightarrow> l)"

definition nonNilStrings :: "go_string list option \<Rightarrow> go_string list" where
  "nonNilStrings xs = (case xs of None \<Rightarrow> [] | Some l \<Rightarrow> l)"

definition opt_u64 :: "go_string \<Rightarrow> u64 \<Rightarrow> (go_string \<times> json) list" where
  "opt_u64 k v = (if v \<noteq> 0 then [(k, JInt (uint v))] else [])"

text \<open>The map \<open>out\<close> the switch over the event type fills, in the order it fills it.\<close>

definition event_members :: "event \<Rightarrow> (go_string \<times> json) list" where
  "event_members e = (''type'', JStr (ev_Type e)) #
     (if ev_Type e = ''hello'' then
        [(''helper_protocol'', JInt (ev_HelperProtocol e)), (''name'', JStr (ev_Name e))]
      else if ev_Type e = ''account'' then
        [(''account'', JStr (ev_Account e)), (''label'', JStr (ev_Label e)),
         (''connected'', JBool (ev_Connected e)), (''authenticated'', JBool (ev_Authenticated e))]
      else if ev_Type e = ''account_removed'' then
        [(''account'', JStr (ev_Account e))]
      else if ev_Type e = ''pairing'' then
        [(''account'', JStr (ev_Account e)), (''prompt'', JStr (ev_Prompt e))]
      else if ev_Type e = ''conversations'' then
        [(''account'', JStr (ev_Account e)),
         (''conversations'', JArr (map json_conversation (nonNilConversations (ev_Conversations e)))),
         (''full'', JBool (ev_Full e))]
        @ opt_u64 ''generation'' (ev_Generation e)
      else if ev_Type e = ''conversation_removed'' then
        [(''account'', JStr (ev_Account e)), (''conversation'', JStr (ev_Conversation e))]
      else if ev_Type e = ''messages'' then
        [(''account'', JStr (ev_Account e)), (''conversation'', JStr (ev_Conversation e)),
         (''messages'', JArr (map json_message (nonNilMessages (ev_Messages e))))]
        @ opt_str ''cursor_next'' (ev_CursorNext e)
        @ [(''page_complete'', JBool (ev_PageComplete e)), (''full'', JBool (ev_Full e))]
        @ opt_u64 ''generation'' (ev_Generation e)
        @ opt_u64 ''fetch_id'' (ev_FetchID e)
      else if ev_Type e = ''message_removed'' then
        [(''account'', JStr (ev_Account e)), (''conversation'', JStr (ev_Conversation e)),
         (''message'', JStr (ev_Message e))]
      else if ev_Type e = ''status'' then
        [(''account'', JStr (ev_Account e)), (''conversation'', JStr (ev_Conversation e)),
         (''message'', JStr (ev_Message e)), (''status'', JStr (ev_Status e))]
      else if ev_Type e = ''typing'' then
        [(''account'', JStr (ev_Account e)), (''conversation'', JStr (ev_Conversation e)),
         (''participants'', JArr (map JStr (nonNilStrings (ev_Participants e))))]
      else if ev_Type e = ''read'' then
        [(''account'', JStr (ev_Account e)), (''conversation'', JStr (ev_Conversation e))]
        @ opt_str ''last_read_message'' (ev_LastReadMessage e)
        @ [(''unread'', JBool (ev_Unread e))]
      else if ev_Type e = ''command_result'' then
        [(''request_id'', JStr (ev_RequestID e)), (''ok'', JBool (ev_OK e))]
        @ opt_str ''error'' (ev_Error e)
      else if ev_Type e = ''error'' then
        [(''message'', JStr (ev_Message e))]
      else [])"

text \<open>\<open>json.Marshal\<close> of a map writes the keys in sorted order.\<close>

definition marshal_event :: "event \<Rightarrow> go_string" where
  "marshal_event e = enc_json (JObj (sort_key fst (event_members e)))"

lemmas opt_defs = opt_str_def opt_bool_def opt_arr_def opt_ptr_def opt_u64_def

subsection \<open>Encoded text is one line\<close>

definition printable :: "go_string \<Rightarrow> bool" where
  "printable s \<longleftrightarrow> list_all (\<lambda>c. 0x20 \<le> byte c) s"

lemma printable_simps [simp]:
  "printable []"
  "printable (c # s) \<longleftrightarrow> 0x20 \<le> byte c \<and> printable s"
  "printable (s @ t) \<longleftrightarrow> printable s \<and> printable t"
  by (simp_all add: printable_def)

lemma printable_hex [simp]: "0x20 \<le> byte (hex_digit n)"
proof -
  have "hex_digit n \<in> set ''0123456789abcdef''"
    unfolding hex_digit_def by (intro nth_mem) simp
  then show ?thesis by auto
qed

lemma printable_escape_ascii [simp]: "printable (escape_ascii c)"
  by (auto simp: escape_ascii_def)

lemma printable_json_escape [simp]: "printable (json_escape s)"
proof (induction s rule: json_escape.induct)
  case (1 s)
  show ?case
  proof (cases s)
    case Nil
    then show ?thesis by (simp add: json_escape.simps)
  next
    case (Cons c cs)
    obtain r n where rn: "decode_rune s = (r, n)" by fastforce
    show ?thesis
    proof (cases "byte c < 0x80")
      case True
      then show ?thesis using "1"(1) [OF Cons True] Cons
        by (subst json_escape.simps) simp
    next
      case False
      have "printable (take n s)"
        using decode_rune_take_high [of c cs r n] False rn Cons
        by (auto simp: printable_def list_all_iff)
      moreover have "printable (json_escape (drop n s))"
        using "1"(2-4) [OF Cons False rn [symmetric] refl] by blast
      ultimately show ?thesis using False Cons rn
        by (subst json_escape.simps) (auto simp: Let_def)
    qed
  qed
qed

lemma printable_json_string [simp]: "printable (json_string s)"
  by (simp add: json_string_def)

lemma printable_format_int [simp]: "printable (format_int i)"
proof -
  have "printable (format_nat n)" for n
    using format_nat_digits [of n] unfolding printable_def
    by (rule list.pred_mono_strong) (simp add: is_digit_def)
  then show ?thesis by (simp add: format_int_def)
qed

lemma printable_comma_sep: "list_all printable xs \<Longrightarrow> printable (comma_sep xs)"
  by (induction xs rule: comma_sep.induct) auto

lemma printable_enc_json [simp]: "printable (enc_json j)"
proof (induction j)
  case (JArr xs)
  then show ?case by (simp add: printable_comma_sep list_all_iff)
next
  case (JObj ms)
  then have "printable (json_string k @ CHR '':'' # enc_json v)" if "(k, v) \<in> set ms" for k v
    using that by fastforce
  then have "printable (comma_sep (map (\<lambda>(k, v). json_string k @ CHR '':'' # enc_json v) ms))"
    by (intro printable_comma_sep) (auto simp: list_all_iff)
  then show ?case by simp
qed auto

lemma printable_marshal_event: "printable (marshal_event e)"
  by (simp only: marshal_event_def printable_enc_json)

subsection \<open>Sizes of encoded events\<close>

definition member_size :: "go_string \<times> json \<Rightarrow> nat" where
  "member_size m = length (json_string (fst m)) + 1 + length (enc_json (snd m))"

lemma length_comma_sep:
  "length (comma_sep xs) = sum_list (map length xs) + (length xs - 1)"
  by (induction xs rule: comma_sep.induct) auto

lemma length_enc_obj:
  "length (enc_json (JObj ms)) = 2 + sum_list (map member_size ms) + (length ms - 1)"
  by (simp add: length_comma_sep member_size_def [abs_def] split_def o_def)

lemma length_enc_arr:
  "length (enc_json (JArr xs)) = 2 + sum_list (map (length \<circ> enc_json) xs) + (length xs - 1)"
  by (simp add: length_comma_sep)

lemma sum_list_sort_key: "sum_list (map f (sort_key g xs)) = sum_list (map (f :: 'a \<Rightarrow> nat) xs)"
  by (metis mset_map mset_sort sum_mset_sum_list)

lemma length_marshal_event:
  "length (marshal_event e)
     = 2 + sum_list (map member_size (event_members e)) + (length (event_members e) - 1)"
  unfolding marshal_event_def by (simp only: length_enc_obj sum_list_sort_key length_sort)

lemma length_escape_ascii: "1 \<le> length (escape_ascii c)"
  by (simp add: escape_ascii_def)

lemma length_json_escape_ascii:
  "list_all (\<lambda>c. byte c < 0x80) s \<Longrightarrow> length s \<le> length (json_escape s)"
proof (induction s)
  case (Cons c cs)
  then have "length (json_escape (c # cs)) = length (escape_ascii c) + length (json_escape cs)"
    by (subst json_escape.simps) simp
  with Cons length_escape_ascii [of c] show ?case by simp
qed simp

lemma length_format_u64: "length (format_int (uint (w :: u64))) \<le> 20"
proof -
  have "unat w < 2 ^ 64" using unsigned_less [of w] by simp
  then have "unat w < 10 ^ 20" by simp
  then show ?thesis
    using length_format_nat_le [of "unat w" 20] by (simp add: format_int_def)
qed

end
