(* ===== verification/RelayTypes.thy ===== *)
theory RelayTypes
  imports Contract
begin

text \<open>
  The shapes of the \<open>gmproto\<close> messages the adapter reads. The package is not part of this
  repository, so each record has exactly the fields whose getters the adapter calls, and a
  pointer that the code tests against nil is an \<open>option\<close>. Protobuf getters are nil-safe: on nil
  they return the zero value, as the \<open>get_\<close> functions below do.

  Enumerations carry the values the adapter names and one more constructor for every other
  value. A message status is identified by its protobuf name, because the code also reads
  \<open>status.String()\<close>; the generated Go constant \<open>MessageStatusType_X\<close> prints as \<open>X\<close>.
\<close>

datatype conv_type = CT_RCS | CT_SMS | CT_Unlisted nat

datatype msg_status =
    STATUS_UNKNOWN
  | OUTGOING_SENDING
  | OUTGOING_YET_TO_SEND
  | OUTGOING_VALIDATING
  | OUTGOING_SEND_AFTER_PROCESSING
  | OUTGOING_RESENDING
  | OUTGOING_NOT_DELIVERED_YET
  | OUTGOING_AWAITING_RETRY
  | OUTGOING_RESTRICTED
  | INCOMING_AUTO_DOWNLOADING
  | INCOMING_MANUAL_DOWNLOADING
  | INCOMING_RETRYING_AUTO_DOWNLOAD
  | INCOMING_RETRYING_MANUAL_DOWNLOAD
  | INCOMING_AWAITING_AUTO_DOWNLOAD
  | OUTGOING_COMPLETE
  | INCOMING_COMPLETE
  | OUTGOING_DELIVERED
  | INCOMING_DELIVERED
  | OUTGOING_DISPLAYED
  | INCOMING_DISPLAYED
  | OUTGOING_FAILED_TOO_LARGE
  | INCOMING_DOWNLOAD_FAILED_TOO_LARGE
  | OUTGOING_FAILED_RECIPIENT_LOST_RCS
  | OUTGOING_FAILED_NO_RETRY_NO_FALLBACK
  | OUTGOING_FAILED_TO_ENCRYPT
  | OUTGOING_FAILED_RECIPIENT_DID_NOT_DECRYPT
  | OUTGOING_FAILED_RECIPIENT_DID_NOT_DECRYPT_NO_MORE_RETRY
  | OUTGOING_FAILED_RECIPIENT_LOST_ENCRYPTION
  | INCOMING_FAILED_TO_DECRYPT
  | INCOMING_DECRYPTION_ABORTED
  | OUTGOING_FAILED_RECIPIENT_NEGATIVE_DELIVERY
  | OUTGOING_CANCELED
  | OUTGOING_DELETED
  | OUTGOING_FAILED_GENERIC
  | OUTGOING_FAILED_EMERGENCY_NUMBER
  | MESSAGE_STATUS_OUTGOING_FAILED_EMERGENCY_PROTOCOL_DETERMINATION_MESSAGE
  | INCOMING_DOWNLOAD_FAILED
  | INCOMING_DOWNLOAD_CANCELED
  | INCOMING_DOWNLOAD_FAILED_SIM_HAS_NO_DATA
  | INCOMING_DOWNLOAD_RESTRICTED
  | INCOMING_EXPIRED_OR_NOT_AVAILABLE
  | INCOMING_UNKNOWN_CONTENT_TYPE
  | MESSAGE_DELETED
  | INCOMING_DELETED
  | MS_Unlisted go_string

primrec status_string :: "msg_status \<Rightarrow> go_string" where
"status_string STATUS_UNKNOWN = ''STATUS_UNKNOWN''"
| "status_string OUTGOING_SENDING = ''OUTGOING_SENDING''"
| "status_string OUTGOING_YET_TO_SEND = ''OUTGOING_YET_TO_SEND''"
| "status_string OUTGOING_VALIDATING = ''OUTGOING_VALIDATING''"
| "status_string OUTGOING_SEND_AFTER_PROCESSING = ''OUTGOING_SEND_AFTER_PROCESSING''"
| "status_string OUTGOING_RESENDING = ''OUTGOING_RESENDING''"
| "status_string OUTGOING_NOT_DELIVERED_YET = ''OUTGOING_NOT_DELIVERED_YET''"
| "status_string OUTGOING_AWAITING_RETRY = ''OUTGOING_AWAITING_RETRY''"
| "status_string OUTGOING_RESTRICTED = ''OUTGOING_RESTRICTED''"
| "status_string INCOMING_AUTO_DOWNLOADING = ''INCOMING_AUTO_DOWNLOADING''"
| "status_string INCOMING_MANUAL_DOWNLOADING = ''INCOMING_MANUAL_DOWNLOADING''"
| "status_string INCOMING_RETRYING_AUTO_DOWNLOAD = ''INCOMING_RETRYING_AUTO_DOWNLOAD''"
| "status_string INCOMING_RETRYING_MANUAL_DOWNLOAD = ''INCOMING_RETRYING_MANUAL_DOWNLOAD''"
| "status_string INCOMING_AWAITING_AUTO_DOWNLOAD = ''INCOMING_AWAITING_AUTO_DOWNLOAD''"
| "status_string OUTGOING_COMPLETE = ''OUTGOING_COMPLETE''"
| "status_string INCOMING_COMPLETE = ''INCOMING_COMPLETE''"
| "status_string OUTGOING_DELIVERED = ''OUTGOING_DELIVERED''"
| "status_string INCOMING_DELIVERED = ''INCOMING_DELIVERED''"
| "status_string OUTGOING_DISPLAYED = ''OUTGOING_DISPLAYED''"
| "status_string INCOMING_DISPLAYED = ''INCOMING_DISPLAYED''"
| "status_string OUTGOING_FAILED_TOO_LARGE = ''OUTGOING_FAILED_TOO_LARGE''"
| "status_string INCOMING_DOWNLOAD_FAILED_TOO_LARGE = ''INCOMING_DOWNLOAD_FAILED_TOO_LARGE''"
| "status_string OUTGOING_FAILED_RECIPIENT_LOST_RCS = ''OUTGOING_FAILED_RECIPIENT_LOST_RCS''"
| "status_string OUTGOING_FAILED_NO_RETRY_NO_FALLBACK = ''OUTGOING_FAILED_NO_RETRY_NO_FALLBACK''"
| "status_string OUTGOING_FAILED_TO_ENCRYPT = ''OUTGOING_FAILED_TO_ENCRYPT''"
| "status_string OUTGOING_FAILED_RECIPIENT_DID_NOT_DECRYPT = ''OUTGOING_FAILED_RECIPIENT_DID_NOT_DECRYPT''"
| "status_string OUTGOING_FAILED_RECIPIENT_DID_NOT_DECRYPT_NO_MORE_RETRY = ''OUTGOING_FAILED_RECIPIENT_DID_NOT_DECRYPT_NO_MORE_RETRY''"
| "status_string OUTGOING_FAILED_RECIPIENT_LOST_ENCRYPTION = ''OUTGOING_FAILED_RECIPIENT_LOST_ENCRYPTION''"
| "status_string INCOMING_FAILED_TO_DECRYPT = ''INCOMING_FAILED_TO_DECRYPT''"
| "status_string INCOMING_DECRYPTION_ABORTED = ''INCOMING_DECRYPTION_ABORTED''"
| "status_string OUTGOING_FAILED_RECIPIENT_NEGATIVE_DELIVERY = ''OUTGOING_FAILED_RECIPIENT_NEGATIVE_DELIVERY''"
| "status_string OUTGOING_CANCELED = ''OUTGOING_CANCELED''"
| "status_string OUTGOING_DELETED = ''OUTGOING_DELETED''"
| "status_string OUTGOING_FAILED_GENERIC = ''OUTGOING_FAILED_GENERIC''"
| "status_string OUTGOING_FAILED_EMERGENCY_NUMBER = ''OUTGOING_FAILED_EMERGENCY_NUMBER''"
| "status_string MESSAGE_STATUS_OUTGOING_FAILED_EMERGENCY_PROTOCOL_DETERMINATION_MESSAGE = ''MESSAGE_STATUS_OUTGOING_FAILED_EMERGENCY_PROTOCOL_DETERMINATION_MESSAGE''"
| "status_string INCOMING_DOWNLOAD_FAILED = ''INCOMING_DOWNLOAD_FAILED''"
| "status_string INCOMING_DOWNLOAD_CANCELED = ''INCOMING_DOWNLOAD_CANCELED''"
| "status_string INCOMING_DOWNLOAD_FAILED_SIM_HAS_NO_DATA = ''INCOMING_DOWNLOAD_FAILED_SIM_HAS_NO_DATA''"
| "status_string INCOMING_DOWNLOAD_RESTRICTED = ''INCOMING_DOWNLOAD_RESTRICTED''"
| "status_string INCOMING_EXPIRED_OR_NOT_AVAILABLE = ''INCOMING_EXPIRED_OR_NOT_AVAILABLE''"
| "status_string INCOMING_UNKNOWN_CONTENT_TYPE = ''INCOMING_UNKNOWN_CONTENT_TYPE''"
| "status_string MESSAGE_DELETED = ''MESSAGE_DELETED''"
| "status_string INCOMING_DELETED = ''INCOMING_DELETED''"
| "status_string (MS_Unlisted n) = n"

record small_info =
  si_ParticipantID :: go_string
  si_Number :: go_string

record pb_participant =
  pp_ID :: "small_info option"
  pp_FullName :: go_string
  pp_FirstName :: go_string
  pp_IsMe :: bool

record pb_conversation =
  pc_ConversationID :: go_string
  pc_IsGroupChat :: bool
  pc_Participants :: "pb_participant option list"
  pc_Type :: conv_type
  pc_Name :: go_string
  pc_LatestMessageID :: go_string
  pc_LastMessageTimestamp :: int
  pc_DefaultOutgoingID :: go_string
  pc_SendMode :: nat
  pc_Unread :: bool

record media_content =
  mc_MimeType :: go_string
  mc_MediaName :: go_string
  mc_Size :: int
  mc_MediaData :: bytes
  mc_MediaID :: go_string
  mc_DecryptionKey :: bytes
  mc_ThumbnailMediaID :: go_string
  mc_ThumbnailDecryptionKey :: bytes

datatype info_data = Info_Message go_string | Info_Media media_content | Info_None

record message_info =
  mi_Data :: info_data
  mi_ActionMessageID :: go_string

record reaction_entry =
  re_Unicode :: go_string
  re_ParticipantIDs :: "go_string list"

record reply_message =
  rm_MessageID :: go_string
  rm_ConversationID :: go_string

record pb_message =
  pm_MessageID :: go_string
  pm_ConversationID :: go_string
  pm_ParticipantID :: go_string
  pm_SenderParticipant :: "pb_participant option"
  pm_Status :: msg_status
  pm_Timestamp :: int
  pm_TmpID :: go_string
  pm_Type :: int
  pm_MessageInfo :: "message_info list"
  pm_ReplyMessage :: "reply_message option"
  pm_Reactions :: "reaction_entry list"

record sim_card =
  sim_ParticipantID :: go_string
  sim_Payload :: "go_string option"

record relay_cursor =
  rc_LastItemID :: go_string
  rc_LastItemTimestamp :: "64 word"

definition get_ID :: "pb_participant option \<Rightarrow> small_info option" where
  "get_ID p = (case p of None \<Rightarrow> None | Some q \<Rightarrow> pp_ID q)"

definition get_IsMe :: "pb_participant option \<Rightarrow> bool" where
  "get_IsMe p = (case p of None \<Rightarrow> False | Some q \<Rightarrow> pp_IsMe q)"

definition get_Number :: "small_info option \<Rightarrow> go_string" where
  "get_Number i = (case i of None \<Rightarrow> [] | Some q \<Rightarrow> si_Number q)"

definition get_ParticipantID :: "small_info option \<Rightarrow> go_string" where
  "get_ParticipantID i = (case i of None \<Rightarrow> [] | Some q \<Rightarrow> si_ParticipantID q)"

lemmas getter_defs = get_ID_def get_IsMe_def get_Number_def get_ParticipantID_def

end
