(* ===== verification/RelayMap.thy ===== *)
theory RelayMap
  imports RelayTypes
begin

text \<open>
  \<open>adapter/map.go\<close>: pure conversion of relay records into wire records. A Go error return is
  the left side of a sum, with the error's text. \<open>map[string]bool\<close> values that only ever hold
  true are sets.
\<close>

definition MaxStagedBytes :: nat where
  "MaxStagedBytes = 50 * 1024 * 1024"

definition selfSentinel :: go_string where
  "selfSentinel = ''1''"

definition rcsCaps :: "go_string list" where
  "rcsCaps = [''text'', ''media'', ''reactions'', ''replies'', ''read_receipts'',
     ''typing_send'', ''typing_receive'', ''group_create'',
     ''message_delete_own'', ''attachment_download'']"

definition smsCaps :: "go_string list" where
  "smsCaps = [''text'']"

fun mapTransport :: "conv_type \<Rightarrow> go_string" where
  "mapTransport CT_RCS = ''rcs''"
| "mapTransport CT_SMS = ''sms''"
| "mapTransport (CT_Unlisted _) = ''unknown''"

definition senderKey :: "small_info option \<Rightarrow> go_string" where
  "senderKey sid =
     (case sid of
        None \<Rightarrow> []
      | Some i \<Rightarrow> if si_ParticipantID i \<noteq> [] then si_ParticipantID i else si_Number i)"

definition mapParticipant :: "pb_participant option \<Rightarrow> go_string set \<Rightarrow> participant" where
  "mapParticipant p selfIDs =
     (case p of
        None \<Rightarrow> \<lparr>p_LocalID = [], p_DisplayName = [], p_Address = [], p_IsSelf = False\<rparr>
      | Some q \<Rightarrow>
          let key = senderKey (pp_ID q) in
          \<lparr>p_LocalID = key,
           p_DisplayName = (if pp_FullName q \<noteq> [] then pp_FullName q
                            else if pp_FirstName q \<noteq> [] then pp_FirstName q else []),
           p_Address = get_Number (pp_ID q),
           p_IsSelf = pp_IsMe q \<or> key \<in> selfIDs \<or> key = selfSentinel\<rparr>)"

record convMeta =
  cm_outgoingID :: go_string
  cm_convType :: conv_type
  cm_sendMode :: nat
  cm_isGroup :: bool

text \<open>The first loop: addresses of the participants flagged as the local user.\<close>

definition selfAddresses :: "pb_participant option list \<Rightarrow> go_string set" where
  "selfAddresses ps =
     set (map (\<lambda>p. get_Number (get_ID p))
            (filter (\<lambda>p. p \<noteq> None \<and> get_IsMe p \<and> get_Number (get_ID p) \<noteq> []) ps))"

text \<open>The second loop, with its variables \<open>seen\<close> and \<open>selfKept\<close>.\<close>

fun map_participants ::
  "go_string set \<Rightarrow> go_string set \<Rightarrow> go_string set \<Rightarrow> bool
     \<Rightarrow> pb_participant option list \<Rightarrow> participant list" where
  "map_participants selfIDs addrs seen selfKept [] = []"
| "map_participants selfIDs addrs seen selfKept (p # ps) =
     (let mapped = mapParticipant p selfIDs in
      if p_LocalID mapped = [] then map_participants selfIDs addrs seen selfKept ps
      else
        let mapped = (if p_Address mapped \<in> addrs then mapped\<lparr>p_IsSelf := True\<rparr> else mapped) in
        if p_LocalID mapped \<in> seen then map_participants selfIDs addrs seen selfKept ps
        else if p_IsSelf mapped \<and> selfKept then map_participants selfIDs addrs seen selfKept ps
        else mapped # map_participants selfIDs addrs (insert (p_LocalID mapped) seen)
                        (selfKept \<or> p_IsSelf mapped) ps)"

definition mapConversation ::
  "pb_conversation option \<Rightarrow> go_string set \<Rightarrow> go_string + conversation \<times> convMeta" where
  "mapConversation conv selfIDs =
     (case conv of
        None \<Rightarrow> Inl ''nil conversation''
      | Some c \<Rightarrow>
          if pc_ConversationID c = [] then Inl ''conversation without id''
          else
            let participants = map_participants selfIDs (selfAddresses (pc_Participants c)) {} False
                                 (pc_Participants c) in
            if participants = []
            then Inl (''conversation '' @ pc_ConversationID c @ '' has no participants'')
            else
              let kind = (if pc_IsGroupChat c \<or> length participants > 2
                          then ''group'' else ''direct'') in
              Inr (\<lparr>c_LocalID = pc_ConversationID c,
                    c_Kind = kind,
                    c_Transport = mapTransport (pc_Type c),
                    c_Title = (if kind = ''group'' \<and> pc_Name c \<noteq> [] then pc_Name c else []),
                    c_Participants = participants,
                    c_LatestMessage = pc_LatestMessageID c,
                    c_LastActivityAt = pc_LastMessageTimestamp c,
                    c_UnreadCount = None,
                    c_Cursor = [],
                    c_Capabilities = (if pc_Type c = CT_RCS then rcsCaps else smsCaps)\<rparr>,
                   \<lparr>cm_outgoingID = pc_DefaultOutgoingID c,
                    cm_convType = pc_Type c,
                    cm_sendMode = pc_SendMode c,
                    cm_isGroup = pc_IsGroupChat c\<rparr>))"

definition accepted_statuses :: "msg_status list" where
  "accepted_statuses =
     [OUTGOING_SENDING, OUTGOING_YET_TO_SEND, OUTGOING_VALIDATING,
      OUTGOING_SEND_AFTER_PROCESSING, OUTGOING_RESENDING, OUTGOING_NOT_DELIVERED_YET,
      OUTGOING_AWAITING_RETRY, OUTGOING_RESTRICTED, INCOMING_AUTO_DOWNLOADING,
      INCOMING_MANUAL_DOWNLOADING, INCOMING_RETRYING_AUTO_DOWNLOAD,
      INCOMING_RETRYING_MANUAL_DOWNLOAD, INCOMING_AWAITING_AUTO_DOWNLOAD]"

definition encryption_statuses :: "msg_status list" where
  "encryption_statuses =
     [OUTGOING_FAILED_TO_ENCRYPT, OUTGOING_FAILED_RECIPIENT_DID_NOT_DECRYPT,
      OUTGOING_FAILED_RECIPIENT_DID_NOT_DECRYPT_NO_MORE_RETRY,
      OUTGOING_FAILED_RECIPIENT_LOST_ENCRYPTION, INCOMING_FAILED_TO_DECRYPT,
      INCOMING_DECRYPTION_ABORTED]"

definition transport_statuses :: "msg_status list" where
  "transport_statuses =
     [OUTGOING_CANCELED, OUTGOING_DELETED, OUTGOING_FAILED_GENERIC,
      OUTGOING_FAILED_EMERGENCY_NUMBER,
      MESSAGE_STATUS_OUTGOING_FAILED_EMERGENCY_PROTOCOL_DETERMINATION_MESSAGE,
      INCOMING_DOWNLOAD_FAILED, INCOMING_DOWNLOAD_CANCELED,
      INCOMING_DOWNLOAD_FAILED_SIM_HAS_NO_DATA, INCOMING_DOWNLOAD_RESTRICTED,
      INCOMING_EXPIRED_OR_NOT_AVAILABLE, INCOMING_UNKNOWN_CONTENT_TYPE]"

text \<open>The second return value \<open>false\<close> is \<open>None\<close>.\<close>

definition mapStatus :: "msg_status \<Rightarrow> go_string option" where
  "mapStatus st =
     (if st \<in> set accepted_statuses then Some ''accepted''
      else if st \<in> {OUTGOING_COMPLETE, INCOMING_COMPLETE} then Some ''sent''
      else if st \<in> {OUTGOING_DELIVERED, INCOMING_DELIVERED} then Some ''delivered''
      else if st \<in> {OUTGOING_DISPLAYED, INCOMING_DISPLAYED} then Some ''displayed''
      else if st \<in> {OUTGOING_FAILED_TOO_LARGE, INCOMING_DOWNLOAD_FAILED_TOO_LARGE}
        then Some ''failed:too_large''
      else if st \<in> {OUTGOING_FAILED_RECIPIENT_LOST_RCS, OUTGOING_FAILED_NO_RETRY_NO_FALLBACK}
        then Some ''failed:no_route''
      else if st \<in> set encryption_statuses then Some ''failed:encryption''
      else if st = OUTGOING_FAILED_RECIPIENT_NEGATIVE_DELIVERY then Some ''failed:rejected''
      else if st \<in> set transport_statuses then Some ''failed:transport''
      else None)"

definition isDeletion :: "msg_status \<Rightarrow> bool" where
  "isDeletion st \<longleftrightarrow> st = MESSAGE_DELETED \<or> st = INCOMING_DELETED"

definition isTombstone :: "msg_status \<Rightarrow> bool" where
  "isTombstone st \<longleftrightarrow> go_contains (status_string st) ''TOMBSTONE''"

definition textParts :: "pb_message \<Rightarrow> go_string list" where
  "textParts msg =
     List.map_filter (\<lambda>i. case mi_Data i of Info_Message t \<Rightarrow> Some t | _ \<Rightarrow> None) (pm_MessageInfo msg)"

definition mediaParts :: "pb_message \<Rightarrow> media_content list" where
  "mediaParts msg =
     List.map_filter (\<lambda>i. case mi_Data i of Info_Media m \<Rightarrow> Some m | _ \<Rightarrow> None) (pm_MessageInfo msg)"

fun mapReactions :: "reaction_entry list \<Rightarrow> reaction list" where
  "mapReactions [] = []"
| "mapReactions (e # es) =
     (if re_Unicode e = [] then mapReactions es
      else if re_ParticipantIDs e = [] then mapReactions es
      else \<lparr>r_Emoji = re_Unicode e, r_ParticipantIDs = re_ParticipantIDs e\<rparr> # mapReactions es)"

subsection \<open>The participant list\<close>

text \<open>What the loop appends for one relay participant it keeps.\<close>

definition resolve ::
  "go_string set \<Rightarrow> go_string set \<Rightarrow> pb_participant option \<Rightarrow> participant" where
  "resolve selfIDs addrs p =
     (let m = mapParticipant p selfIDs in
      if p_Address m \<in> addrs then m\<lparr>p_IsSelf := True\<rparr> else m)"

lemma resolve_id [simp]: "p_LocalID (resolve selfIDs addrs p) = p_LocalID (mapParticipant p selfIDs)"
  by (simp add: resolve_def Let_def)

lemma map_participants_Cons:
  "map_participants selfIDs addrs seen selfKept (p # ps) =
     (let q = resolve selfIDs addrs p in
      if p_LocalID q = [] \<or> p_LocalID q \<in> seen \<or> (p_IsSelf q \<and> selfKept)
      then map_participants selfIDs addrs seen selfKept ps
      else q # map_participants selfIDs addrs (insert (p_LocalID q) seen) (selfKept \<or> p_IsSelf q) ps)"
  by (cases selfKept) (auto simp: resolve_def Let_def)

declare map_participants.simps(2) [simp del]
declare map_participants_Cons [simp]

lemma map_participants_subseq:
  "subseq (map_participants selfIDs addrs seen selfKept ps) (map (resolve selfIDs addrs) ps)"
  by (induction ps arbitrary: seen selfKept) (auto simp: Let_def)

lemma map_participants_ids:
  "distinct (map p_LocalID (map_participants selfIDs addrs seen selfKept ps))
   \<and> set (map p_LocalID (map_participants selfIDs addrs seen selfKept ps)) \<inter> insert [] seen = {}"
proof (induction ps arbitrary: seen selfKept)
  case (Cons p ps)
  show ?case
    using Cons.IH [of seen selfKept]
      Cons.IH [of "insert (p_LocalID (resolve selfIDs addrs p)) seen"
        "selfKept \<or> p_IsSelf (resolve selfIDs addrs p)"]
    by (auto simp: Let_def)
qed simp

lemma map_participants_one_self:
  "length (filter p_IsSelf (map_participants selfIDs addrs seen selfKept ps))
     \<le> (if selfKept then 0 else 1)"
proof (induction ps arbitrary: seen selfKept)
  case (Cons p ps)
  show ?case
    using Cons.IH [of seen selfKept]
      Cons.IH [of "insert (p_LocalID (resolve selfIDs addrs p)) seen"
        "selfKept \<or> p_IsSelf (resolve selfIDs addrs p)"]
    by (auto simp: Let_def split: if_splits)
qed simp

lemma map_participants_complete:
  assumes "p \<in> set ps" and "p_LocalID (mapParticipant p selfIDs) \<noteq> []"
  shows "p_LocalID (mapParticipant p selfIDs)
           \<in> seen \<union> p_LocalID ` set (map_participants selfIDs addrs seen selfKept ps)
         \<or> (p_IsSelf (resolve selfIDs addrs p)
             \<and> (selfKept \<or> (\<exists>q \<in> set (map_participants selfIDs addrs seen selfKept ps). p_IsSelf q)))"
  using assms(1)
proof (induction ps arbitrary: seen selfKept)
  case (Cons x xs)
  show ?case
  proof (cases "p = x")
    case True
    then show ?thesis using assms(2) by (auto simp: Let_def)
  next
    case False
    then have "p \<in> set xs" using Cons.prems by simp
    from Cons.IH [OF this, of seen selfKept]
      Cons.IH [OF this, of "insert (p_LocalID (resolve selfIDs addrs x)) seen"
        "selfKept \<or> p_IsSelf (resolve selfIDs addrs x)"]
    show ?thesis by (auto simp: Let_def)
  qed
qed simp

subsection \<open>Conversations\<close>

text \<open>What the daemon may rely on in a conversation record.\<close>

definition wf_conversation :: "conversation \<Rightarrow> bool" where
  "wf_conversation v \<longleftrightarrow>
     c_LocalID v \<noteq> []
     \<and> c_Kind v \<in> {''direct'', ''group''}
     \<and> c_Transport v \<in> {''rcs'', ''sms'', ''unknown''}
     \<and> c_Participants v \<noteq> []
     \<and> distinct (map p_LocalID (c_Participants v))
     \<and> [] \<notin> set (map p_LocalID (c_Participants v))
     \<and> length (filter p_IsSelf (c_Participants v)) \<le> 1
     \<and> (c_Kind v = ''direct'' \<longrightarrow> length (c_Participants v) \<le> 2 \<and> c_Title v = [])
     \<and> set (c_Capabilities v) \<subseteq> set rcsCaps
     \<and> (c_Transport v \<noteq> ''rcs'' \<longrightarrow> c_Capabilities v = smsCaps)"

lemma mapTransport_rcs [simp]: "mapTransport t = ''rcs'' \<longleftrightarrow> t = CT_RCS"
  by (cases t) auto

lemma mapTransport_range: "mapTransport t \<in> {''rcs'', ''sms'', ''unknown''}"
  by (cases t) auto

lemma mapConversation_Inr:
  assumes "mapConversation conv selfIDs = Inr (v, m)"
  obtains c where "conv = Some c" and "pc_ConversationID c \<noteq> []"
    and "c_LocalID v = pc_ConversationID c"
    and "c_Participants v = map_participants selfIDs (selfAddresses (pc_Participants c)) {} False
           (pc_Participants c)"
    and "c_Participants v \<noteq> []"
    and "c_Kind v = (if pc_IsGroupChat c \<or> length (c_Participants v) > 2 then ''group'' else ''direct'')"
    and "c_Transport v = mapTransport (pc_Type c)"
    and "c_Title v = (if c_Kind v = ''group'' then pc_Name c else [])"
    and "c_Capabilities v = (if pc_Type c = CT_RCS then rcsCaps else smsCaps)"
    and "m = \<lparr>cm_outgoingID = pc_DefaultOutgoingID c, cm_convType = pc_Type c,
              cm_sendMode = pc_SendMode c, cm_isGroup = pc_IsGroupChat c\<rparr>"
  using assms
  by (auto simp: mapConversation_def Let_def split: option.splits if_splits)

lemma mapConversation_wf:
  assumes "mapConversation conv selfIDs = Inr (v, m)"
  shows "wf_conversation v"
proof -
  obtain c :: pb_conversation where c: "pc_ConversationID c \<noteq> []" "c_LocalID v = pc_ConversationID c"
    "c_Participants v = map_participants selfIDs (selfAddresses (pc_Participants c)) {} False
           (pc_Participants c)"
    "c_Participants v \<noteq> []"
    "c_Kind v = (if pc_IsGroupChat c \<or> length (c_Participants v) > 2 then ''group'' else ''direct'')"
    "c_Transport v = mapTransport (pc_Type c)"
    "c_Title v = (if c_Kind v = ''group'' then pc_Name c else [])"
    "c_Capabilities v = (if pc_Type c = CT_RCS then rcsCaps else smsCaps)"
    using assms by (elim mapConversation_Inr) blast
  note ids = map_participants_ids [of selfIDs "selfAddresses (pc_Participants c)" "{}" False
      "pc_Participants c", folded c(3)]
  note one = map_participants_one_self [of selfIDs "selfAddresses (pc_Participants c)" "{}" False
      "pc_Participants c", folded c(3)]
  show ?thesis
    unfolding wf_conversation_def using c ids one mapTransport_range [of "pc_Type c"]
    by (auto simp: rcsCaps_def smsCaps_def)
qed

subsection \<open>Statuses\<close>

lemmas status_list_defs =
  accepted_statuses_def encryption_statuses_def transport_statuses_def

definition signal_tokens :: "go_string set" where
  "signal_tokens = {''accepted'', ''sent'', ''delivered'', ''displayed'', ''failed:too_large'',
     ''failed:no_route'', ''failed:encryption'', ''failed:rejected'', ''failed:transport''}"

lemma mapStatus_tokens: "mapStatus st = Some tok \<Longrightarrow> tok \<in> signal_tokens"
  by (auto simp: mapStatus_def signal_tokens_def split: if_splits)

lemma no_tombstone_named: "(\<And>n. st \<noteq> MS_Unlisted n) \<Longrightarrow> \<not> isTombstone st"
  by (cases st) (auto simp: isTombstone_def go_contains_def sublist_Cons_right)

subsection \<open>Properties\<close>

text \<open>C1: Every conversation record \<open>mapConversation\<close> returns is well formed: it has an id, a kind
  in \<open>direct\<close>/\<open>group\<close>, at least one participant, pairwise different and non-empty participant
  keys, at most one local user, at most two members and no title when it is direct, and the
  capabilities of its transport. It lists the relay's participants in the relay's order and drops
  none except a copy of a listed key or a further identity of the already listed local user.\<close>

theorem mapConversation_sound:
  assumes "mapConversation (Some c) selfIDs = Inr (v, m)"
  shows "wf_conversation v
    \<and> subseq (c_Participants v)
        (map (resolve selfIDs (selfAddresses (pc_Participants c))) (pc_Participants c))
    \<and> (\<forall>p \<in> set (pc_Participants c). p_LocalID (mapParticipant p selfIDs) \<noteq> [] \<longrightarrow>
         p_LocalID (mapParticipant p selfIDs) \<in> p_LocalID ` set (c_Participants v)
         \<or> (p_IsSelf (resolve selfIDs (selfAddresses (pc_Participants c)) p)
             \<and> (\<exists>q \<in> set (c_Participants v). p_IsSelf q)))"
proof -
  have ps: "c_Participants v = map_participants selfIDs (selfAddresses (pc_Participants c)) {} False
           (pc_Participants c)"
    using assms by (elim mapConversation_Inr) blast
  show ?thesis
    using mapConversation_wf [OF assms] map_participants_subseq
      map_participants_complete [where selfIDs = selfIDs and ps = "pc_Participants c"
        and addrs = "selfAddresses (pc_Participants c)" and seen = "{}" and selfKept = False]
    unfolding ps by blast
qed

definition wPart :: "go_string \<Rightarrow> go_string \<Rightarrow> bool \<Rightarrow> pb_participant option" where
  "wPart n i me = Some \<lparr>pp_ID = Some \<lparr>si_ParticipantID = i, si_Number = n\<rparr>,
     pp_FullName = [], pp_FirstName = [], pp_IsMe = me\<rparr>"

definition wConv :: "conv_type \<Rightarrow> pb_participant option list \<Rightarrow> pb_conversation" where
  "wConv t ps = \<lparr>pc_ConversationID = ''thread'', pc_IsGroupChat = False, pc_Participants = ps,
     pc_Type = t, pc_Name = [], pc_LatestMessageID = [], pc_LastMessageTimestamp = 7,
     pc_DefaultOutgoingID = ''self-1'', pc_SendMode = 0, pc_Unread = False\<rparr>"

text \<open>Two SIM identities and an unflagged alias of the local user merge into one member.\<close>

definition dual_sim :: pb_conversation where
  "dual_sim = wConv CT_RCS [wPart ''+1'' ''self-1'' True, wPart ''+1'' ''self-2'' True,
     wPart ''+1'' ''alias'' False, wPart ''+2'' ''peer'' False]"

lemma dual_sim_members:
  "map_participants {} (selfAddresses (pc_Participants dual_sim)) {} False (pc_Participants dual_sim)
   = [\<lparr>p_LocalID = ''self-1'', p_DisplayName = [], p_Address = ''+1'', p_IsSelf = True\<rparr>,
      \<lparr>p_LocalID = ''peer'', p_DisplayName = [], p_Address = ''+2'', p_IsSelf = False\<rparr>]"
  by (simp add: dual_sim_def wConv_def wPart_def selfAddresses_def getter_defs mapParticipant_def
      senderKey_def selfSentinel_def resolve_def Let_def)

lemma dual_sim_maps: "\<exists>v m. mapConversation (Some dual_sim) {} = Inr (v, m) \<and> c_Kind v = ''direct''
    \<and> length (c_Participants v) = 2"
  unfolding mapConversation_def using dual_sim_members
  by (simp add: Let_def) (simp add: dual_sim_def wConv_def)

theorem mapConversation_sound_witness:
  "\<exists>v m. mapConversation (Some dual_sim) {} = Inr (v, m) \<and> wf_conversation v"
  using dual_sim_maps mapConversation_sound [of dual_sim "{}"] by blast

text \<open>\<open>mapConversation\<close> fails exactly on a nil record, on a record without an id, and on a
  record none of whose participants has a key; in every other case it returns a record, and a
  thread of more than two members is promoted to a group whatever the relay's group flag says.\<close>

theorem mapConversation_total:
  "((\<exists>e. mapConversation conv selfIDs = Inl e) \<longleftrightarrow>
     (case conv of None \<Rightarrow> True
      | Some c \<Rightarrow> pc_ConversationID c = []
          \<or> (\<forall>p \<in> set (pc_Participants c). p_LocalID (mapParticipant p selfIDs) = [])))
   \<and> (\<forall>c v m. conv = Some c \<and> mapConversation conv selfIDs = Inr (v, m) \<longrightarrow>
        (c_Kind v = ''group'' \<longleftrightarrow> pc_IsGroupChat c \<or> 2 < length (c_Participants v)))"
proof -
  have none: "map_participants selfIDs addrs {} False ps = []
        \<longleftrightarrow> (\<forall>p \<in> set ps. p_LocalID (mapParticipant p selfIDs) = [])" for addrs ps
  proof
    assume "map_participants selfIDs addrs {} False ps = []"
    then show "\<forall>p \<in> set ps. p_LocalID (mapParticipant p selfIDs) = []"
      using map_participants_complete [of _ ps selfIDs "{}" addrs False] by auto
  qed (induction ps, auto simp: Let_def)
  have kind: "c_Kind v = ''group'' \<longleftrightarrow> pc_IsGroupChat c \<or> 2 < length (c_Participants v)"
    if "mapConversation (Some c) selfIDs = Inr (v, m)" for c v m
    using that by (elim mapConversation_Inr) auto
  show ?thesis using none kind
    by (auto simp: mapConversation_def Let_def split: option.splits)
qed

text \<open>A three-party thread whose group flag is unset.\<close>

definition old_thread :: pb_conversation where
  "old_thread = wConv CT_SMS [wPart ''+1'' ''self-p'' True, wPart ''+2'' ''a'' False,
     wPart ''+3'' ''b'' False]"

lemma old_thread_maps: "\<exists>v m. mapConversation (Some old_thread) {} = Inr (v, m)
    \<and> length (c_Participants v) = 3"
  by (simp add: mapConversation_def old_thread_def wConv_def wPart_def selfAddresses_def getter_defs
      mapParticipant_def senderKey_def selfSentinel_def resolve_def Let_def)

theorem mapConversation_total_witness:
  "\<exists>v m. mapConversation (Some old_thread) {} = Inr (v, m) \<and> c_Kind v = ''group''
     \<and> \<not> pc_IsGroupChat old_thread"
proof -
  obtain v m where v: "mapConversation (Some old_thread) {} = Inr (v, m)" "length (c_Participants v) = 3"
    using old_thread_maps by blast
  moreover have "c_Kind v = ''group''"
    using v mapConversation_total [of "Some old_thread" "{}"] by auto
  ultimately show ?thesis by (simp add: old_thread_def wConv_def)
qed

text \<open>The status taxonomy is exclusive and exhaustive: a relay status carries at most one of a
  lifecycle signal, a deletion and a tombstone, and every status the code names carries exactly
  one of a signal and a deletion; every signal is one of the nine contract tokens.\<close>

theorem status_taxonomy:
  "\<not> (mapStatus st \<noteq> None \<and> isDeletion st) \<and> \<not> (mapStatus st \<noteq> None \<and> isTombstone st)
   \<and> \<not> (isDeletion st \<and> isTombstone st)
   \<and> (st \<noteq> STATUS_UNKNOWN \<and> (\<forall>n. st \<noteq> MS_Unlisted n) \<longrightarrow> (mapStatus st \<noteq> None) \<noteq> isDeletion st)
   \<and> (\<forall>tok. mapStatus st = Some tok \<longrightarrow> tok \<in> signal_tokens)"
proof -
  have excl: "\<not> (mapStatus st \<noteq> None \<and> isDeletion st)"
    by (auto simp: isDeletion_def mapStatus_def status_list_defs)
  have named: "mapStatus st \<noteq> None \<or> isDeletion st \<Longrightarrow> \<not> isTombstone st"
    by (rule no_tombstone_named) (auto simp: mapStatus_def status_list_defs isDeletion_def)
  have exh: "mapStatus st \<noteq> None \<or> isDeletion st"
    if "st \<noteq> STATUS_UNKNOWN" "\<forall>n. st \<noteq> MS_Unlisted n"
    using that by (cases st) (simp_all add: mapStatus_def status_list_defs isDeletion_def)
  show ?thesis using excl named exh mapStatus_tokens by blast
qed

theorem status_taxonomy_witness:
  "mapStatus INCOMING_FAILED_TO_DECRYPT = Some ''failed:encryption''
   \<and> ''failed:encryption'' \<in> signal_tokens \<and> isDeletion MESSAGE_DELETED"
proof -
  have s: "mapStatus INCOMING_FAILED_TO_DECRYPT = Some ''failed:encryption''"
    by (simp add: mapStatus_def status_list_defs)
  show ?thesis
    using s status_taxonomy [of INCOMING_FAILED_TO_DECRYPT] by (simp add: isDeletion_def)
qed

end
