(* ===== verification/Paging.thy ===== *)
theory Paging
  imports Contract
begin

text \<open>
  The size-bounded emission of \<open>adapter/sync.go\<close> and its opaque cursors, as pure functions: the
  chunk loops of \<open>emitConversations\<close> and \<open>emitMessages\<close>, the events they fire, and
  \<open>parseCursor\<close>/\<open>mintCursor\<close>. Both chunk loops satisfy one contract, the locale
  \<open>size_chunker\<close>; their properties are proved there once.
\<close>

definition maxEventBytes :: nat where
  "maxEventBytes = 48 * 1024"

text \<open>The daemon's inbound line bound named in the comment on \<open>maxEventBytes\<close>.\<close>

definition daemonLineBound :: nat where
  "daemonLineBound = 64 * 1024"

text \<open>\<open>json.Marshal\<close> cannot fail on an event, so its error branch has no counterpart.\<close>

definition eventBytes :: "event \<Rightarrow> nat" where
  "eventBytes evt = length (marshal_event evt)"

subsection \<open>A greedy size-bounded chunk loop\<close>

locale size_chunker =
  fixes chunk :: "'a list \<Rightarrow> 'a list \<Rightarrow> 'a list list"
    and size_of :: "'a list \<Rightarrow> nat"
    and bound :: nat
  assumes chunk_Nil: "chunk [] cur = [cur]"
    and chunk_Cons: "chunk (x # xs) cur =
      (if cur \<noteq> [] \<and> size_of (cur @ [x]) > bound then cur # chunk xs [x]
       else chunk xs (cur @ [x]))"
begin

lemma chunk_nonempty_list: "chunk xs cur \<noteq> []"
  by (induction xs arbitrary: cur) (auto simp: chunk_Nil chunk_Cons)

lemma concat_chunk: "concat (chunk xs cur) = cur @ xs"
  by (induction xs arbitrary: cur) (auto simp: chunk_Nil chunk_Cons)

lemma chunk_parts_nonempty:
  "cur \<noteq> [] \<or> xs \<noteq> [] \<Longrightarrow> c \<in> set (chunk xs cur) \<Longrightarrow> c \<noteq> []"
  by (induction xs arbitrary: cur) (auto simp: chunk_Nil chunk_Cons split: if_splits)

lemma chunk_fits:
  "length cur \<le> 1 \<or> size_of cur \<le> bound \<Longrightarrow> c \<in> set (chunk xs cur)
   \<Longrightarrow> length c \<le> 1 \<or> size_of c \<le> bound"
proof (induction xs arbitrary: cur)
  case (Cons x xs)
  show ?case
  proof (cases "cur \<noteq> [] \<and> size_of (cur @ [x]) > bound")
    case True
    then show ?thesis using Cons.prems Cons.IH [of "[x]"] by (auto simp: chunk_Cons)
  next
    case False
    then have "length (cur @ [x]) \<le> 1 \<or> size_of (cur @ [x]) \<le> bound" by auto
    then show ?thesis using False Cons.prems Cons.IH [of "cur @ [x]"] by (auto simp: chunk_Cons)
  qed
qed (simp add: chunk_Nil)

text \<open>The loop is greedy: it closes a chunk only when the next item would not fit.\<close>

lemma chunk_greedy:
  "chunk xs cur = as @ c # d # bs \<Longrightarrow> cur \<noteq> [] \<or> xs \<noteq> [] \<Longrightarrow> size_of (c @ [hd d]) > bound"
proof (induction xs arbitrary: cur as)
  case (Cons x xs)
  have hd: "hd (hd (chunk xs [x])) = x" for xs :: "'a list" and x
  proof -
    have "c @ concat ds = [x] @ xs \<Longrightarrow> c \<noteq> [] \<Longrightarrow> hd c = x" for c ds
      by (cases c) auto
    then show ?thesis
      using concat_chunk [of xs "[x]"] chunk_parts_nonempty [of "[x]" xs] chunk_nonempty_list [of xs "[x]"]
      by (cases "chunk xs [x]") auto
  qed
  show ?case
  proof (cases "cur \<noteq> [] \<and> size_of (cur @ [x]) > bound")
    case True
    then have eq: "cur # chunk xs [x] = as @ c # d # bs" using Cons.prems by (simp add: chunk_Cons)
    show ?thesis
    proof (cases as)
      case Nil
      then show ?thesis using eq True hd [of xs x] by auto
    next
      case (Cons a as')
      then show ?thesis using eq Cons.IH [of "[x]" as'] by simp
    qed
  next
    case False
    then have "chunk xs (cur @ [x]) = as @ c # d # bs"
      using Cons.prems(1) by (simp only: chunk_Cons if_False)
    then show ?thesis using Cons.IH [of "cur @ [x]" as] by simp
  qed
qed (simp add: chunk_Nil)

lemma chunks_spec:
  assumes "xs \<noteq> []"
  shows "concat (chunk xs []) = xs" and "chunk xs [] \<noteq> []"
    and "\<forall>c \<in> set (chunk xs []). c \<noteq> [] \<and> (length c \<le> 1 \<or> size_of c \<le> bound)"
  using assms concat_chunk [of xs "[]"] chunk_nonempty_list [of xs "[]"]
    chunk_parts_nonempty [of "[]" xs] chunk_fits [of "[]" _ xs] by auto

end

subsection \<open>emitConversations\<close>

definition conversations_event :: "go_string \<Rightarrow> conversation list \<Rightarrow> bool \<Rightarrow> u64 \<Rightarrow> event" where
  "conversations_event account convs full generation =
     (mk_event ''conversations'')\<lparr>ev_Account := account, ev_Conversations := Some convs,
        ev_Full := full, ev_Generation := generation\<rparr>"

fun chunk_conversations ::
  "go_string \<Rightarrow> conversation list \<Rightarrow> conversation list \<Rightarrow> conversation list list" where
  "chunk_conversations account [] cur = [cur]"
| "chunk_conversations account (thread # threads) cur =
     (if cur \<noteq> [] \<and> eventBytes (conversations_event account (cur @ [thread]) True 0) > maxEventBytes
      then cur # chunk_conversations account threads [thread]
      else chunk_conversations account threads (cur @ [thread]))"

interpretation conv_chunks: size_chunker "chunk_conversations account"
    "\<lambda>cur. eventBytes (conversations_event account cur True 0)" maxEventBytes
  for account
  by unfold_locales simp_all

definition conversation_events ::
  "go_string \<Rightarrow> conversation list \<Rightarrow> u64 \<Rightarrow> bool \<Rightarrow> event list" where
  "conversation_events account threads generation authoritative =
     (if threads = [] then [conversations_event account [] authoritative 0]
      else
        let chunks = chunk_conversations account threads []; n = length chunks in
        map (\<lambda>(i, chunk). conversations_event account chunk (authoritative \<and> i = n - 1)
                            (if authoritative \<and> n > 1 then generation else 0))
            (enumerate 0 chunks))"

subsection \<open>emitMessages\<close>

definition messages_event ::
  "go_string \<Rightarrow> go_string \<Rightarrow> message list \<Rightarrow> bool \<Rightarrow> event" where
  "messages_event account convID msgs full =
     (mk_event ''messages'')\<lparr>ev_Account := account, ev_Conversation := convID,
        ev_Messages := Some msgs, ev_Full := full\<rparr>"

fun chunk_messages ::
  "go_string \<Rightarrow> go_string \<Rightarrow> bool \<Rightarrow> message list \<Rightarrow> message list \<Rightarrow> message list list" where
  "chunk_messages account convID full [] cur = [cur]"
| "chunk_messages account convID full (msg # msgs) cur =
     (if cur \<noteq> [] \<and> eventBytes (messages_event account convID (cur @ [msg]) full) > maxEventBytes
      then cur # chunk_messages account convID full msgs [msg]
      else chunk_messages account convID full msgs (cur @ [msg]))"

interpretation msg_chunks: size_chunker "chunk_messages account convID full"
    "\<lambda>cur. eventBytes (messages_event account convID cur full)" maxEventBytes
  for account convID full
  by unfold_locales simp_all

text \<open>\<open>generation\<close> is the number minted for a full window of several chunks, 0 otherwise.\<close>

definition message_events ::
  "go_string \<Rightarrow> go_string \<Rightarrow> message list \<Rightarrow> bool \<Rightarrow> go_string \<Rightarrow> u64 \<Rightarrow> u64 \<Rightarrow> event list" where
  "message_events account convID msgs full cursorNext fetchID generation =
     (if msgs = []
      then [(messages_event account convID [] full)\<lparr>ev_PageComplete := True, ev_FetchID := fetchID\<rparr>]
      else
        let chunks = chunk_messages account convID full msgs []; n = length chunks in
        map (\<lambda>(i, chunk).
               let evt = (messages_event account convID chunk (full \<and> i = n - 1))
                           \<lparr>ev_Generation := generation, ev_FetchID := fetchID\<rparr> in
               if i = n - 1 then evt\<lparr>ev_CursorNext := cursorNext, ev_PageComplete := True\<rparr> else evt)
            (enumerate 0 chunks))"

subsection \<open>Cursors\<close>

definition parseCursor :: "go_string \<Rightarrow> go_string + go_string \<times> 64 word" where
  "parseCursor cursor =
     (let (id, raw, ok) = go_cut cursor (CHR '':'') in
      if \<not> ok \<or> id = [] then Inl ''foreign cursor''
      else case parse_int64 raw of
             None \<Rightarrow> Inl ''foreign cursor''
           | Some ts \<Rightarrow> Inr (id, word_of_int ts))"

definition mintCursor :: "go_string \<Rightarrow> 64 word \<Rightarrow> go_string" where
  "mintCursor mid ts = mid @ CHR '':'' # format_int (sint ts)"

subsection \<open>What the daemon receives\<close>

lemma last_index: "i < n \<Longrightarrow> (i = n - Suc 0) = (Suc i = n)"
  by auto

lemma conversation_events_sizes:
  "eventBytes (conversations_event account convs full generation)
     \<le> eventBytes (conversations_event account convs True 0) + 35"
proof -
  have g: "length (json_string ''generation'') = 12"
    by (simp add: json_string_def json_escape.simps escape_ascii_def)
  show ?thesis
    using length_format_u64 [of generation]
    by (simp add: eventBytes_def length_marshal_event event_members_def conversations_event_def
        mk_event_def opt_u64_def member_size_def g)
qed

lemma message_events_sizes:
  "eventBytes ((messages_event account convID msgs full')
       \<lparr>ev_Generation := generation, ev_FetchID := fetchID, ev_PageComplete := complete,
        ev_CursorNext := cursor\<rparr>)
     \<le> eventBytes (messages_event account convID msgs full) + 68
       + (if cursor = [] then 0 else 15 + length (json_string cursor))"
proof -
  have g: "length (json_string ''generation'') = 12" "length (json_string ''fetch_id'') = 10"
    "length (json_string ''cursor_next'') = 13"
    by (simp_all add: json_string_def json_escape.simps escape_ascii_def)
  show ?thesis
    using length_format_u64 [of generation] length_format_u64 [of fetchID]
    by (simp add: eventBytes_def length_marshal_event event_members_def messages_event_def
        mk_event_def opt_u64_def opt_str_def member_size_def g)
qed

text \<open>The events of one multi-chunk thread list, seen by their positions.\<close>

lemma conversation_events_nth:
  assumes "threads \<noteq> []" and "i < length (conversation_events account threads generation auth)"
  shows "conversation_events account threads generation auth ! i =
    conversations_event account (chunk_conversations account threads [] ! i)
      (auth \<and> Suc i = length (chunk_conversations account threads []))
      (if auth \<and> length (chunk_conversations account threads []) > 1 then generation else 0)"
  using assms by (auto simp: conversation_events_def Let_def nth_enumerate_eq last_index)

lemma conversation_events_length:
  "threads \<noteq> [] \<Longrightarrow> length (conversation_events account threads generation auth)
     = length (chunk_conversations account threads [])"
  by (simp add: conversation_events_def Let_def)

lemma map_enumerate_snd: "map (\<lambda>(i, x). f x) (enumerate n xs) = map f xs"
  by (induction xs arbitrary: n) auto

text \<open>C7: The thread list of a sync reaches the daemon complete and in order, in events of which
  only the last of an authoritative sync is full; all events of a multi-event authoritative sync
  carry the sync's generation and all others none; no event is empty unless the list is; and an
  event with more than one thread stays under the 48 KiB bound plus 35 bytes of envelope, well
  under the daemon's 64 KiB line bound.\<close>

theorem conversation_events_sound:
  fixes account threads generation authoritative
  defines "evts \<equiv> conversation_events account threads generation authoritative"
  shows "concat (map (\<lambda>e. nonNilConversations (ev_Conversations e)) evts) = threads
    \<and> evts \<noteq> []
    \<and> (\<forall>i < length evts. ev_Full (evts ! i) = (authoritative \<and> Suc i = length evts)
         \<and> ev_Generation (evts ! i) = (if authoritative \<and> length evts > 1 then generation else 0))
    \<and> (threads \<noteq> [] \<longrightarrow> (\<forall>e \<in> set evts. nonNilConversations (ev_Conversations e) \<noteq> []))
    \<and> (\<forall>e \<in> set evts. length (nonNilConversations (ev_Conversations e)) > 1
         \<longrightarrow> eventBytes e \<le> maxEventBytes + 35)"
proof (cases "threads = []")
  case True
  then show ?thesis
    by (simp add: evts_def conversation_events_def conversations_event_def mk_event_def
        nonNilConversations_def)
next
  case False
  let ?cs = "chunk_conversations account threads []"
  note spec = conv_chunks.chunks_spec [OF False, of account]
  have len: "length evts = length ?cs"
    unfolding evts_def by (rule conversation_events_length [OF False])
  have at: "evts ! i = conversations_event account (?cs ! i) (authoritative \<and> Suc i = length ?cs)
      (if authoritative \<and> length ?cs > 1 then generation else 0)" if "i < length ?cs" for i
    using conversation_events_nth [OF False, of i account generation authoritative] that len
    unfolding evts_def by simp
  have convs: "map (\<lambda>e. nonNilConversations (ev_Conversations e)) evts = ?cs"
    by (rule nth_equalityI) (auto simp: len at conversations_event_def nonNilConversations_def)
  have each: "nonNilConversations (ev_Conversations e) \<in> set ?cs
      \<and> eventBytes e \<le> eventBytes (conversations_event account
            (nonNilConversations (ev_Conversations e)) True 0) + 35" if e: "e \<in> set evts" for e
  proof -
    obtain i where i: "i < length ?cs" "e = evts ! i"
      using e len by (metis in_set_conv_nth)
    then have "nonNilConversations (ev_Conversations e) = ?cs ! i"
      using at by (simp add: conversations_event_def nonNilConversations_def)
    moreover have "eventBytes e \<le> eventBytes (conversations_event account (?cs ! i) True 0) + 35"
      unfolding i(2) at [OF i(1)] by (rule conversation_events_sizes)
    ultimately show ?thesis using i(1) by (simp only: nth_mem)
  qed
  have small: "eventBytes e \<le> maxEventBytes + 35"
    if "e \<in> set evts" "length (nonNilConversations (ev_Conversations e)) > 1" for e
    using each [OF that(1)] that(2) spec(3) by fastforce
  show ?thesis
  proof (intro conjI)
    show "concat (map (\<lambda>e. nonNilConversations (ev_Conversations e)) evts) = threads"
      using spec(1) convs by simp
    show "evts \<noteq> []" using spec(2) len by auto
    show "\<forall>i < length evts. ev_Full (evts ! i) = (authoritative \<and> Suc i = length evts)
         \<and> ev_Generation (evts ! i) = (if authoritative \<and> length evts > 1 then generation else 0)"
      by (simp add: len at conversations_event_def mk_event_def)
  qed (use each spec(3) small in blast)+
qed

definition wThread :: conversation where
  "wThread = \<lparr>c_LocalID = ''t'', c_Kind = ''direct'', c_Transport = ''sms'', c_Title = [],
     c_Participants = [], c_LatestMessage = [], c_LastActivityAt = 0, c_UnreadCount = None,
     c_Cursor = [], c_Capabilities = []\<rparr>"

theorem conversation_events_sound_witness:
  "\<exists>e. conversation_events ''a'' [wThread] 7 True = [e] \<and> ev_Full e \<and> ev_Generation e = 0
     \<and> nonNilConversations (ev_Conversations e) = [wThread]"
proof -
  have "length (conversation_events ''a'' [wThread] 7 True) = 1"
    by (simp add: conversation_events_def)
  then obtain e where e: "conversation_events ''a'' [wThread] 7 True = [e]"
    by (auto simp: length_Suc_conv)
  show ?thesis
    using conversation_events_sound [of "''a''" "[wThread]" 7 True] unfolding e by auto
qed

lemma message_events_nth:
  assumes "msgs \<noteq> []"
    and "i < length (chunk_messages account convID full msgs [])"
  shows "message_events account convID msgs full cur fid gen ! i =
    (messages_event account convID (chunk_messages account convID full msgs [] ! i)
      (full \<and> Suc i = length (chunk_messages account convID full msgs [])))
      \<lparr>ev_Generation := gen, ev_FetchID := fid,
       ev_PageComplete := (Suc i = length (chunk_messages account convID full msgs [])),
       ev_CursorNext := (if Suc i = length (chunk_messages account convID full msgs [])
                         then cur else [])\<rparr>"
  using assms
  by (auto simp: message_events_def Let_def nth_enumerate_eq last_index messages_event_def mk_event_def)

lemma message_events_length:
  "msgs \<noteq> [] \<Longrightarrow> length (message_events account convID msgs full cur fid gen)
     = length (chunk_messages account convID full msgs [])"
  by (simp add: message_events_def Let_def)

text \<open>C8: A message window reaches the daemon complete and in order; only the last event of a
  full window is full, exactly the last event completes the page and only it carries the cursor,
  every event echoes the fetch id, and an event with more than one message stays within the
  48 KiB bound plus 68 bytes of envelope and the encoded cursor.\<close>

theorem message_events_sound:
  fixes account convID msgs full cur fid gen
  defines "evts \<equiv> message_events account convID msgs full cur fid gen"
  shows "concat (map (\<lambda>e. nonNilMessages (ev_Messages e)) evts) = msgs
    \<and> evts \<noteq> []
    \<and> (\<forall>i < length evts. ev_Full (evts ! i) = (full \<and> Suc i = length evts)
         \<and> ev_PageComplete (evts ! i) = (Suc i = length evts)
         \<and> ev_FetchID (evts ! i) = fid
         \<and> (Suc i < length evts \<or> msgs = [] \<longrightarrow> ev_CursorNext (evts ! i) = [])
         \<and> (Suc i = length evts \<and> msgs \<noteq> [] \<longrightarrow> ev_CursorNext (evts ! i) = cur))
    \<and> (\<forall>e \<in> set evts. length (nonNilMessages (ev_Messages e)) > 1
         \<longrightarrow> eventBytes e \<le> maxEventBytes + 68
               + (if ev_CursorNext e = [] then 0 else 15 + length (json_string (ev_CursorNext e))))"
proof (cases "msgs = []")
  case True
  then show ?thesis
    by (simp add: evts_def message_events_def messages_event_def mk_event_def nonNilMessages_def)
next
  case False
  let ?cs = "chunk_messages account convID full msgs []"
  note spec = msg_chunks.chunks_spec [OF False, of account convID full]
  have len: "length evts = length ?cs"
    unfolding evts_def by (rule message_events_length [OF False])
  have at: "evts ! i = (messages_event account convID (?cs ! i) (full \<and> Suc i = length ?cs))
      \<lparr>ev_Generation := gen, ev_FetchID := fid, ev_PageComplete := (Suc i = length ?cs),
       ev_CursorNext := (if Suc i = length ?cs then cur else [])\<rparr>" if "i < length ?cs" for i
    unfolding evts_def by (rule message_events_nth [OF False that])
  have msgs: "map (\<lambda>e. nonNilMessages (ev_Messages e)) evts = ?cs"
    by (rule nth_equalityI) (auto simp: len at messages_event_def nonNilMessages_def)
  have each: "nonNilMessages (ev_Messages e) \<in> set ?cs
      \<and> eventBytes e \<le> eventBytes (messages_event account convID
            (nonNilMessages (ev_Messages e)) full) + 68
          + (if ev_CursorNext e = [] then 0 else 15 + length (json_string (ev_CursorNext e)))"
    if e: "e \<in> set evts" for e
  proof -
    obtain i where i: "i < length ?cs" "e = evts ! i" using e len by (metis in_set_conv_nth)
    then have "nonNilMessages (ev_Messages e) = ?cs ! i"
      using at by (simp add: messages_event_def nonNilMessages_def)
    moreover have "ev_CursorNext e = (if Suc i = length ?cs then cur else [])"
      using i at by simp
    moreover have "eventBytes e \<le> eventBytes (messages_event account convID (?cs ! i) full) + 68
        + (if (if Suc i = length ?cs then cur else []) = [] then 0
           else 15 + length (json_string (if Suc i = length ?cs then cur else [])))"
      unfolding i(2) at [OF i(1)] by (rule message_events_sizes)
    ultimately show ?thesis using i(1) by (simp only: nth_mem)
  qed
  have small: "eventBytes e \<le> maxEventBytes + 68
      + (if ev_CursorNext e = [] then 0 else 15 + length (json_string (ev_CursorNext e)))"
    if "e \<in> set evts" "length (nonNilMessages (ev_Messages e)) > 1" for e
    using each [OF that(1)] that(2) spec(3) by fastforce
  show ?thesis
  proof (intro conjI)
    show "concat (map (\<lambda>e. nonNilMessages (ev_Messages e)) evts) = msgs"
      using spec(1) msgs by simp
    show "evts \<noteq> []" using spec(2) len by auto
    show "\<forall>i < length evts. ev_Full (evts ! i) = (full \<and> Suc i = length evts)
         \<and> ev_PageComplete (evts ! i) = (Suc i = length evts)
         \<and> ev_FetchID (evts ! i) = fid
         \<and> (Suc i < length evts \<or> msgs = [] \<longrightarrow> ev_CursorNext (evts ! i) = [])
         \<and> (Suc i = length evts \<and> msgs \<noteq> [] \<longrightarrow> ev_CursorNext (evts ! i) = cur)"
      using False by (simp add: len at messages_event_def mk_event_def)
  qed (use small in blast)
qed

definition wMessage :: "go_string \<Rightarrow> message" where
  "wMessage t = \<lparr>m_LocalID = ''m'', m_Sender = ''p'', m_Transport = [], m_SentAt = None, m_Text = t,
     m_Attachments = [], m_ReplyTo = [], m_Reactions = [], m_Deleted = False\<rparr>"

theorem message_events_sound_witness:
  "\<exists>e. message_events ''a'' ''c'' [wMessage ''hi''] True ''m:1'' 41 0 = [e] \<and> ev_Full e
     \<and> ev_PageComplete e \<and> ev_CursorNext e = ''m:1'' \<and> ev_FetchID e = 41"
proof -
  have "length (message_events ''a'' ''c'' [wMessage ''hi''] True ''m:1'' 41 0) = 1"
    by (simp add: message_events_def)
  then obtain e where e: "message_events ''a'' ''c'' [wMessage ''hi''] True ''m:1'' 41 0 = [e]"
    by (auto simp: length_Suc_conv)
  show ?thesis
    using message_events_sound [of "''a''" "''c''" "[wMessage ''hi'']" True "''m:1''" 41 0]
    unfolding e by auto
qed

subsection \<open>A single item is never split\<close>

lemma enc_member_le: "(k, j) \<in> set ms \<Longrightarrow> length (enc_json j) \<le> length (enc_json (JObj ms))"
proof -
  assume "(k, j) \<in> set ms"
  then have "member_size (k, j) \<le> sum_list (map member_size ms)"
    by (intro member_le_sum_list) auto
  then show ?thesis
    unfolding length_enc_obj by (simp add: member_size_def)
qed

lemma enc_elem_le: "j \<in> set xs \<Longrightarrow> length (enc_json j) \<le> length (enc_json (JArr xs))"
proof -
  assume "j \<in> set xs"
  then have "(length \<circ> enc_json) j \<le> sum_list (map (length \<circ> enc_json) xs)"
    by (intro member_le_sum_list) auto
  then show ?thesis unfolding length_enc_arr by simp
qed

lemma marshal_member_le: "(k, j) \<in> set (event_members e) \<Longrightarrow> length (enc_json j) \<le> eventBytes e"
  unfolding eventBytes_def marshal_event_def by (rule enc_member_le) simp

lemma message_text_le:
  assumes "list_all (\<lambda>c. byte c < 0x80) (m_Text m)" and "m_Text m \<noteq> []"
  shows "length (m_Text m) \<le> length (enc_json (json_message m))"
proof -
  have "length (enc_json (JStr (m_Text m))) \<le> length (enc_json (json_message m))"
    unfolding json_message_def using assms(2)
    by (intro enc_member_le [where k = "''text''"]) (simp add: opt_str_def)
  with length_json_escape_ascii [OF assms(1)] show ?thesis by (simp add: json_string_def)
qed

text \<open>The size bound is not a bound on single items: a message whose text is 70000 letters is
  emitted whole, in one event above the daemon's 64 KiB line bound, whatever the account, the
  conversation and the flags of the window.\<close>

lemma oversized_message_emitted:
  "\<exists>m. length (m_Text m) = 70000 \<and>
     (\<forall>account convID full cur fid gen.
        \<exists>e. message_events account convID [m] full cur fid gen = [e]
          \<and> nonNilMessages (ev_Messages e) = [m] \<and> daemonLineBound < eventBytes e)"
proof (intro exI [of _ "wMessage (replicate 70000 (CHR ''x''))"] conjI allI)
  let ?m = "wMessage (replicate 70000 (CHR ''x''))"
  show "length (m_Text ?m) = 70000" by (simp add: wMessage_def)
  fix account convID full cur fid gen
  let ?e = "hd (message_events account convID [?m] full cur fid gen)"
  have e: "message_events account convID [?m] full cur fid gen = [?e]"
    by (simp add: message_events_def)
  have m: "nonNilMessages (ev_Messages ?e) = [?m]"
    and ty: "ev_Type ?e = ''messages''"
    by (simp_all add: message_events_def messages_event_def mk_event_def nonNilMessages_def)
  have "70000 \<le> length (enc_json (json_message ?m))"
    using message_text_le [of ?m] by (simp add: wMessage_def list_all_iff)
  also have "\<dots> \<le> length (enc_json (JArr (map json_message [?m])))"
    by (rule enc_elem_le) simp
  also have "\<dots> \<le> eventBytes ?e"
    by (rule marshal_member_le [where k = "''messages''"]) (simp add: event_members_def ty m)
  finally have "daemonLineBound < eventBytes ?e" by (simp add: daemonLineBound_def)
  with e m show "\<exists>e. message_events account convID [?m] full cur fid gen = [e]
      \<and> nonNilMessages (ev_Messages e) = [?m] \<and> daemonLineBound < eventBytes e" by blast
qed

subsection \<open>Cursor round trip\<close>

text \<open>A minted cursor parses back to its message id and timestamp exactly when the id is not
  empty and holds no colon, for every 64-bit timestamp.\<close>

lemma cursor_roundtrip:
  "parseCursor (mintCursor mid ts) = Inr (mid, ts) \<longleftrightarrow> mid \<noteq> [] \<and> CHR '':'' \<notin> set mid"
proof
  assume "mid \<noteq> [] \<and> CHR '':'' \<notin> set mid"
  moreover have "parse_int64 (format_int (sint ts)) = Some (sint ts)"
    using sint_ge [of ts] sint_lt [of ts] by (intro parse_format_int) simp_all
  ultimately show "parseCursor (mintCursor mid ts) = Inr (mid, ts)"
    by (simp add: parseCursor_def mintCursor_def go_cut_append)
next
  assume p: "parseCursor (mintCursor mid ts) = Inr (mid, ts)"
  obtain a b ok where cut: "go_cut (mintCursor mid ts) (CHR '':'') = (a, b, ok)"
    using prod_cases3 by blast
  with p have "ok" "a = mid" "a \<noteq> []"
    by (auto simp: parseCursor_def split: if_splits option.splits)
  with cut show "mid \<noteq> [] \<and> CHR '':'' \<notin> set mid"
    using go_cut_True by fastforce
qed

end
