(* ===== verification/Store.thy ===== *)
theory Store
  imports Contract "HOL-Library.AList"
begin

text \<open>
  \<open>adapter/store.go\<close>: session files and the staging directory.

  A directory is an association list from base names to files; the store works in one directory
  and its subdirectory \<open>staged\<close>, so a path under it is its base name. A file carries its bytes,
  permission bits, modification time (in nanoseconds), whether it is a regular file, and whether
  its contents have reached the disk (\<open>f_synced\<close>, set by \<open>fsync\<close>). Every system call may fail;
  which ones do is a parameter of type \<open>faults\<close>. \<open>WriteAuth\<close> returns the history of directory
  states, one per completed system call, so that a crash is a stop at any of them.
\<close>

record dfile =
  f_bytes :: bytes
  f_mode :: nat
  f_mtime :: int
  f_regular :: bool
  f_synced :: bool

type_synonym dir = "(go_string \<times> dfile) list"

datatype syscall =
    SysMkdir | SysChmodDir | SysCreateTemp | SysWrite | SysChmod | SysSync | SysClose
  | SysSyncDirBefore | SysRename | SysSyncDirAfter | SysRemove | SysRead | SysReadDir | SysInfo

type_synonym faults = "syscall \<Rightarrow> go_string \<Rightarrow> bool"

definition no_faults :: faults where
  "no_faults c n = False"

datatype store_err = InvalidAccount | OSError syscall | BadJSON

definition mode_0600 :: nat where
  "mode_0600 = 384"

definition session_suffix :: go_string where
  "session_suffix = ''.session.json''"

definition accountFile :: "go_string \<Rightarrow> go_string option" where
  "accountFile account =
     (if account = [] \<or> length account > 128 \<or> contains_any account [CHR ''/'', CHR 0x5C, CHR ''.'']
         \<or> contains_func account (\<lambda>r. r < 0x20)
      then None else Some (account @ session_suffix))"

subsection \<open>WriteAuth\<close>

type_synonym history = "dir list"

text \<open>A system call that changes the directory appends the new state to the history.\<close>

definition step_dir :: "(dir \<Rightarrow> dir) \<Rightarrow> history \<Rightarrow> history" where
  "step_dir f h = h @ [f (last h)]"

definition rename_file :: "go_string \<Rightarrow> go_string \<Rightarrow> dir \<Rightarrow> dir" where
  "rename_file old new d =
     (case map_of d old of
        None \<Rightarrow> d
      | Some f \<Rightarrow> AList.update new f (AList.delete old d))"

definition change_file :: "go_string \<Rightarrow> (dfile \<Rightarrow> dfile) \<Rightarrow> dir \<Rightarrow> dir" where
  "change_file name f d = (case map_of d name of None \<Rightarrow> d | Some x \<Rightarrow> AList.update name (f x) d)"

definition new_temp :: "int \<Rightarrow> dfile" where
  "new_temp now = \<lparr>f_bytes = [], f_mode = mode_0600, f_mtime = now, f_regular = True, f_synced = False\<rparr>"


text \<open>The deferred \<open>os.Remove(tmpName)\<close>.\<close>

definition remove_temp :: "faults \<Rightarrow> go_string \<Rightarrow> history \<Rightarrow> history" where
  "remove_temp fl tmp h = (if fl SysRemove tmp then h else step_dir (AList.delete tmp) h)"

definition ensureDir :: "faults \<Rightarrow> store_err option" where
  "ensureDir fl =
     (if fl SysMkdir [] then Some (OSError SysMkdir)
      else if fl SysChmodDir [] then Some (OSError SysChmodDir) else None)"

text \<open>\<open>os.CreateTemp(dir, ".session-*.tmp")\<close> puts a random string for the star.\<close>

definition temp_file :: "go_string \<Rightarrow> go_string" where
  "temp_file rnd = ''.session-'' @ rnd @ ''.tmp''"

text \<open>\<open>rnd\<close> is that random string; \<open>partial\<close> is how much of a failed write reaches the file.\<close>

definition WriteAuth ::
  "faults \<Rightarrow> int \<Rightarrow> nat \<Rightarrow> go_string \<Rightarrow> go_string \<Rightarrow> bytes \<Rightarrow> dir \<Rightarrow> store_err option \<times> history" where
  "WriteAuth fl now partial rnd account raw d =
     (let tmp = temp_file rnd in
      case accountFile account of
        None \<Rightarrow> (Some InvalidAccount, [d])
      | Some path \<Rightarrow>
          (case ensureDir fl of
             Some e \<Rightarrow> (Some e, [d])
           | None \<Rightarrow>
               if fl SysCreateTemp tmp then (Some (OSError SysCreateTemp), [d])
               else
                 let h1 = step_dir (AList.update tmp (new_temp now)) [d];
                     fail = (\<lambda>c h. (Some (OSError c), remove_temp fl tmp h)) in
                 if fl SysWrite tmp
                 then fail SysWrite
                   (step_dir (change_file tmp (\<lambda>f. f\<lparr>f_bytes := take partial raw\<rparr>)) h1)
                 else
                   let h2 = step_dir (change_file tmp (\<lambda>f. f\<lparr>f_bytes := raw\<rparr>)) h1 in
                   if fl SysChmod tmp then fail SysChmod h2
                   else
                     let h3 = step_dir (change_file tmp (\<lambda>f. f\<lparr>f_mode := mode_0600\<rparr>)) h2 in
                     if fl SysSync tmp then fail SysSync h3
                     else
                       let h4 = step_dir (change_file tmp (\<lambda>f. f\<lparr>f_synced := True\<rparr>)) h3 in
                       if fl SysClose tmp then fail SysClose h4
                       else if fl SysSyncDirBefore tmp then fail SysSyncDirBefore h4
                       else if fl SysRename tmp then fail SysRename h4
                       else
                         let h5 = step_dir (rename_file tmp path) h4 in
                         if fl SysSyncDirAfter tmp then fail SysSyncDirAfter h5
                         else (None, remove_temp fl tmp h5)))"

subsection \<open>The other session operations\<close>

definition SaveAuth ::
  "('auth \<Rightarrow> bytes option) \<Rightarrow> faults \<Rightarrow> int \<Rightarrow> nat \<Rightarrow> go_string \<Rightarrow> go_string \<Rightarrow> 'auth \<Rightarrow> dir
     \<Rightarrow> store_err option \<times> history" where
  "SaveAuth marshal fl now partial rnd account auth d =
     (case marshal auth of
        None \<Rightarrow> (Some BadJSON, [d])
      | Some raw \<Rightarrow> WriteAuth fl now partial rnd account raw d)"

text \<open>\<open>LoadAuth\<close>: \<open>Inr None\<close> is Go's \<open>nil, nil\<close> for a missing file; \<open>unmarshal\<close> is the JSON
  decoding of the library's auth record. The code opens whatever is at the path: \<open>f_bytes\<close> is what a
  read of it yields, and an entry that cannot be read (a directory, say) is the fault \<open>SysRead\<close>.\<close>

definition LoadAuth ::
  "(bytes \<Rightarrow> 'auth option) \<Rightarrow> faults \<Rightarrow> go_string \<Rightarrow> dir \<Rightarrow> store_err + 'auth option" where
  "LoadAuth unmarshal fl account d =
     (case accountFile account of
        None \<Rightarrow> Inl InvalidAccount
      | Some path \<Rightarrow>
          (case map_of d path of
             None \<Rightarrow> Inr None
           | Some f \<Rightarrow>
               if fl SysRead path then Inl (OSError SysRead)
               else (case unmarshal (f_bytes f) of
                       None \<Rightarrow> Inl BadJSON | Some a \<Rightarrow> Inr (Some a))))"

definition DeleteAuth :: "faults \<Rightarrow> go_string \<Rightarrow> dir \<Rightarrow> store_err option \<times> dir" where
  "DeleteAuth fl account d =
     (case accountFile account of
        None \<Rightarrow> (Some InvalidAccount, d)
      | Some path \<Rightarrow>
          if map_of d path \<noteq> None \<and> fl SysRemove path then (Some (OSError SysRemove), d)
          else
            let d' = AList.delete path d in
            if fl SysSyncDirAfter path then (Some (OSError SysSyncDirAfter), d') else (None, d'))"

text \<open>\<open>os.ReadDir\<close> lists a directory in name order.\<close>

definition read_dir :: "dir \<Rightarrow> go_string list" where
  "read_dir d = sorted_list_of_set (fst ` set d)"

definition Accounts :: "faults \<Rightarrow> dir \<Rightarrow> go_string list" where
  "Accounts fl d =
     (if fl SysReadDir [] then []
      else map (\<lambda>n. trim_suffix n session_suffix)
             (filter (\<lambda>n. has_suffix n session_suffix) (read_dir d)))"

subsection \<open>Histories and names\<close>

lemma step_dir_simps [simp]:
  "last (step_dir f h) = f (last h)"
  "set (step_dir f h) = insert (f (last h)) (set h)"
  by (simp_all add: step_dir_def)

lemma map_of_update [simp]: "map_of (AList.update k v d) = (map_of d)(k \<mapsto> v)"
  by (rule update_conv')

lemma map_of_delete [simp]: "map_of (AList.delete k d) = (map_of d)(k := None)"
  by (rule delete_conv')

lemma map_of_rename [simp]:
  "map_of (rename_file old new d) =
     (case map_of d old of None \<Rightarrow> map_of d | Some f \<Rightarrow> (map_of d)(old := None, new \<mapsto> f))"
  by (simp add: rename_file_def split: option.split)

lemma map_of_change [simp]:
  "map_of (change_file name f d) =
     (case map_of d name of None \<Rightarrow> map_of d | Some x \<Rightarrow> (map_of d)(name \<mapsto> f x))"
  by (simp add: change_file_def split: option.split)

lemma set_read_dir [simp]: "set (read_dir d) = dom (map_of d)"
  by (simp add: read_dir_def dom_map_of_conv_image_fst)

lemma accountFile_Some: "accountFile a = Some p \<Longrightarrow> p = a @ session_suffix"
  by (auto simp: accountFile_def split: if_splits)

lemma accountFile_inj: "accountFile a = Some p \<Longrightarrow> accountFile b = Some p \<Longrightarrow> a = b"
  by (auto dest!: accountFile_Some)

lemma temp_not_session: "temp_file rnd \<noteq> a @ session_suffix"
proof
  assume "temp_file rnd = a @ session_suffix"
  then have "last (temp_file rnd) = last (a @ session_suffix)" by simp
  then show False by (simp add: temp_file_def session_suffix_def)
qed

subsection \<open>Crash safety of WriteAuth\<close>

definition published :: "bytes \<Rightarrow> dfile option \<Rightarrow> bool" where
  "published raw x \<longleftrightarrow>
     (\<exists>f. x = Some f \<and> f_bytes f = raw \<and> f_mode f = mode_0600 \<and> f_regular f \<and> f_synced f)"

lemma WriteAuth_history:
  assumes "accountFile account = Some path"
    and "WriteAuth fl now partial rnd account raw d = (err, h)"
  shows "h \<noteq> []"
    and "d' \<in> set h \<Longrightarrow> map_of d' path = map_of d path \<or> published raw (map_of d' path)"
    and "d' \<in> set h \<Longrightarrow> n \<noteq> path \<Longrightarrow> n \<noteq> temp_file rnd \<Longrightarrow> map_of d' n = map_of d n"
    and "err = None \<Longrightarrow> published raw (map_of (last h) path)"
    and "err \<noteq> None \<Longrightarrow> err \<noteq> Some (OSError SysSyncDirAfter) \<Longrightarrow> map_of (last h) path = map_of d path"
    and "map_of d (temp_file rnd) = None \<Longrightarrow> \<not> fl SysRemove (temp_file rnd)
      \<Longrightarrow> map_of (last h) (temp_file rnd) = None"
proof -
  have "path \<noteq> temp_file rnd" using assms(1) temp_not_session by (metis accountFile_Some)
  then show "h \<noteq> []"
    and "d' \<in> set h \<Longrightarrow> map_of d' path = map_of d path \<or> published raw (map_of d' path)"
    and "d' \<in> set h \<Longrightarrow> n \<noteq> path \<Longrightarrow> n \<noteq> temp_file rnd \<Longrightarrow> map_of d' n = map_of d n"
    and "err = None \<Longrightarrow> published raw (map_of (last h) path)"
    and "err \<noteq> None \<Longrightarrow> err \<noteq> Some (OSError SysSyncDirAfter) \<Longrightarrow> map_of (last h) path = map_of d path"
    and "map_of d (temp_file rnd) = None \<Longrightarrow> \<not> fl SysRemove (temp_file rnd)
      \<Longrightarrow> map_of (last h) (temp_file rnd) = None"
    using assms
    by (auto simp: WriteAuth_def Let_def remove_temp_def new_temp_def published_def ensureDir_def
        step_dir_def split: if_splits option.splits)
qed

lemma WriteAuth_invalid:
  "accountFile account = None \<Longrightarrow> WriteAuth fl now partial rnd account raw d = (Some InvalidAccount, [d])"
  by (simp add: WriteAuth_def)

subsection \<open>The store as a map\<close>

text \<open>What the session layer relies on in a store of accounts: a successful save is what a later
  load returns, accounts do not disturb one another, names outside the gate reach nothing, and the
  listing is exactly the accounts that load.\<close>

datatype ('t, 'a) store_op = Save 't 'a bytes | Delete 'a

fun spec_op :: "('a \<Rightarrow> bool) \<Rightarrow> ('t, 'a) store_op \<Rightarrow> ('a \<rightharpoonup> bytes) \<Rightarrow> ('a \<rightharpoonup> bytes)" where
  "spec_op valid (Save t a x) m = (if valid a then m(a \<mapsto> x) else m)"
| "spec_op valid (Delete a) m = (if valid a then m(a := None) else m)"

locale session_store =
  fixes save :: "'t \<Rightarrow> 'a \<Rightarrow> bytes \<Rightarrow> 'd \<Rightarrow> 'd"
    and delete :: "'a \<Rightarrow> 'd \<Rightarrow> 'd"
    and load :: "'a \<Rightarrow> 'd \<Rightarrow> bytes option"
    and accounts :: "'d \<Rightarrow> 'a list"
    and valid :: "'a \<Rightarrow> bool"
  assumes load_save: "valid a \<Longrightarrow> valid b \<Longrightarrow> load b (save t a x d) = (if b = a then Some x else load b d)"
    and load_delete: "valid a \<Longrightarrow> valid b \<Longrightarrow> load b (delete a d) = (if b = a then None else load b d)"
    and invalid: "\<not> valid a \<Longrightarrow> save t a x d = d" "\<not> valid a \<Longrightarrow> delete a d = d"
    and listed: "valid a \<Longrightarrow> a \<in> set (accounts d) \<longleftrightarrow> load a d \<noteq> None"
begin

lemma run_refines:
  "valid b \<Longrightarrow>
     load b (fold (\<lambda>op d. case op of Save t a x \<Rightarrow> save t a x d | Delete a \<Rightarrow> delete a d) ops d)
     = fold (spec_op valid) ops (\<lambda>a. load a d) b"
proof -
  assume b: "valid b"
  have step: "fold (spec_op valid) ops m b = fold (spec_op valid) ops m' b"
    if "\<And>a. valid a \<Longrightarrow> m a = m' a" for ops m m'
    using that b
  proof (induction ops arbitrary: m m')
    case (Cons op ops)
    show ?case
      using Cons.prems by (cases op) (auto intro!: Cons.IH)
  qed simp
  show ?thesis
  proof (induction ops arbitrary: d)
    case (Cons op ops)
    show ?case
    proof (cases op)
      case (Save t a x)
      then show ?thesis using Cons.IH [of "save t a x d"] invalid(1) [of a t x d]
        by (cases "valid a") (auto intro!: step simp: load_save)
    next
      case (Delete a)
      then show ?thesis using Cons.IH [of "delete a d"] invalid(2) [of a d]
        by (cases "valid a") (auto intro!: step simp: load_delete)
    qed
  qed simp
qed

lemma run_listed:
  "valid b \<Longrightarrow>
     b \<in> set (accounts (fold (\<lambda>op d. case op of Save t a x \<Rightarrow> save t a x d | Delete a \<Rightarrow> delete a d) ops d))
     \<longleftrightarrow> fold (spec_op valid) ops (\<lambda>a. load a d) b \<noteq> None"
  by (simp add: listed run_refines)

end

text \<open>The store of the adapter, with no failing system call.\<close>

definition valid_name :: "go_string \<Rightarrow> bool" where
  "valid_name a \<longleftrightarrow> accountFile a \<noteq> None"

definition save_ok :: "int \<Rightarrow> go_string \<Rightarrow> go_string \<Rightarrow> bytes \<Rightarrow> dir \<Rightarrow> dir" where
  "save_ok now rnd a x d = last (snd (WriteAuth no_faults now 0 rnd a x d))"

definition delete_ok :: "go_string \<Rightarrow> dir \<Rightarrow> dir" where
  "delete_ok a d = snd (DeleteAuth no_faults a d)"

definition load_ok :: "go_string \<Rightarrow> dir \<Rightarrow> bytes option" where
  "load_ok a d = (case LoadAuth Some no_faults a d of Inr r \<Rightarrow> r | Inl _ \<Rightarrow> None)"

lemma load_ok_eq: "accountFile a = Some p \<Longrightarrow> load_ok a d = map_option f_bytes (map_of d p)"
  by (simp add: load_ok_def LoadAuth_def no_faults_def split: option.splits)

lemma load_save_ok:
  assumes "accountFile a = Some p" and "accountFile b = Some q"
  shows "load_ok b (save_ok now rnd a x d) = (if b = a then Some x else load_ok b d)"
proof -
  obtain err h where w: "WriteAuth no_faults now 0 rnd a x d = (err, h)" by fastforce
  have none: "err = None"
    using w assms(1) by (simp add: WriteAuth_def no_faults_def ensureDir_def Let_def)
  note hist = WriteAuth_history [OF assms(1) w]
  have last: "last h \<in> set h" using hist(1) by simp
  show ?thesis
  proof (cases "b = a")
    case True
    then show ?thesis using hist(4) [OF none] assms w
      by (auto simp: save_ok_def load_ok_eq published_def)
  next
    case False
    then have "q \<noteq> p" using assms accountFile_inj by metis
    moreover have "q \<noteq> temp_file rnd" using assms(2) temp_not_session by (metis accountFile_Some)
    ultimately show ?thesis using False hist(3) [OF last] w
      by (simp add: save_ok_def load_ok_eq [OF assms(2)])
  qed
qed

lemma listed_ok:
  assumes "accountFile a = Some p"
  shows "a \<in> set (Accounts no_faults d) \<longleftrightarrow> load_ok a d \<noteq> None"
proof -
  have p: "p = a @ session_suffix" using accountFile_Some assms by simp
  have "a \<in> set (Accounts no_faults d) \<longleftrightarrow> p \<in> dom (map_of d)"
    unfolding p by (force simp: Accounts_def no_faults_def has_suffix_def suffix_def image_iff)
  then show ?thesis by (auto simp: load_ok_eq [OF assms])
qed

interpretation store: session_store "case_prod save_ok" delete_ok load_ok "Accounts no_faults" valid_name
proof
  fix t :: "int \<times> go_string" and a b :: go_string and x d
  show "valid_name a \<Longrightarrow> valid_name b
      \<Longrightarrow> load_ok b (case_prod save_ok t a x d) = (if b = a then Some x else load_ok b d)"
    by (cases t) (auto simp: valid_name_def load_save_ok)
  show "valid_name a \<Longrightarrow> valid_name b
      \<Longrightarrow> load_ok b (delete_ok a d) = (if b = a then None else load_ok b d)"
    using accountFile_inj
    by (auto simp: valid_name_def delete_ok_def DeleteAuth_def no_faults_def load_ok_eq Let_def)
  show "\<not> valid_name a \<Longrightarrow> case_prod save_ok t a x d = d" "\<not> valid_name a \<Longrightarrow> delete_ok a d = d"
    by (cases t; simp add: valid_name_def save_ok_def delete_ok_def WriteAuth_invalid DeleteAuth_def)+
  show "valid_name a \<Longrightarrow> a \<in> set (Accounts no_faults d) \<longleftrightarrow> load_ok a d \<noteq> None"
    by (auto simp: valid_name_def listed_ok)
qed

subsection \<open>Sweeping the staging directory\<close>

definition hour :: int where
  "hour = 3600 * 10 ^ 9"

definition stagedMaxAge :: int where
  "stagedMaxAge = 7 * 24 * hour"

definition stagedMaxBytes :: int where
  "stagedMaxBytes = 256 * 2 ^ 20"

definition sessionTmpMaxAge :: int where
  "sessionTmpMaxAge = hour"

definition sweepInterval :: int where
  "sweepInterval = hour"

record candidate =
  cd_path :: go_string
  cd_size :: int
  cd_modTime :: int

definition file_size :: "dfile \<Rightarrow> int" where
  "file_size f = int (length (f_bytes f))"

text \<open>\<open>entry.Info\<close>: no information when the entry is gone or the call fails.\<close>

definition entry_info :: "faults \<Rightarrow> dir \<Rightarrow> go_string \<Rightarrow> dfile option" where
  "entry_info fl d n = (if fl SysInfo n then None else map_of d n)"

text \<open>\<open>os.Remove\<close> of an existing entry: whether it succeeded, and the directory after.\<close>

definition os_remove :: "faults \<Rightarrow> go_string \<Rightarrow> dir \<Rightarrow> bool \<times> dir" where
  "os_remove fl n d = (if fl SysRemove n then (False, d) else (True, AList.delete n d))"

text \<open>The first loop: expired regular files go, the others become candidates.\<close>

fun sweep_expired ::
  "faults \<Rightarrow> int \<Rightarrow> go_string list \<Rightarrow> dir \<Rightarrow> nat \<Rightarrow> candidate list \<Rightarrow> int
     \<Rightarrow> dir \<times> nat \<times> candidate list \<times> int" where
  "sweep_expired fl cutoff [] d removed kept tot = (d, removed, kept, tot)"
| "sweep_expired fl cutoff (n # ns) d removed kept tot =
     (case entry_info fl d n of
        None \<Rightarrow> sweep_expired fl cutoff ns d removed kept tot
      | Some f \<Rightarrow>
          if \<not> f_regular f then sweep_expired fl cutoff ns d removed kept tot
          else if f_mtime f < cutoff then
            (let (ok, d') = os_remove fl n d
             in sweep_expired fl cutoff ns d' (if ok then Suc removed else removed) kept tot)
          else sweep_expired fl cutoff ns d removed
                 (kept @ [\<lparr>cd_path = n, cd_size = file_size f, cd_modTime = f_mtime f\<rparr>])
                 (tot + file_size f))"

text \<open>The second loop: oldest first, until the total is within the cap.\<close>

fun sweep_cap :: "faults \<Rightarrow> candidate list \<Rightarrow> dir \<Rightarrow> nat \<Rightarrow> int \<Rightarrow> dir \<times> nat \<times> int" where
  "sweep_cap fl [] d removed tot = (d, removed, tot)"
| "sweep_cap fl (c # cs) d removed tot =
     (if tot \<le> stagedMaxBytes then (d, removed, tot)
      else
        let (ok, d') = os_remove fl (cd_path c) d in
        if ok then sweep_cap fl cs d' (Suc removed) (tot - cd_size c)
        else sweep_cap fl cs d' removed tot)"

text \<open>The third loop: crash-left session temp files in the store directory.\<close>

fun sweep_temps :: "faults \<Rightarrow> int \<Rightarrow> go_string list \<Rightarrow> dir \<Rightarrow> nat \<Rightarrow> dir \<times> nat" where
  "sweep_temps fl tmpCutoff [] d removed = (d, removed)"
| "sweep_temps fl tmpCutoff (n # ns) d removed =
     (if \<not> has_prefix n ''.session-'' \<or> \<not> has_suffix n ''.tmp''
      then sweep_temps fl tmpCutoff ns d removed
      else (case entry_info fl d n of
              None \<Rightarrow> sweep_temps fl tmpCutoff ns d removed
            | Some f \<Rightarrow>
                if \<not> f_regular f \<or> \<not> f_mtime f < tmpCutoff
                then sweep_temps fl tmpCutoff ns d removed
                else let (ok, d') = os_remove fl n d
                     in sweep_temps fl tmpCutoff ns d' (if ok then Suc removed else removed)))"

text \<open>The whole sweep over the staging directory \<open>staged\<close> and the store directory \<open>d\<close>. \<open>sort.Slice\<close>
  is not stable, so the order of candidates of equal age is a parameter: \<open>sorter\<close>.\<close>

definition SweepStaged ::
  "(candidate list \<Rightarrow> candidate list) \<Rightarrow> faults \<Rightarrow> int \<Rightarrow> dir \<Rightarrow> dir
     \<Rightarrow> (store_err option \<times> nat) \<times> dir \<times> dir" where
  "SweepStaged sorter fl now staged d =
     (if fl SysMkdir ''staged'' then ((Some (OSError SysMkdir), 0), staged, d)
      else if fl SysReadDir ''staged'' then ((Some (OSError SysReadDir), 0), staged, d)
      else
        let (staged1, removed1, kept, tot) =
              sweep_expired fl (now - stagedMaxAge) (read_dir staged) staged 0 [] 0;
            (staged2, removed2, tot2) = sweep_cap fl (sorter kept) staged1 removed1 tot in
        if fl SysReadDir [] then ((None, removed2), staged2, d)
        else
          let (d', removed3) = sweep_temps fl (now - sessionTmpMaxAge) (read_dir d) d removed2
          in ((None, removed3), staged2, d'))"

definition sorts_candidates :: "(candidate list \<Rightarrow> candidate list) \<Rightarrow> bool" where
  "sorts_candidates sorter \<longleftrightarrow>
     (\<forall>cs. mset (sorter cs) = mset cs \<and> sorted (map cd_modTime (sorter cs)))"

record sweep_state =
  sw_lastSweep :: int
  sw_locked :: bool

definition maybeSweep ::
  "(candidate list \<Rightarrow> candidate list) \<Rightarrow> faults \<Rightarrow> int \<Rightarrow> sweep_state \<Rightarrow> dir \<Rightarrow> dir
     \<Rightarrow> sweep_state \<times> dir \<times> dir" where
  "maybeSweep sorter fl now st staged d =
     (if sw_locked st then (st, staged, d)
      else if now - sw_lastSweep st < sweepInterval then (st, staged, d)
      else (st\<lparr>sw_lastSweep := now\<rparr>, snd (SweepStaged sorter fl now staged d)))"

subsection \<open>What a sweep removes\<close>

lemma os_remove_result:
  "os_remove fl n d = (ok, d') \<Longrightarrow> map_of d' = (if ok then (map_of d)(n := None) else map_of d)"
  by (auto simp: os_remove_def split: if_splits)

definition expired :: "faults \<Rightarrow> int \<Rightarrow> dir \<Rightarrow> go_string \<Rightarrow> bool" where
  "expired fl cutoff d n \<longleftrightarrow>
     (case entry_info fl d n of Some f \<Rightarrow> f_regular f \<and> f_mtime f < cutoff | None \<Rightarrow> False)"

definition young :: "faults \<Rightarrow> int \<Rightarrow> dir \<Rightarrow> go_string \<Rightarrow> bool" where
  "young fl cutoff d n \<longleftrightarrow>
     (case entry_info fl d n of Some f \<Rightarrow> f_regular f \<and> \<not> f_mtime f < cutoff | None \<Rightarrow> False)"

definition cand :: "dir \<Rightarrow> go_string \<Rightarrow> candidate" where
  "cand d n = (case map_of d n of
     Some f \<Rightarrow> \<lparr>cd_path = n, cd_size = file_size f, cd_modTime = f_mtime f\<rparr>
   | None \<Rightarrow> \<lparr>cd_path = n, cd_size = 0, cd_modTime = 0\<rparr>)"

lemma class_cong:
  "map_of d' n = map_of d n \<Longrightarrow> expired fl cutoff d' n = expired fl cutoff d n"
  "map_of d' n = map_of d n \<Longrightarrow> young fl cutoff d' n = young fl cutoff d n"
  "map_of d' n = map_of d n \<Longrightarrow> cand d' n = cand d n"
  by (simp_all add: expired_def young_def cand_def entry_info_def)

lemma sweep_expired_Cons:
  "sweep_expired fl cutoff (n # ns) d removed kept tot =
     (if expired fl cutoff d n then
        (let (ok, d') = os_remove fl n d
         in sweep_expired fl cutoff ns d' (if ok then Suc removed else removed) kept tot)
      else if young fl cutoff d n then
        sweep_expired fl cutoff ns d removed (kept @ [cand d n]) (tot + cd_size (cand d n))
      else sweep_expired fl cutoff ns d removed kept tot)"
  by (auto simp: expired_def young_def cand_def entry_info_def split: option.splits)

declare sweep_expired.simps(2) [simp del]

lemma sweep_expired_effect:
  assumes "sweep_expired fl cutoff ns d removed kept tot = (d', removed', kept', tot')"
    and "distinct ns"
  shows "map_of d' = (\<lambda>n. if n \<in> set ns \<and> expired fl cutoff d n \<and> \<not> fl SysRemove n
                          then None else map_of d n)
    \<and> removed' = removed + length (filter (\<lambda>n. expired fl cutoff d n \<and> \<not> fl SysRemove n) ns)
    \<and> kept' = kept @ map (cand d) (filter (young fl cutoff d) ns)
    \<and> tot' = tot + sum_list (map (cd_size \<circ> cand d) (filter (young fl cutoff d) ns))"
  using assms
proof (induction ns arbitrary: d removed kept tot)
  case (Cons n ns)
  obtain ok d1 where rm: "os_remove fl n d = (ok, d1)" by fastforce
  have d1: "map_of d1 = (if ok then (map_of d)(n := None) else map_of d)"
    by (rule os_remove_result [OF rm])
  have ok: "ok \<longleftrightarrow> \<not> fl SysRemove n" using rm by (auto simp: os_remove_def split: if_splits)
  have cls: "m \<in> set ns \<Longrightarrow> expired fl cutoff d1 m = expired fl cutoff d m"
    "m \<in> set ns \<Longrightarrow> young fl cutoff d1 m = young fl cutoff d m"
    "m \<in> set ns \<Longrightarrow> cand d1 m = cand d m" for m
    using Cons.prems(2) d1 by (auto intro!: class_cong)
  have fl1: "filter (\<lambda>n. expired fl cutoff d1 n \<and> \<not> fl SysRemove n) ns
      = filter (\<lambda>n. expired fl cutoff d n \<and> \<not> fl SysRemove n) ns"
    "filter (young fl cutoff d1) ns = filter (young fl cutoff d) ns"
    by (rule filter_cong [OF refl], simp add: cls)+
  have m1: "map (cand d1) (filter (young fl cutoff d) ns) = map (cand d) (filter (young fl cutoff d) ns)"
    "map (cd_size \<circ> cand d1) (filter (young fl cutoff d) ns)
      = map (cd_size \<circ> cand d) (filter (young fl cutoff d) ns)"
    by (simp_all add: cls)
  have excl: "expired fl cutoff d n \<Longrightarrow> \<not> young fl cutoff d n"
    by (auto simp: expired_def young_def split: option.splits)
  consider "expired fl cutoff d n" | "\<not> expired fl cutoff d n" "young fl cutoff d n"
    | "\<not> expired fl cutoff d n" "\<not> young fl cutoff d n" by blast
  then show ?case
  proof cases
    case 1
    then have "sweep_expired fl cutoff ns d1 (if ok then Suc removed else removed) kept tot
        = (d', removed', kept', tot')"
      using Cons.prems(1) rm by (simp add: sweep_expired_Cons)
    from Cons.IH [OF this] Cons.prems(2) show ?thesis
      using 1 excl ok d1 by (auto simp: fl1 m1 [unfolded o_def] cls fun_eq_iff)
  next
    case 2
    then show ?thesis using Cons.prems Cons.IH [of d removed "kept @ [cand d n]" "tot + cd_size (cand d n)"]
      by (auto simp: sweep_expired_Cons fun_eq_iff)
  next
    case 3
    then show ?thesis using Cons.prems Cons.IH [of d removed kept tot]
      by (auto simp: sweep_expired_Cons fun_eq_iff)
  qed
qed simp

definition removable :: "faults \<Rightarrow> candidate list \<Rightarrow> candidate list" where
  "removable fl cs = filter (\<lambda>c. \<not> fl SysRemove (cd_path c)) cs"

lemma removable_simps [simp]:
  "removable fl [] = []"
  "removable fl (c # cs) = (if fl SysRemove (cd_path c) then removable fl cs else c # removable fl cs)"
  by (simp_all add: removable_def)

lemma sweep_cap_effect:
  assumes "sweep_cap fl cs d removed tot = (d', removed', tot')"
  shows "\<exists>a b. cs = a @ b
    \<and> map_of d' = (\<lambda>n. if n \<in> cd_path ` set (removable fl a) then None else map_of d n)
    \<and> removed' = removed + length (removable fl a)
    \<and> tot' = tot - sum_list (map cd_size (removable fl a))
    \<and> (b = [] \<or> tot' \<le> stagedMaxBytes)
    \<and> (a \<noteq> [] \<longrightarrow> stagedMaxBytes < tot - sum_list (map cd_size (removable fl (butlast a))))"
  using assms
proof (induction cs arbitrary: d removed tot)
  case Nil
  then show ?case by (intro exI [of _ "[]"]) (auto simp: fun_eq_iff)
next
  case (Cons c cs)
  show ?case
  proof (cases "tot \<le> stagedMaxBytes")
    case True
    with Cons.prems show ?thesis by (intro exI [of _ "[]"] exI [of _ "c # cs"]) (auto simp: fun_eq_iff)
  next
    case False
    obtain ok d1 where rm: "os_remove fl (cd_path c) d = (ok, d1)" by fastforce
    have d1: "map_of d1 = (if ok then (map_of d)(cd_path c := None) else map_of d)"
      by (rule os_remove_result [OF rm])
    have ok: "ok \<longleftrightarrow> \<not> fl SysRemove (cd_path c)" using rm by (auto simp: os_remove_def split: if_splits)
    have "sweep_cap fl cs d1 (if ok then Suc removed else removed) (if ok then tot - cd_size c else tot)
        = (d', removed', tot')"
      using Cons.prems rm False by (auto simp: Let_def split: if_splits)
    from Cons.IH [OF this] obtain a b where ab: "cs = a @ b"
      "map_of d' = (\<lambda>n. if n \<in> cd_path ` set (removable fl a) then None else map_of d1 n)"
      "removed' = (if ok then Suc removed else removed) + length (removable fl a)"
      "tot' = (if ok then tot - cd_size c else tot) - sum_list (map cd_size (removable fl a))"
      "b = [] \<or> tot' \<le> stagedMaxBytes"
      "a \<noteq> [] \<longrightarrow> stagedMaxBytes < (if ok then tot - cd_size c else tot)
          - sum_list (map cd_size (removable fl (butlast a)))"
      by blast
    show ?thesis
      using ab d1 ok False
      by (intro exI [of _ "c # a"] exI [of _ b]) (auto simp: fun_eq_iff)
  qed
qed

lemma sweep_temps_effect:
  "sweep_temps fl cutoff ns d removed = (d', removed') \<Longrightarrow>
     map_of d' n = map_of d n
     \<or> (map_of d' n = None \<and> has_prefix n ''.session-'' \<and> has_suffix n ''.tmp''
         \<and> (\<exists>f. map_of d n = Some f \<and> f_regular f \<and> f_mtime f < cutoff))"
proof (induction ns arbitrary: d removed)
  case (Cons m ns)
  show ?case
  proof (cases "has_prefix m ''.session-'' \<and> has_suffix m ''.tmp'' \<and> expired fl cutoff d m")
    case True
    obtain ok d1 where rm: "os_remove fl m d = (ok, d1)" by fastforce
    have "sweep_temps fl cutoff ns d1 (if ok then Suc removed else removed) = (d', removed')"
      using Cons.prems True rm by (auto simp: expired_def split: option.splits if_splits)
    from Cons.IH [OF this] os_remove_result [OF rm] True show ?thesis
      by (auto simp: expired_def entry_info_def split: option.splits if_splits)
  next
    case False
    then have "sweep_temps fl cutoff ns d removed = (d', removed')"
      using Cons.prems by (auto simp: expired_def split: option.splits if_splits)
    then show ?thesis by (rule Cons.IH)
  qed
qed simp

text \<open>The regular files of a directory and their total size.\<close>

definition is_regular :: "dir \<Rightarrow> go_string \<Rightarrow> bool" where
  "is_regular d n = (case map_of d n of Some f \<Rightarrow> f_regular f | None \<Rightarrow> False)"

definition regular_size :: "dir \<Rightarrow> int" where
  "regular_size d = sum_list (map (\<lambda>n. file_size (the (map_of d n))) (filter (is_regular d) (read_dir d)))"

lemma young_set:
  "(\<And>n. \<not> fl SysInfo n) \<Longrightarrow> n \<in> set (filter (young fl cutoff d) (read_dir d))
     \<longleftrightarrow> (\<exists>f. map_of d n = Some f \<and> f_regular f \<and> \<not> f_mtime f < cutoff)"
  by (auto simp: young_def entry_info_def split: option.splits)

text \<open>The outcome of the two staging loops when no call fails.\<close>

lemma sweep_staging_outcome:
  assumes sorter: "sorts_candidates sorter"
    and ok: "\<And>n. \<not> fl SysInfo n" "\<And>n. \<not> fl SysRemove n"
    and one: "sweep_expired fl cutoff (read_dir d) d 0 [] 0 = (d1, r1, kept, tot)"
    and two: "sweep_cap fl (sorter kept) d1 r1 tot = (d2, r2, tot2)"
  obtains a b where "mset kept = mset (a @ b)" and "sorted (map cd_modTime (a @ b))"
    and "distinct (map cd_path (a @ b))"
    and "set (a @ b) = cand d ` {n. \<exists>f. map_of d n = Some f \<and> f_regular f \<and> \<not> f_mtime f < cutoff}"
    and "map_of d2 = (\<lambda>n. if (\<exists>f. map_of d n = Some f \<and> f_regular f \<and> f_mtime f < cutoff)
                             \<or> n \<in> cd_path ` set a then None else map_of d n)"
    and "b = [] \<or> sum_list (map cd_size b) \<le> stagedMaxBytes"
    and "a = [] \<or> stagedMaxBytes < cd_size (last a) + sum_list (map cd_size b)"
proof -
  let ?ns = "read_dir d"
  have dist: "distinct ?ns" by (simp add: read_dir_def)
  note eff = sweep_expired_effect [OF one dist]
  have rem: "removable fl cs = cs" for cs by (simp add: removable_def ok)
  from sweep_cap_effect [OF two] obtain a b where ab: "sorter kept = a @ b"
    "map_of d2 = (\<lambda>n. if n \<in> cd_path ` set a then None else map_of d1 n)"
    "tot2 = tot - sum_list (map cd_size a)" "b = [] \<or> tot2 \<le> stagedMaxBytes"
    "a \<noteq> [] \<longrightarrow> stagedMaxBytes < tot - sum_list (map cd_size (butlast a))"
    by (auto simp: rem)
  have kept: "kept = map (cand d) (filter (young fl cutoff d) ?ns)"
    and tot: "tot = sum_list (map cd_size kept)" using eff by simp_all
  have ms: "mset kept = mset (a @ b)" and srt: "sorted (map cd_modTime (a @ b))"
    using sorter ab(1) unfolding sorts_candidates_def by metis+
  have paths: "map cd_path kept = filter (young fl cutoff d) ?ns"
    unfolding kept by (auto simp: cand_def map_idI split: option.splits)
  have "distinct (map cd_path kept)" unfolding paths using dist by simp
  then have di: "distinct (map cd_path (a @ b))"
    using ms by (metis mset_eq_imp_distinct_iff mset_map)
  have ys: "set (filter (young fl cutoff d) ?ns)
      = {n. \<exists>f. map_of d n = Some f \<and> f_regular f \<and> \<not> f_mtime f < cutoff}"
    using young_set [where fl = fl and cutoff = cutoff and d = d, OF ok(1)] by blast
  have st: "set (a @ b) = cand d ` {n. \<exists>f. map_of d n = Some f \<and> f_regular f \<and> \<not> f_mtime f < cutoff}"
    using mset_eq_setD [OF ms] unfolding kept set_map ys by simp
  have exp: "expired fl cutoff d n \<longleftrightarrow> (\<exists>f. map_of d n = Some f \<and> f_regular f \<and> f_mtime f < cutoff)" for n
    by (auto simp: expired_def entry_info_def ok split: option.splits)
  have dom: "n \<in> set ?ns" if "map_of d n = Some f" for n f
    using that by auto
  have d2: "map_of d2 = (\<lambda>n. if (\<exists>f. map_of d n = Some f \<and> f_regular f \<and> f_mtime f < cutoff)
                             \<or> n \<in> cd_path ` set a then None else map_of d n)"
    using ab(2) eff dom by (auto simp: fun_eq_iff exp ok)
  have sums: "sum_list (map cd_size kept) = sum_list (map cd_size (a @ b))"
    using ms by (metis mset_map sum_mset_sum_list)
  then have cap: "b = [] \<or> sum_list (map cd_size b) \<le> stagedMaxBytes" using ab(3,4) tot by auto
  have "sum_list (map cd_size a) = sum_list (map cd_size (butlast a)) + cd_size (last a)" if "a \<noteq> []"
    by (subst append_butlast_last_id [OF that, symmetric], simp)
  then have "a = [] \<or> stagedMaxBytes < cd_size (last a) + sum_list (map cd_size b)"
    using ab(5) tot sums by auto
  with that ms srt di st d2 cap show thesis by blast
qed

subsection \<open>Properties\<close>

text \<open>C2: \<open>WriteAuth\<close> is atomic. At every point of its history, a crash included, the session file
  is either what it was or the complete new session, synced and mode 0600; no other file but the
  temporary one changes. No error means the new session is published; an error other than a failed
  directory sync after the rename means the old file is still there; and the temporary file does
  not outlive the call.\<close>

theorem WriteAuth_crash_safe:
  assumes "accountFile account = Some path"
    and "WriteAuth fl now partial rnd account raw d = (err, h)"
  shows "(d' \<in> set h \<longrightarrow>
      (map_of d' path = map_of d path \<or> published raw (map_of d' path))
      \<and> (\<forall>n. n \<noteq> path \<and> n \<noteq> temp_file rnd \<longrightarrow> map_of d' n = map_of d n))
    \<and> (err = None \<longrightarrow> published raw (map_of (last h) path))
    \<and> (err \<noteq> None \<and> err \<noteq> Some (OSError SysSyncDirAfter) \<longrightarrow> map_of (last h) path = map_of d path)
    \<and> (map_of d (temp_file rnd) = None \<and> \<not> fl SysRemove (temp_file rnd)
      \<longrightarrow> map_of (last h) (temp_file rnd) = None)"
  using WriteAuth_history [OF assms] by blast

lemma WriteAuth_crash_safe_witness:
  "map_of (last (snd (WriteAuth (\<lambda>c n. c = SysRename) 5 0 ''7'' ''bob'' ''{}'' []))) ''bob.session.json'' = None
   \<and> map_of (last (snd (WriteAuth (\<lambda>c n. c = SysRename) 5 0 ''7'' ''bob'' ''{}'' []))) (temp_file ''7'') = None"
proof -
  have a: "accountFile ''bob'' = Some ''bob.session.json''" by code_simp
  obtain err h where w: "WriteAuth (\<lambda>c n. c = SysRename) 5 0 ''7'' ''bob'' ''{}'' [] = (err, h)"
    by fastforce
  have "fst (WriteAuth (\<lambda>c n. c = SysRename) 5 0 ''7'' ''bob'' ''{}'' []) = Some (OSError SysRename)"
    by code_simp
  with w have "err = Some (OSError SysRename)" by simp
  then show ?thesis using WriteAuth_crash_safe [OF a w] w by simp
qed

definition run_store :: "(int \<times> go_string, go_string) store_op list \<Rightarrow> dir \<Rightarrow> dir" where
  "run_store = fold (\<lambda>op d. case op of
     Save t a x \<Rightarrow> case_prod save_ok t a x d | Delete a \<Rightarrow> delete_ok a d)"

text \<open>C11: the store is a map from accounts to sessions. After any sequence of saves and deletes that
  the file system does not fail, a load of a valid account returns what the same sequence on an
  abstract map gives, and the listing names a valid account iff its session loads.\<close>

theorem store_refines_map:
  assumes "valid_name b"
  shows "(load_ok b (run_store ops d) = fold (spec_op valid_name) ops (\<lambda>a. load_ok a d) b)
    \<and> (b \<in> set (Accounts no_faults (run_store ops d))
      \<longleftrightarrow> fold (spec_op valid_name) ops (\<lambda>a. load_ok a d) b \<noteq> None)"
  unfolding run_store_def using store.run_refines [OF assms] store.run_listed [OF assms] by blast

lemma store_refines_map_witness:
  "load_ok ''bob'' (run_store [Save (1, ''a'') ''bob'' ''1'', Save (2, ''b'') ''eve'' ''2'', Delete ''eve''] [])
     = Some ''1''"
proof -
  have "valid_name ''bob''" by code_simp
  then have "load_ok ''bob'' (run_store ops []) = fold (spec_op valid_name) ops (\<lambda>a. load_ok a []) ''bob''"
    for ops using store_refines_map by blast
  then show ?thesis by (rule trans) code_simp
qed

lemma cand_path [simp]: "cd_path (cand d n) = n"
  by (simp add: cand_def split: option.split)

lemma regular_size_eq:
  assumes "distinct (map cd_path b)"
    and "set (filter (is_regular d) (read_dir d)) = cd_path ` set b"
    and "\<And>c. c \<in> set b \<Longrightarrow> file_size (the (map_of d (cd_path c))) = cd_size c"
  shows "regular_size d = sum_list (map cd_size b)"
proof -
  have "regular_size d = sum_list (map (\<lambda>n. file_size (the (map_of d n))) (map cd_path b))"
    unfolding regular_size_def
    using assms(1,2) by (simp add: sum_list_distinct_conv_sum_set read_dir_def del: map_map)
  also have "\<dots> = sum_list (map cd_size b)"
    using assms(3) by (simp add: comp_def cong: map_cong)
  finally show ?thesis .
qed

text \<open>The staging directory after the sweep, in terms of the removed candidates \<open>a\<close> and the kept
  ones \<open>b\<close>.\<close>

lemma sweep_staging_split:
  fixes d0 :: dir
  defines "Y cutoff \<equiv> {n. \<exists>f. map_of d0 n = Some f \<and> f_regular f \<and> \<not> f_mtime f < cutoff}"
  assumes di: "distinct (map cd_path (a @ b))"
    and st: "set (a @ b) = cand d0 ` Y cutoff"
    and d2: "map_of d2 = (\<lambda>n. if (\<exists>f. map_of d0 n = Some f \<and> f_regular f
        \<and> f_mtime f < cutoff) \<or> n \<in> cd_path ` set a then None else map_of d0 n)"
  shows "n \<in> cd_path ` set a \<longleftrightarrow> n \<in> Y cutoff \<and> cand d0 n \<in> set a"
    and "n \<in> cd_path ` set b \<longleftrightarrow> is_regular d2 n"
    and "is_regular d2 n \<longleftrightarrow> n \<in> Y cutoff \<and> cand d0 n \<in> set b"
    and "regular_size d2 = sum_list (map cd_size b)"
proof -
  have mem: "cand d0 (cd_path c) = c \<and> cd_path c \<in> Y cutoff" if "c \<in> set (a @ b)" for c
  proof -
    have "c \<in> cand d0 ` Y cutoff" using that unfolding st .
    then show ?thesis by auto
  qed
  have disj: "cd_path ` set a \<inter> cd_path ` set b = {}" using di by auto
  have img: "n \<in> cd_path ` set c \<longleftrightarrow> n \<in> Y cutoff \<and> cand d0 n \<in> set c" if "set c \<subseteq> set (a @ b)" for n c
    using that mem by (force simp: image_iff subset_eq)
  show "n \<in> cd_path ` set a \<longleftrightarrow> n \<in> Y cutoff \<and> cand d0 n \<in> set a" for n
    by (rule img) simp
  show inb: "is_regular d2 n \<longleftrightarrow> n \<in> Y cutoff \<and> cand d0 n \<in> set b" for n
  proof
    assume "is_regular d2 n"
    then have y: "n \<in> Y cutoff" "n \<notin> cd_path ` set a"
      unfolding is_regular_def d2 Y_def by (auto split: if_splits option.splits)
    then have "cand d0 n \<in> set (a @ b)" using st by blast
    with y show "n \<in> Y cutoff \<and> cand d0 n \<in> set b"
      by (metis Un_iff cand_path imageI set_append)
  next
    assume n: "n \<in> Y cutoff \<and> cand d0 n \<in> set b"
    then have "n \<notin> cd_path ` set a" using disj by (metis IntI cand_path empty_iff imageI)
    with n show "is_regular d2 n" by (auto simp: is_regular_def d2 Y_def)
  qed
  show names: "n \<in> cd_path ` set b \<longleftrightarrow> is_regular d2 n" for n
    unfolding inb by (rule img) simp
  show "regular_size d2 = sum_list (map cd_size b)"
  proof (rule regular_size_eq)
    show "distinct (map cd_path b)" using di by simp
    show "set (filter (is_regular d2) (read_dir d2)) = cd_path ` set b"
    proof -
      have "set (filter (is_regular d2) (read_dir d2)) = {n. is_regular d2 n}"
        by (auto simp: is_regular_def split: option.splits)
      then show ?thesis using names by blast
    qed
    fix c assume c: "c \<in> set b"
    then have "is_regular d2 (cd_path c)" using names by blast
    moreover from this have "map_of d2 (cd_path c) = map_of d0 (cd_path c)"
      unfolding is_regular_def d2 by (auto split: if_splits option.splits)
    ultimately show "file_size (the (map_of d2 (cd_path c))) = cd_size c"
      using mem [of c] c by (auto simp: Y_def cand_def dest: arg_cong [where f = cd_size])
  qed
qed

text \<open>C14: a staging sweep that no call fails in removes only what the retention rules name. Entries
  that are not regular files stay; an entry that stays is unchanged and, if regular, at most seven
  days old; the regular files that stay fit the 256 MiB cap; a removed file of at most seven days is
  no younger than any regular file that stays, and one such file put back would break the cap; and
  no session file in the store directory is touched.\<close>

theorem SweepStaged_retention:
  assumes "sorts_candidates sorter"
    and "SweepStaged sorter no_faults now staged d = (res, staged', d')"
  shows "(fst res = None)
    \<and> (map_of staged n = Some f \<and> \<not> f_regular f \<longrightarrow> map_of staged' n = Some f)
    \<and> (map_of staged' n = Some f \<longrightarrow>
      map_of staged n = Some f \<and> (f_regular f \<longrightarrow> now - stagedMaxAge \<le> f_mtime f))
    \<and> (regular_size staged' \<le> stagedMaxBytes)
    \<and> (map_of staged n = Some f \<and> map_of staged' n = None \<and> now - stagedMaxAge \<le> f_mtime f \<longrightarrow>
      (\<forall>m g. map_of staged' m = Some g \<and> f_regular g \<longrightarrow> f_mtime f \<le> f_mtime g)
      \<and> (\<exists>m g. map_of staged m = Some g \<and> map_of staged' m = None \<and> now - stagedMaxAge \<le> f_mtime g
          \<and> stagedMaxBytes < regular_size staged' + file_size g))
    \<and> (accountFile account = Some p \<longrightarrow> map_of d' p = map_of d p)"
proof (intro conjI)
  obtain d1 r1 kept tot where one:
    "sweep_expired no_faults (now - stagedMaxAge) (read_dir staged) staged 0 [] 0 = (d1, r1, kept, tot)"
    by (metis prod_cases4)
  obtain d2 r2 tot2 where two: "sweep_cap no_faults (sorter kept) d1 r1 tot = (d2, r2, tot2)"
    by (metis prod_cases3)
  obtain d3 r3 where three: "sweep_temps no_faults (now - sessionTmpMaxAge) (read_dir d) d r2 = (d3, r3)"
    by fastforce
  have nf: "\<not> no_faults c n" for c n by (simp add: no_faults_def)
  have res: "res = (None, r3)" "staged' = d2" "d' = d3"
    using assms(2) by (simp_all add: SweepStaged_def nf one two three)
  let ?Y = "{n. \<exists>f. map_of staged n = Some f \<and> f_regular f \<and> \<not> f_mtime f < now - stagedMaxAge}"
  obtain a b where "mset kept = mset (a @ b)" and srt: "sorted (map cd_modTime (a @ b))"
    and di: "distinct (map cd_path (a @ b))" and st: "set (a @ b) = cand staged ` ?Y"
    and d2: "map_of d2 = (\<lambda>n. if (\<exists>f. map_of staged n = Some f \<and> f_regular f
        \<and> f_mtime f < now - stagedMaxAge) \<or> n \<in> cd_path ` set a then None else map_of staged n)"
    and cap: "b = [] \<or> sum_list (map cd_size b) \<le> stagedMaxBytes"
    and low: "a = [] \<or> stagedMaxBytes < cd_size (last a) + sum_list (map cd_size b)"
    by (rule sweep_staging_outcome [OF assms(1) nf nf one two])
  note split = sweep_staging_split [OF di st d2]
  show "fst res = None" by (simp add: res)
  show "map_of staged n = Some f \<and> \<not> f_regular f \<longrightarrow> map_of staged' n = Some f"
    unfolding res d2 split(1) by auto
  show "map_of staged' n = Some f \<longrightarrow>
      map_of staged n = Some f \<and> (f_regular f \<longrightarrow> now - stagedMaxAge \<le> f_mtime f)"
    unfolding res d2 by auto
  show "regular_size staged' \<le> stagedMaxBytes"
    using cap by (auto simp: res split(4) stagedMaxBytes_def)
  show "accountFile account = Some p \<longrightarrow> map_of d' p = map_of d p"
    using sweep_temps_effect [OF three, of p] accountFile_Some [of account p]
    by (auto simp: res has_suffix_def suffix_def session_suffix_def
        dest: arg_cong [where f = last])
  show "map_of staged n = Some f \<and> map_of staged' n = None \<and> now - stagedMaxAge \<le> f_mtime f \<longrightarrow>
      (\<forall>m g. map_of staged' m = Some g \<and> f_regular g \<longrightarrow> f_mtime f \<le> f_mtime g)
      \<and> (\<exists>m g. map_of staged m = Some g \<and> map_of staged' m = None \<and> now - stagedMaxAge \<le> f_mtime g
          \<and> stagedMaxBytes < regular_size staged' + file_size g)"
  proof
    assume n: "map_of staged n = Some f \<and> map_of staged' n = None \<and> now - stagedMaxAge \<le> f_mtime f"
    then have na: "n \<in> cd_path ` set a" unfolding res d2 by (auto split: if_splits)
    then have "cand staged n \<in> set a" unfolding split(1) by simp
    have young: "f_mtime f \<le> f_mtime g" if g: "map_of staged' m = Some g \<and> f_regular g" for m g
    proof -
      have "is_regular d2 m" using g by (simp add: is_regular_def res)
      then have "cand staged m \<in> set b" unfolding split(3) by simp
      then have "cd_modTime (cand staged n) \<le> cd_modTime (cand staged m)"
        using srt \<open>cand staged n \<in> set a\<close> by (auto simp: sorted_append)
      moreover have "map_of staged m = Some g" using g unfolding res d2 by (auto split: if_splits)
      ultimately show ?thesis using n by (simp add: cand_def)
    qed
    have "a \<noteq> []" using na by auto
    then have la: "cd_path (last a) \<in> cd_path ` set a" by simp
    then obtain g where g: "map_of staged (cd_path (last a)) = Some g"
      "\<not> f_mtime g < now - stagedMaxAge" unfolding split(1) by auto
    have "last a \<in> set (a @ b)" using \<open>a \<noteq> []\<close> by simp
    then have "cand staged (cd_path (last a)) = last a" unfolding st by auto
    then have "cd_size (last a) = cd_size (cand staged (cd_path (last a)))" by simp
    also have "\<dots> = file_size g" using g(1) by (simp add: cand_def)
    finally have "cd_size (last a) = file_size g" .
    moreover have "map_of d2 (cd_path (last a)) = None" using la unfolding d2 by simp
    moreover have "stagedMaxBytes < cd_size (last a) + regular_size d2"
      using low \<open>a \<noteq> []\<close> unfolding split(4) by blast
    ultimately have "\<exists>m g. map_of staged m = Some g \<and> map_of staged' m = None
        \<and> now - stagedMaxAge \<le> f_mtime g \<and> stagedMaxBytes < regular_size staged' + file_size g"
      using g unfolding res by (intro exI [of _ "cd_path (last a)"] exI [of _ g]) simp
    with young show "(\<forall>m g. map_of staged' m = Some g \<and> f_regular g \<longrightarrow> f_mtime f \<le> f_mtime g)
      \<and> (\<exists>m g. map_of staged m = Some g \<and> map_of staged' m = None \<and> now - stagedMaxAge \<le> f_mtime g
          \<and> stagedMaxBytes < regular_size staged' + file_size g)" by blast
  qed
qed


text \<open>A concrete sweep: at day ten, an old file, a young one and a directory.\<close>

definition w_staged :: dir where
  "w_staged = [(''old'', \<lparr>f_bytes = ''x'', f_mode = 384, f_mtime = 0, f_regular = True, f_synced = True\<rparr>),
     (''new'', \<lparr>f_bytes = ''y'', f_mode = 384, f_mtime = 9 * 24 * hour, f_regular = True, f_synced = True\<rparr>),
     (''sub'', \<lparr>f_bytes = [], f_mode = 448, f_mtime = 0, f_regular = False, f_synced = True\<rparr>)]"

lemma SweepStaged_retention_witness:
  "map_of (fst (snd (SweepStaged (sort_key cd_modTime) no_faults (10 * 24 * hour) w_staged []))) ''sub'' \<noteq> None
   \<and> map_of (fst (snd (SweepStaged (sort_key cd_modTime) no_faults (10 * 24 * hour) w_staged []))) ''old'' = None
   \<and> regular_size (fst (snd (SweepStaged (sort_key cd_modTime) no_faults (10 * 24 * hour) w_staged [])))
      \<le> stagedMaxBytes"
proof -
  have sorter: "sorts_candidates (sort_key cd_modTime)" by (simp add: sorts_candidates_def)
  obtain res staged' d' where
    run: "SweepStaged (sort_key cd_modTime) no_faults (10 * 24 * hour) w_staged [] = (res, staged', d')"
    by (metis prod_cases3)
  note sound = SweepStaged_retention [OF sorter run]
  obtain f where "map_of w_staged ''sub'' = Some f" "\<not> f_regular f" by (simp add: w_staged_def)
  then have "map_of staged' ''sub'' \<noteq> None" using sound [of "''sub''" f] by blast
  moreover have "map_of staged' ''old'' = None"
  proof (rule ccontr)
    assume "map_of staged' ''old'' \<noteq> None"
    then obtain f where "map_of staged' ''old'' = Some f" by blast
    with sound [of "''old''" f] have "map_of w_staged ''old'' = Some f"
      "f_regular f \<longrightarrow> 10 * 24 * hour - stagedMaxAge \<le> f_mtime f" by blast+
    then show False
      by (auto simp: w_staged_def stagedMaxAge_def hour_def)
  qed
  moreover have "regular_size staged' \<le> stagedMaxBytes" using sound by blast
  ultimately show ?thesis using run by simp
qed

end
