(* ===== verification/FileTree.thy ===== *)
theory FileTree
  imports Contract "HOL-Library.AList"
begin

text \<open>
  Paths and the file tree of a Unix system, as far as the uploads of \<open>adapter/send.go\<close> depend on them:
  the lexical operations of \<open>path/filepath\<close>, which never look at the disk, and the system calls, which
  follow symbolic links. A tree maps the locations below the root (lists of names) to what is there.
\<close>

subsection \<open>Lexical paths\<close>

fun split_path :: "go_string \<Rightarrow> go_string \<Rightarrow> go_string list" where
  "split_path cur [] = [cur]"
| "split_path cur (c # cs) =
     (if c = CHR ''/'' then cur # split_path [] cs else split_path (cur @ [c]) cs)"

definition push_component :: "go_string \<Rightarrow> go_string list \<Rightarrow> go_string list" where
  "push_component c stack =
     (if c = [] \<or> c = ''.'' then stack
      else if c = ''..'' then butlast stack
      else stack @ [c])"

definition is_abs :: "go_string \<Rightarrow> bool" where
  "is_abs p \<longleftrightarrow> (case p of [] \<Rightarrow> False | c # _ \<Rightarrow> c = CHR ''/'')"

definition clean_abs :: "go_string \<Rightarrow> go_string list" where
  "clean_abs p = fold push_component (split_path [] p) []"

definition abs_path :: "go_string \<Rightarrow> go_string \<Rightarrow> go_string list" where
  "abs_path cwd p = (if is_abs p then clean_abs p else clean_abs (cwd @ CHR ''/'' # p))"

definition join_path :: "go_string list \<Rightarrow> go_string" where
  "join_path cs = concat (map (\<lambda>c. CHR ''/'' # c) cs)"

text \<open>\<open>filepath.Clean\<close>: a relative path keeps the \<open>..\<close> it cannot cancel.\<close>

definition push_relative :: "go_string \<Rightarrow> go_string list \<Rightarrow> go_string list" where
  "push_relative c stack =
     (if c = ''..'' \<and> (stack = [] \<or> last stack = ''..'') then stack @ [c] else push_component c stack)"

definition clean_path :: "go_string \<Rightarrow> go_string" where
  "clean_path p =
     (if is_abs p then (if clean_abs p = [] then ''/'' else join_path (clean_abs p))
      else let cs = fold push_relative (split_path [] p) [] in if cs = [] then ''.'' else tl (join_path cs))"

text \<open>\<open>filepath.Dir\<close>: the path up to its last slash, cleaned.\<close>

definition dir_path :: "go_string \<Rightarrow> go_string" where
  "dir_path p = clean_path (rev (dropWhile (\<lambda>c. c \<noteq> CHR ''/'') (rev p)))"

lemma split_path_acc: "split_path cur s = (cur @ hd (split_path [] s)) # tl (split_path [] s)"
proof (induction s arbitrary: cur)
  case (Cons c s)
  show ?case using Cons [of "cur @ [c]"] Cons [of "[c]"] by simp
qed simp

lemma split_path_slash: "split_path cur (a @ CHR ''/'' # b) = split_path cur a @ split_path [] b"
  by (induction cur a rule: split_path.induct) auto

lemma abs_path_split:
  "abs_path cwd p = fold push_component (if is_abs p then split_path [] p else split_path [] cwd @ split_path [] p) []"
  by (simp add: abs_path_def clean_abs_def split_path_slash)

subsection \<open>The tree\<close>

datatype node = Directory | Symlink go_string | Plain bytes | Special

lemma keeps_node [keeps_rules]:
  "keeps I a \<Longrightarrow> (\<And>t. keeps I (b t)) \<Longrightarrow> (\<And>d. keeps I (c d)) \<Longrightarrow> keeps I e
   \<Longrightarrow> keeps I (case x of Directory \<Rightarrow> a | Symlink t \<Rightarrow> b t | Plain d \<Rightarrow> c d | Special \<Rightarrow> e)"
  by (cases x) simp_all

type_synonym file_tree = "(go_string list \<times> node) list"

definition is_dir :: "file_tree \<Rightarrow> go_string list \<Rightarrow> bool" where
  "is_dir fs p \<longleftrightarrow> p = [] \<or> map_of fs p = Some Directory"

text \<open>The kernel's walk from location \<open>cur\<close> over the components that are left: every link on the way is
  followed, up to \<open>n\<close> of them, the last one only when \<open>follow\<close> is set. \<open>None\<close> is an error.\<close>

function walk :: "file_tree \<Rightarrow> bool \<Rightarrow> nat \<Rightarrow> go_string list \<Rightarrow> go_string list \<Rightarrow> go_string list option" where
  "walk fs follow n cur [] = Some cur"
| "walk fs follow n cur (c # cs) =
     (if \<not> is_dir fs cur then None
      else if c = [] \<or> c = ''.'' then walk fs follow n cur cs
      else if c = ''..'' then walk fs follow n (butlast cur) cs
      else (case map_of fs (cur @ [c]) of
          None \<Rightarrow> None
        | Some (Symlink target) \<Rightarrow>
            if cs = [] \<and> \<not> follow then Some (cur @ [c])
            else if n = 0 then None
            else walk fs follow (n - 1) (if is_abs target then [] else cur) (split_path [] target @ cs)
        | Some _ \<Rightarrow> walk fs follow n (cur @ [c]) cs))"
  by pat_completeness auto
termination
  by (relation "measures [\<lambda>(fs, follow, n, cur, cs). n, \<lambda>(fs, follow, n, cur, cs). length cs]") auto

text \<open>Linux gives up after forty links.\<close>

definition max_links :: nat where "max_links = 40"

definition locate :: "file_tree \<Rightarrow> go_string \<Rightarrow> bool \<Rightarrow> nat \<Rightarrow> go_string \<Rightarrow> go_string list option" where
  "locate fs cwd follow n p =
     (if p = [] then None
      else walk fs follow n [] (if is_abs p then split_path [] p else split_path [] cwd @ split_path [] p))"

definition node_at :: "file_tree \<Rightarrow> go_string list \<Rightarrow> node option" where
  "node_at fs q = (if q = [] then Some Directory else map_of fs q)"

text \<open>\<open>os.Open\<close> and \<open>Stat\<close> see the node behind the links, \<open>os.Lstat\<close> the entry itself.\<close>

definition tree_open :: "file_tree \<Rightarrow> go_string \<Rightarrow> go_string \<Rightarrow> node option" where
  "tree_open fs cwd p = (case locate fs cwd True max_links p of None \<Rightarrow> None | Some q \<Rightarrow> node_at fs q)"

definition tree_lstat :: "file_tree \<Rightarrow> go_string \<Rightarrow> go_string \<Rightarrow> node option" where
  "tree_lstat fs cwd p = (case locate fs cwd False max_links p of None \<Rightarrow> None | Some q \<Rightarrow> node_at fs q)"

text \<open>\<open>os.Remove\<close> is \<open>unlink\<close> and, if that fails, \<open>rmdir\<close>: an entry that is no directory goes, a
  directory only when it is empty and not named as \<open>.\<close> or \<open>..\<close>. An error leaves the tree alone.\<close>

definition tree_remove :: "file_tree \<Rightarrow> go_string \<Rightarrow> go_string \<Rightarrow> file_tree" where
  "tree_remove fs cwd p =
     (case locate fs cwd False max_links p of
        None \<Rightarrow> fs
      | Some q \<Rightarrow>
          (case node_at fs q of
             None \<Rightarrow> fs
           | Some Directory \<Rightarrow>
               if q = [] \<or> last (split_path [] p) \<in> {[], ''.'', ''..''} \<or> list_ex (\<lambda>(r, x). strict_prefix q r) fs
               then fs else AList.delete q fs
           | Some _ \<Rightarrow> AList.delete q fs))"

subsection \<open>Walks without links\<close>

text \<open>More links allowed, or more entries in the tree, do not change a walk that succeeds.\<close>

lemma walk_mono:
  "walk fs follow n cur cs = Some q \<Longrightarrow> map_of fs \<subseteq>\<^sub>m map_of fs' \<Longrightarrow> n \<le> m \<Longrightarrow> walk fs' follow m cur cs = Some q"
proof (induction fs follow n cur cs arbitrary: m rule: walk.induct)
  case (2 fs follow n cur c cs)
  have sub: "map_of fs y = Some x \<Longrightarrow> map_of fs' y = Some x" for y x
    using "2.prems"(2) by (auto simp: map_le_def dom_def)
  have dir: "is_dir fs cur" using "2.prems"(1) by (rule contrapos_pp) simp
  then have dir': "is_dir fs' cur" using sub by (auto simp: is_dir_def)
  consider "c = [] \<or> c = ''.''" | "c = ''..''" | "c \<noteq> []" "c \<noteq> ''.''" "c \<noteq> ''..''" by blast
  then show ?case
  proof cases
    case 1
    with "2.IH"(1) "2.prems" dir dir' show ?thesis by simp
  next
    case 2
    with "2.IH"(2) "2.prems" dir dir' show ?thesis by simp
  next
    case 3
    obtain x where x: "map_of fs (cur @ [c]) = Some x"
      using "2.prems"(1) dir 3 by (cases "map_of fs (cur @ [c])") simp_all
    have go: "is_dir g cur \<Longrightarrow> map_of g (cur @ [c]) = Some x \<Longrightarrow> walk g follow k cur (c # cs) = (case x of
          Symlink target \<Rightarrow>
            if cs = [] \<and> \<not> follow then Some (cur @ [c])
            else if k = 0 then None
            else walk g follow (k - 1) (if is_abs target then [] else cur) (split_path [] target @ cs)
        | _ \<Rightarrow> walk g follow k (cur @ [c]) cs)" for g k
      using 3 by (cases x) simp_all
    note here = go [OF dir x] and there = go [OF dir' sub [OF x]]
    show ?thesis
    proof (cases x)
      case (Symlink t)
      show ?thesis
      proof (cases "cs = [] \<and> \<not> follow \<or> n = 0")
        case True
        with "2.prems" Symlink show ?thesis unfolding here there by (auto split: if_splits)
      next
        case False
        have "n - 1 \<le> m - 1" using "2.prems"(3) by simp
        then have "walk fs follow (n - 1) (if is_abs t then [] else cur) (split_path [] t @ cs) = Some q \<Longrightarrow>
            walk fs' follow (m - 1) (if is_abs t then [] else cur) (split_path [] t @ cs) = Some q"
          by (intro "2.IH"(4)) (use dir 3 x Symlink False "2.prems"(2) in auto)
        with False "2.prems" Symlink show ?thesis unfolding here there by (auto split: if_splits)
      qed
    next
      case Directory
      show ?thesis using "2.prems" "2.IH"(3) dir 3 x unfolding here there unfolding Directory by simp
    next
      case (Plain d)
      show ?thesis using "2.prems" "2.IH"(5) dir 3 x unfolding here there unfolding Plain by simp
    next
      case Special
      show ?thesis using "2.prems" "2.IH"(6) dir 3 x unfolding here there unfolding Special by simp
    qed
  qed
qed simp

text \<open>A walk that meets no link ends where the lexical path says.\<close>

lemma walk_lexical: "walk fs follow 0 cur cs = Some q \<Longrightarrow> q = fold push_component cs cur"
proof (induction cs arbitrary: cur)
  case (Cons c cs)
  then show ?case
    by (auto simp: push_component_def split: if_splits option.splits node.splits)
qed simp

lemma locate_lexical:
  assumes "locate fs cwd follow 0 p \<noteq> None" and "locate g cwd follow n p = Some q" and "map_of g \<subseteq>\<^sub>m map_of fs"
  shows "q = abs_path cwd p"
proof -
  define cs where "cs = (if is_abs p then split_path [] p else split_path [] cwd @ split_path [] p)"
  obtain r where r: "walk fs follow 0 [] cs = Some r" and w: "walk g follow n [] cs = Some q"
    using assms(1,2) by (auto simp: locate_def cs_def split: if_splits)
  have "walk fs follow n [] cs = Some r" using walk_mono [OF r] by simp
  with walk_mono [OF w assms(3) le_refl] have "q = r" by simp
  with walk_lexical [OF r] show ?thesis by (simp add: abs_path_split cs_def)
qed

text \<open>What \<open>os.Remove\<close> can change.\<close>

lemma tree_remove_effect:
  assumes "map_of (tree_remove fs cwd p) q \<noteq> map_of fs q"
  shows "map_of (tree_remove fs cwd p) q = None" and "locate fs cwd False max_links p = Some q"
    and "map_of fs q = Some Directory \<longrightarrow> (\<forall>r. strict_prefix q r \<longrightarrow> map_of fs r = None)"
proof -
  have "map_of fs r = None" if "strict_prefix q r" "\<not> list_ex (\<lambda>(r, x). strict_prefix q r) fs" for q r
    using that by (cases "map_of fs r") (auto simp: list_ex_iff dest: map_of_SomeD)
  with assms show "map_of (tree_remove fs cwd p) q = None" "locate fs cwd False max_links p = Some q"
    "map_of fs q = Some Directory \<longrightarrow> (\<forall>r. strict_prefix q r \<longrightarrow> map_of fs r = None)"
    by (auto simp: tree_remove_def node_at_def AList.delete_conv' split: option.splits node.splits if_splits)
qed

lemma tree_remove_less: "map_of (tree_remove fs cwd p) \<subseteq>\<^sub>m map_of fs"
  unfolding map_le_def by (metis tree_remove_effect(1) domIff)

end
