(* ===== verification/SessionState.thy ===== *)
theory SessionState
  imports RelayMap Paging Store FileTree "HOL-Library.Signed_Division"
begin

text \<open>
  The session of \<open>adapter/session.go\<close>: one record for the Go struct, and the ghost fields the
  statements need. Goroutines interleave; a handler below runs alone between its blocking points,
  and at a blocking point (a relay call or a timer) the rest of the program may change the session.
  The relay library is not part of this repository: it is the parameter \<open>e_relay\<close> of the
  environment, a function from the client, the request and the session to a reply and the session
  the handler finds when it resumes. Sections under \<open>s.mu\<close> are single steps. So are \<open>fire\<close> and
  \<open>fireIfCurrent\<close> below, although their tests and the write to stdout are not one critical section
  in the program: \<open>Emission\<close> takes them apart and says what changes.

  \<open>s_trace\<close> is ghost state: what this goroutine has done, in order, each action stamped with the
  lifecycle and the closed flag at that moment. The environment cannot write it.

  Pointers the code compares (\<open>s.client != client\<close>, \<open>s.auth != auth\<close>, \<open>s.ps != ps\<close>) and cancel
  functions are numbers from the allocation counter \<open>s_fresh\<close>.
\<close>

subsection \<open>The relay library's interface\<close>

text \<open>An error value is the list of the sentinel errors its chain wraps, which is all \<open>errors.Is\<close> sees.\<close>

datatype sentinel =
    ErrPhoneNotResponding | ErrInvalidCredentials | ErrRequestedEntityNotFound
  | ErrIncorrectEmoji | ErrPairingCancelled | ErrPairingTimeout | ErrPairingInitTimeout
  | ErrNoDevicesFound | ErrNoCookies | ErrContextCanceled | ErrOther

type_synonym go_error = "sentinel list"

definition errors_Is :: "go_error \<Rightarrow> sentinel \<Rightarrow> bool" where
  "errors_Is e x \<longleftrightarrow> x \<in> set e"

datatype send_status = SEND_SUCCESS | SEND_FAILURE_2 | SEND_FAILURE_3 | Send_Unlisted nat

datatype reaction_action = REACT_ADD | REACT_REMOVE | REACT_SWITCH

record message_payload =
  mp_TmpID :: go_string
  mp_ConversationID :: go_string
  mp_ParticipantID :: go_string
  mp_TmpID2 :: go_string
  mp_MessageInfo :: "info_data list"

record send_request =
  sr_ConversationID :: go_string
  sr_MessagePayload :: message_payload
  sr_SIMPayload :: "go_string option"
  sr_TmpID :: go_string
  sr_ForceRCS :: bool
  sr_Reply :: "go_string option"

datatype rpc =
    FetchConfig
  | Connect
  | SetActiveSession
  | ListConversations "relay_cursor option"
  | GetConversation go_string
  | FetchMessages go_string u32 "relay_cursor option"
  | SendMessage send_request
  | SendReaction go_string go_string reaction_action "go_string option"
  | RpcMarkRead go_string go_string
  | SetTyping go_string "go_string option"
  | RpcDeleteMessage go_string
  | GetOrCreateConversation "go_string list" "(go_string \<times> bool) option"
  | UploadMedia bytes go_string go_string
  | DownloadMedia go_string bytes
  | GetFullSizeImage go_string go_string
  | Unpair
  | StartGaiaPairing
  | FinishGaiaPairing nat

text \<open>One record for all replies; a call site reads the fields its response type has.\<close>

record reply =
  rp_err :: "go_error option"
  rp_convs :: "pb_conversation option list"
  rp_cursor :: "relay_cursor option"
  rp_conv :: "pb_conversation option"
  rp_msgs :: "pb_message option list"
  rp_send :: send_status
  rp_createRCS :: bool
  rp_success :: bool
  rp_media :: media_content
  rp_stream :: bytes
  rp_streamErr :: bool
  rp_emoji :: go_string
  rp_ps :: nat

datatype wake = Woke_Timer | Woke_Done

subsection \<open>The session\<close>

record cached_message =
  k_id :: go_string
  k_ts :: int
  k_status :: msg_status
  k_self :: bool

record pending_send =
  ps_requestID :: go_string
  ps_convID :: go_string
  ps_at :: int

record auth_data =
  au_ref :: nat
  au_data :: bytes

datatype relay_event =
    Ev_Conversation pb_conversation
  | Ev_Message "pb_message option" bool
  | Ev_Typing go_string bool go_string
  | Ev_Settings "sim_card list"
  | Ev_AuthTokenRefreshed
  | Ev_GaiaLoggedOut
  | Ev_ListenFatalError go_error
  | Ev_AccountChange
  | Ev_Other

record queued_event =
  q_lifecycle :: u64
  q_event :: relay_event

datatype task =
    Task_eventLoop
  | Task_connectLoop nat
  | Task_finishPairing nat nat nat auth_data u64
  | Task_catchUp u64
  | Task_resync

datatype action =
    Emit event
  | Call nat rpc
  | Pause int
  | Disconnect nat
  | Cancel nat
  | Spawn task
  | WriteSession bytes "store_err option"
  | RemoveSession "store_err option"
  | RemoveFile go_string

record entry =
  te_lifecycle :: u64
  te_closed :: bool
  te_action :: action

record session =
  s_account :: go_string
  s_client :: "nat option"
  s_clientGen :: u64
  s_auth :: "auth_data option"
  s_sims :: "(go_string \<times> sim_card) list"
  s_metas :: "(go_string \<times> convMeta) list"
  s_selfIDs :: "go_string set"
  s_cache :: "(go_string \<times> cached_message list) list"
  s_pending :: "(go_string \<times> pending_send) list"
  s_pairCancel :: "nat option"
  s_ps :: "nat option"
  s_fullReq :: "(go_string \<times> int) list"
  s_dirtyConvs :: "go_string set"
  s_dirtyOrder :: "go_string list"
  s_events :: "queued_event list"
  s_closed :: bool
  s_loopStarted :: bool
  s_connectCancel :: "nat option"
  s_lifecycle :: u64
  s_syncGen :: u64
  s_resyncing :: bool
  s_syncActive :: bool
  s_typingActive :: bool
  s_connected :: bool
  s_authenticated :: bool
  s_store :: dir
  s_staged :: dir
  s_sweep :: sweep_state
  s_files :: file_tree
  s_now :: int
  s_fresh :: nat
  s_cancelled :: "nat list"
  s_trace :: "entry list"

text \<open>What the code takes from outside: the relay, timers, random ids, the order in which Go ranges
  over a map (\<open>e_order\<close> all of it, \<open>e_pick\<close> the position of the first key), the order in which the
  sync workers pick jobs, the JSON coding of the library's auth record, which file-system calls
  fail, the path of the staging directory, the JSON decoding of a login bundle, the content-type
  sniffer, and the process's working directory and environment.\<close>

record env =
  e_relay :: "nat \<Rightarrow> rpc \<Rightarrow> session \<Rightarrow> reply \<times> session"
  e_wait :: "int \<Rightarrow> session \<Rightarrow> wake \<times> session"
  e_tmpID :: "session \<Rightarrow> go_string"
  e_random :: "session \<Rightarrow> go_string"
  e_order :: "go_string set \<Rightarrow> go_string list"
  e_pick :: "nat \<Rightarrow> nat"
  e_jobs :: "nat \<Rightarrow> nat list"
  e_marshalAuth :: "bytes \<Rightarrow> bytes option"
  e_unmarshalAuth :: "bytes \<Rightarrow> bytes option"
  e_authMobile :: "bytes \<Rightarrow> bool"
  e_newAuth :: "(go_string \<times> go_string) list \<Rightarrow> bytes"
  e_faults :: faults
  e_partial :: nat
  e_sorter :: "candidate list \<Rightarrow> candidate list"
  e_stageDir :: go_string
  e_detectType :: "bytes \<Rightarrow> go_string"
  e_cwd :: go_string
  e_xdgState :: go_string
  e_home :: "go_string option"

type_synonym 'a prog = "(session, 'a) state"

subsection \<open>Constants\<close>

definition second :: int where "second = 10 ^ 9"
definition minute :: int where "minute = 60 * second"

definition resumeCheckInterval :: int where "resumeCheckInterval = 30 * second"
definition resumeGapThreshold :: int where "resumeGapThreshold = 2 * minute"

definition conversationPage :: nat where "conversationPage = 200"
definition messageWindow :: u32 where "messageWindow = 20"
definition cachePerConv :: nat where "cachePerConv = 200"
definition eventQueue :: nat where "eventQueue = 256"

definition pendingTTL :: int where "pendingTTL = 10 * minute"
definition maxDirtyConvs :: nat where "maxDirtyConvs = 64"

subsection \<open>Actions\<close>

definition stamp :: "session \<Rightarrow> action \<Rightarrow> entry" where
  "stamp s a = \<lparr>te_lifecycle = s_lifecycle s, te_closed = s_closed s, te_action = a\<rparr>"

definition act :: "action \<Rightarrow> unit prog" where
  "act a = State_Monad.update (\<lambda>s. s\<lparr>s_trace := s_trace s @ [stamp s a]\<rparr>)"

text \<open>A relay call: logged, then answered by the environment, which cannot touch the log.\<close>

definition rpc_call :: "env \<Rightarrow> nat \<Rightarrow> rpc \<Rightarrow> reply prog" where
  "rpc_call env c q = State (\<lambda>s.
     case e_relay env c q s of (r, t) \<Rightarrow> (r, t\<lparr>s_trace := s_trace s @ [stamp s (Call c q)]\<rparr>))"

definition pause :: "env \<Rightarrow> int \<Rightarrow> wake prog" where
  "pause env d = State (\<lambda>s.
     case e_wait env d s of (w, t) \<Rightarrow> (w, t\<lparr>s_trace := s_trace s @ [stamp s (Pause d)]\<rparr>))"

definition fresh :: "nat prog" where
  "fresh = State (\<lambda>s. (s_fresh s, s\<lparr>s_fresh := Suc (s_fresh s)\<rparr>))"

definition cancel :: "nat \<Rightarrow> unit prog" where
  "cancel c = do {
     act (Cancel c);
     State_Monad.update (\<lambda>s. s\<lparr>s_cancelled := c # s_cancelled s\<rparr>)
   }"

text \<open>\<open>if s.pairCancel != nil { s.pairCancel(); s.pairCancel = nil }\<close>, and the same for the
  reconnect loop.\<close>

definition stop_pairing :: "unit prog" where
  "stop_pairing = do {
     s \<leftarrow> State_Monad.get;
     case s_pairCancel s of
       None \<Rightarrow> State_Monad.return ()
     | Some c \<Rightarrow> do { cancel c; State_Monad.update (\<lambda>s. s\<lparr>s_pairCancel := None\<rparr>) }
   }"

definition stop_connecting :: "unit prog" where
  "stop_connecting = do {
     s \<leftarrow> State_Monad.get;
     case s_connectCancel s of
       None \<Rightarrow> State_Monad.return ()
     | Some c \<Rightarrow> do { cancel c; State_Monad.update (\<lambda>s. s\<lparr>s_connectCancel := None\<rparr>) }
   }"

definition ctx_done :: "nat \<Rightarrow> session \<Rightarrow> bool" where
  "ctx_done c s \<longleftrightarrow> c \<in> set (s_cancelled s)"

subsection \<open>Fences and emission\<close>

definition alive :: "session \<Rightarrow> bool" where
  "alive s \<longleftrightarrow> \<not> s_closed s"

definition current :: "u64 \<Rightarrow> session \<Rightarrow> bool" where
  "current lifecycle s \<longleftrightarrow> s_lifecycle s = lifecycle"

text \<open>Both counters step past zero when they wrap.\<close>

definition next_lifecycle :: "u64 \<Rightarrow> u64" where
  "next_lifecycle v = (let w = v + 1 in if w = 0 then 1 else w)"

definition bumpLifecycle :: "u64 prog" where
  "bumpLifecycle = State (\<lambda>s.
     let v = next_lifecycle (s_lifecycle s) in (v, s\<lparr>s_lifecycle := v\<rparr>))"

definition next_sync_gen :: "u64 \<Rightarrow> u64" where
  "next_sync_gen v = (let w = v + 1 in if w = 0 then 1 else w)"

definition nextGeneration :: "u64 prog" where
  "nextGeneration = State (\<lambda>s.
     let v = next_sync_gen (s_syncGen s) in (v, s\<lparr>s_syncGen := v\<rparr>))"

text \<open>The one-step view; \<open>Emission.fire_seg\<close> and \<open>Emission.write_seg\<close> are the steps, and \<open>call_alone\<close> there
  shows that a goroutine nobody interferes with performs exactly this.\<close>

definition fire :: "event \<Rightarrow> unit prog" where
  "fire evt = do {
     s \<leftarrow> State_Monad.get;
     if \<not> alive s then State_Monad.return () else act (Emit evt)
   }"

definition fireIfCurrent :: "u64 \<Rightarrow> event \<Rightarrow> unit prog" where
  "fireIfCurrent lifecycle evt = do {
     s \<leftarrow> State_Monad.get;
     if s_lifecycle s \<noteq> lifecycle then State_Monad.return () else fire evt
   }"

definition ownsClient :: "u64 \<Rightarrow> nat \<Rightarrow> session \<Rightarrow> bool" where
  "ownsClient lifecycle client s \<longleftrightarrow>
     s_lifecycle s = lifecycle \<and> s_client s = Some client \<and> alive s"

definition isFatalAuth :: "go_error \<Rightarrow> bool" where
  "isFatalAuth e \<longleftrightarrow> errors_Is e ErrInvalidCredentials \<or> errors_Is e ErrRequestedEntityNotFound"

definition account_event :: "go_string \<Rightarrow> bool \<Rightarrow> bool \<Rightarrow> event" where
  "account_event account conn authd =
     (mk_event ''account'')\<lparr>ev_Account := account, ev_Label := ''Google Messages'',
        ev_Connected := conn, ev_Authenticated := authd\<rparr>"

definition error_event :: "go_string \<Rightarrow> go_string \<Rightarrow> event" where
  "error_event account msg = (mk_event ''error'')\<lparr>ev_Account := account, ev_Message := msg\<rparr>"

subsection \<open>The session file\<close>

text \<open>The marshalling runs unlocked and the recheck runs under \<open>saveMu\<close>; no relay call lies between
  them, so here they are one step. \<open>SaveRace\<close> models the steps one by one.\<close>

definition write_session :: "env \<Rightarrow> go_string \<Rightarrow> bytes \<Rightarrow> store_err option prog" where
  "write_session env account raw = do {
     s \<leftarrow> State_Monad.get;
     let (err, h) = WriteAuth (e_faults env) (s_now s) (e_partial env) (e_random env s) account raw (s_store s);
     act (WriteSession raw err);
     State_Monad.update (\<lambda>s. s\<lparr>s_store := last h\<rparr>);
     State_Monad.return err
   }"

definition saveAuthIfCurrent :: "env \<Rightarrow> u64 \<Rightarrow> store_err option prog" where
  "saveAuthIfCurrent env lifecycle = do {
     s \<leftarrow> State_Monad.get;
     case s_auth s of
       None \<Rightarrow> State_Monad.return None
     | Some auth \<Rightarrow>
         if lifecycle \<noteq> s_lifecycle s then State_Monad.return None
         else (case e_marshalAuth env (au_data auth) of
                 None \<Rightarrow> State_Monad.return (Some BadJSON)
               | Some raw \<Rightarrow> write_session env (s_account s) raw)
   }"

definition remove_session :: "env \<Rightarrow> store_err option prog" where
  "remove_session env = do {
     s \<leftarrow> State_Monad.get;
     let (err, d) = DeleteAuth (e_faults env) (s_account s) (s_store s);
     act (RemoveSession err);
     State_Monad.update (\<lambda>s. s\<lparr>s_store := d\<rparr>);
     State_Monad.return err
   }"

subsection \<open>Correlation, dirty threads and the event queue\<close>

definition sweepPending :: "unit prog" where
  "sweepPending = State_Monad.update (\<lambda>s.
     s\<lparr>s_pending := filter (\<lambda>(txn, send). \<not> ps_at send < s_now s - pendingTTL) (s_pending s)\<rparr>)"

definition conversationOf :: "relay_event \<Rightarrow> go_string" where
  "conversationOf evt =
     (case evt of
        Ev_Conversation c \<Rightarrow> pc_ConversationID c
      | Ev_Message (Some m) _ \<Rightarrow> pm_ConversationID m
      | Ev_Typing conv _ _ \<Rightarrow> conv
      | _ \<Rightarrow> [])"

definition mark_dirty :: "go_string \<Rightarrow> session \<Rightarrow> session" where
  "mark_dirty convID s =
     (if convID \<in> s_dirtyConvs s then s
      else
        let s = (if length (s_dirtyOrder s) \<ge> maxDirtyConvs
                 then s\<lparr>s_dirtyConvs := s_dirtyConvs s - {hd (s_dirtyOrder s)},
                        s_dirtyOrder := tl (s_dirtyOrder s)\<rparr>
                 else s)
        in s\<lparr>s_dirtyConvs := insert convID (s_dirtyConvs s),
             s_dirtyOrder := s_dirtyOrder s @ [convID]\<rparr>)"

definition markDirty :: "go_string \<Rightarrow> unit prog" where
  "markDirty convID = State_Monad.update (mark_dirty convID)"

definition takeDirty :: "env \<Rightarrow> go_string list prog" where
  "takeDirty env = State (\<lambda>s.
     (e_order env (s_dirtyConvs s), s\<lparr>s_dirtyConvs := {}, s_dirtyOrder := []\<rparr>))"

definition requestResync :: "unit prog" where
  "requestResync = do {
     s \<leftarrow> State_Monad.get;
     if s_resyncing s then State_Monad.return ()
     else do {
       State_Monad.update (\<lambda>s. s\<lparr>s_resyncing := True\<rparr>);
       act (Spawn Task_resync)
     }
   }"

definition enqueue :: "queued_event \<Rightarrow> queued_event list \<Rightarrow> bool \<times> queued_event list" where
  "enqueue q es = (if length es < eventQueue then (True, es @ [q]) else (False, tl es @ [q]))"

text \<open>The handler \<open>buildClient\<close> installs: the closure keeps the client generation \<open>gen\<close>.\<close>

definition relay_signal :: "u64 \<Rightarrow> relay_event \<Rightarrow> unit prog" where
  "relay_signal gen evt = do {
     s \<leftarrow> State_Monad.get;
     if s_clientGen s \<noteq> gen then State_Monad.return ()
     else do {
       let (room, es) = enqueue \<lparr>q_lifecycle = s_lifecycle s, q_event = evt\<rparr> (s_events s);
       State_Monad.update (\<lambda>s. s\<lparr>s_events := es\<rparr>);
       if room then State_Monad.return ()
       else do {
         do_when (conversationOf evt \<noteq> []) (markDirty (conversationOf evt));
         requestResync
       }
     }
   }"

definition buildClient :: "nat prog" where
  "buildClient = do {
     c \<leftarrow> fresh;
     State_Monad.update (\<lambda>s. s\<lparr>s_clientGen := s_clientGen s + 1, s_client := Some c\<rparr>);
     State_Monad.return c
   }"

definition runEventLoop :: "unit prog" where
  "runEventLoop = do {
     s \<leftarrow> State_Monad.get;
     if s_loopStarted s then State_Monad.return ()
     else do {
       State_Monad.update (\<lambda>s. s\<lparr>s_loopStarted := True\<rparr>);
       act (Spawn Task_eventLoop)
     }
   }"

definition runConnectLoop :: "unit prog" where
  "runConnectLoop = do {
     stop_connecting;
     c \<leftarrow> fresh;
     State_Monad.update (\<lambda>s. s\<lparr>s_connectCancel := Some c\<rparr>);
     act (Spawn (Task_connectLoop c))
   }"

definition wallClockJumped :: "int \<Rightarrow> int \<Rightarrow> bool" where
  "wallClockJumped previous now \<longleftrightarrow> now - previous > resumeGapThreshold + resumeCheckInterval"

subsection \<open>The two counters\<close>

text \<open>Both generation counters make the same promise to their users: a bump never gives back the
  value it replaces, and zero (the wire's ``ungrouped'', the value of a fresh session) is never
  minted.\<close>

locale fence_counter =
  fixes bump :: "u64 \<Rightarrow> u64"
  assumes succ_or_one: "bump v = v + 1 \<or> (v + 1 = 0 \<and> bump v = 1)"
    and nonzero: "bump v \<noteq> 0"
begin

lemma moves: "bump v \<noteq> v"
proof
  assume "bump v = v"
  with succ_or_one [of v] have v: "v + 1 = 0" "v = 1" by auto
  from v(1) have "(1 :: u64) + 1 = 0" unfolding v(2) .
  then show False by simp
qed

lemma steps_by_one: "v + 1 \<noteq> 0 \<Longrightarrow> bump v = v + 1"
  using succ_or_one [of v] by blast

lemma run_of_bumps: "unat v + n < 2 ^ 64 \<Longrightarrow> (bump ^^ n) v = v + of_nat n"
proof (induction n)
  case (Suc n)
  then have ih: "(bump ^^ n) v = v + of_nat n" by simp
  have "unat (v + of_nat n + 1) = unat v + Suc n"
    using Suc.prems by (simp add: unat_word_ariths unat_of_nat)
  then have "v + of_nat n + 1 \<noteq> 0" by (metis Zero_not_Suc add_is_0 unat_0)
  with steps_by_one [of "v + of_nat n"] show ?case by (simp add: ih algebra_simps)
qed simp

text \<open>So a value handed out earlier is not current again before 2 to the 64 bumps.\<close>

lemma no_early_return: "0 < n \<Longrightarrow> unat v + n < 2 ^ 64 \<Longrightarrow> (bump ^^ n) v \<noteq> v"
proof
  assume n: "0 < n" "unat v + n < 2 ^ 64" and "(bump ^^ n) v = v"
  then have "v + of_nat n = v" using run_of_bumps by simp
  then have "of_nat n = (0 :: u64)" by simp
  moreover have "unat (of_nat n :: u64) = n" using n by (simp add: unat_of_nat)
  ultimately show False using n by simp
qed

end

interpretation lifecycle: fence_counter next_lifecycle
  by unfold_locales (auto simp: next_lifecycle_def Let_def)

interpretation sync_gen: fence_counter next_sync_gen
  by unfold_locales (auto simp: next_sync_gen_def Let_def)

subsection \<open>Triples of the primitives\<close>

lemma wp_act [wp_simps]: "wp (act a) Q s = Q () (s\<lparr>s_trace := s_trace s @ [stamp s a]\<rparr>)"
  by (simp add: act_def wp_simps)

lemma wp_rpc_call [wp_simps]:
  "wp (rpc_call env c q) Q s = (case e_relay env c q s of
     (r, t) \<Rightarrow> Q r (t\<lparr>s_trace := s_trace s @ [stamp s (Call c q)]\<rparr>))"
  by (simp add: rpc_call_def wp_simps split: prod.split)

lemma wp_pause [wp_simps]:
  "wp (pause env d) Q s = (case e_wait env d s of
     (w, t) \<Rightarrow> Q w (t\<lparr>s_trace := s_trace s @ [stamp s (Pause d)]\<rparr>))"
  by (simp add: pause_def wp_simps split: prod.split)

lemma wp_fresh [wp_simps]: "wp fresh Q s = Q (s_fresh s) (s\<lparr>s_fresh := Suc (s_fresh s)\<rparr>)"
  by (simp add: fresh_def wp_simps)

lemma wp_cancel [wp_simps]:
  "wp (cancel c) Q s = Q () (s\<lparr>s_trace := s_trace s @ [stamp s (Cancel c)],
                               s_cancelled := c # s_cancelled s\<rparr>)"
  by (simp add: cancel_def wp_simps)

lemma wp_bumpLifecycle [wp_simps]:
  "wp bumpLifecycle Q s
     = Q (next_lifecycle (s_lifecycle s)) (s\<lparr>s_lifecycle := next_lifecycle (s_lifecycle s)\<rparr>)"
  by (simp add: bumpLifecycle_def wp_simps Let_def)

lemma wp_nextGeneration [wp_simps]:
  "wp nextGeneration Q s
     = Q (next_sync_gen (s_syncGen s)) (s\<lparr>s_syncGen := next_sync_gen (s_syncGen s)\<rparr>)"
  by (simp add: nextGeneration_def wp_simps Let_def)

lemma wp_fire [wp_simps]:
  "wp (fire evt) Q s
     = (if s_closed s then Q () s else Q () (s\<lparr>s_trace := s_trace s @ [stamp s (Emit evt)]\<rparr>))"
  by (simp add: fire_def alive_def wp_simps)

lemma wp_fireIfCurrent [wp_simps]:
  "wp (fireIfCurrent lc evt) Q s
     = (if s_lifecycle s \<noteq> lc \<or> s_closed s then Q () s
        else Q () (s\<lparr>s_trace := s_trace s @ [stamp s (Emit evt)]\<rparr>))"
  by (simp add: fireIfCurrent_def wp_simps)

lemma wp_takeDirty [wp_simps]:
  "wp (takeDirty env) Q s
     = Q (e_order env (s_dirtyConvs s)) (s\<lparr>s_dirtyConvs := {}, s_dirtyOrder := []\<rparr>)"
  by (simp add: takeDirty_def wp_simps)

lemmas small_progs = stop_pairing_def stop_connecting_def buildClient_def runEventLoop_def
  runConnectLoop_def sweepPending_def markDirty_def requestResync_def

end
