(* ===== verification/TextOps.thy ===== *)
theory TextOps
  imports RelayMap
begin

text \<open>
  The pure text handling of \<open>adapter/messages.go\<close>: message text, transports, sender keys and
  attachment names.
\<close>

fun messageTransport :: "int \<Rightarrow> go_string" where
  "messageTransport kind =
     (if kind = 1 \<or> kind = 2 \<or> kind = 3 then ''sms'' else if kind = 4 then ''rcs'' else [])"

definition senderKeyOf :: "pb_message \<Rightarrow> go_string" where
  "senderKeyOf msg =
     (let key = senderKey (get_ID (pm_SenderParticipant msg))
      in if key \<noteq> [] then key else pm_ParticipantID msg)"

subsection \<open>Message text\<close>

text \<open>\<open>strings.ReplaceAll(text, "\r\n", "\n")\<close>.\<close>

fun replace_crlf :: "go_string \<Rightarrow> go_string" where
  "replace_crlf (c # d # s) =
     (if c = CHR 0x0D \<and> d = CHR 0x0A then CHR 0x0A # replace_crlf s
      else c # replace_crlf (d # s))"
| "replace_crlf s = s"

definition keep_rune :: "rune \<Rightarrow> bool" where
  "keep_rune r \<longleftrightarrow> r = 0x0A \<or> r = 0x09 \<or> \<not> (r < 0x20 \<or> r = 0x7F)"

definition sanitizeText :: "go_string \<Rightarrow> go_string" where
  "sanitizeText text = encode_runes (filter keep_rune (runes (replace_crlf text)))"

definition clean_text :: "go_string \<Rightarrow> bool" where
  "clean_text s \<longleftrightarrow> valid_utf8 s \<and> list_all keep_rune (runes s)"

lemma replace_crlf_no_cr: "CHR 0x0D \<notin> set s \<Longrightarrow> replace_crlf s = s"
  by (induction s rule: replace_crlf.induct) auto

lemma clean_text_sanitizeText: "clean_text (sanitizeText t)"
proof -
  have v: "list_all valid_rune (filter keep_rune (runes (replace_crlf t)))"
    using runes_valid [of "replace_crlf t"] by (auto simp: list_all_iff)
  then show ?thesis
    by (simp add: clean_text_def sanitizeText_def valid_utf8_encode_runes list_all_iff)
qed

lemma clean_text_bytes: "clean_text s \<Longrightarrow> c \<in> set s \<Longrightarrow> byte c < 0x80 \<Longrightarrow> keep_rune (byte c)"
  using ascii_byte_in_runes [of c s] by (auto simp: clean_text_def list_all_iff)

lemma sanitizeText_clean: "clean_text s \<Longrightarrow> sanitizeText s = s"
proof -
  assume c: "clean_text s"
  then have "CHR 0x0D \<notin> set s"
    using clean_text_bytes [OF c, of "CHR 0x0D"] by (auto simp: keep_rune_def)
  with c show ?thesis
    by (simp add: sanitizeText_def replace_crlf_no_cr clean_text_def valid_utf8_def
        list_all_iff)
qed

subsection \<open>Attachment names\<close>

definition path_sep :: "char \<Rightarrow> bool" where
  "path_sep c \<longleftrightarrow> c = CHR ''/'' \<or> c = CHR 0x5C"

text \<open>The part after \<open>strings.LastIndexAny(base, "/\\")\<close>.\<close>

definition base_name :: "go_string \<Rightarrow> go_string" where
  "base_name s = rev (takeWhile (\<lambda>c. \<not> path_sep c) (rev s))"

definition control_rune :: "rune \<Rightarrow> bool" where
  "control_rune r \<longleftrightarrow> r = 0 \<or> r = 0x0A \<or> r = 0x0D \<or> r = 0x09 \<or> r < 0x20 \<or> r = 0x7F"

text \<open>One round of the truncation loop drops the last rune, or one malformed byte.\<close>

definition cut_last :: "go_string \<Rightarrow> go_string" where
  "cut_last base =
     (let size = snd (decode_last_rune base)
      in take (length base - (if size \<le> 1 then 1 else size)) base)"

lemma length_cut_last: "s \<noteq> [] \<Longrightarrow> length (cut_last s) < length s"
  by (simp add: cut_last_def Let_def)

function truncate_name :: "go_string \<Rightarrow> go_string" where
  "truncate_name base = (if length base > 255 then truncate_name (cut_last base) else base)"
  by pat_completeness auto
termination
proof (relation "measure length")
  fix base :: go_string
  assume "length base > 255"
  then show "(cut_last base, base) \<in> measure length"
    using length_cut_last [of base] by (cases base) auto
qed simp

declare truncate_name.simps [simp del]

definition reserved_name :: "go_string \<Rightarrow> bool" where
  "reserved_name s \<longleftrightarrow> s = [] \<or> s = ''.'' \<or> s = ''..''"

definition sanitizeName :: "go_string \<Rightarrow> go_string option" where
  "sanitizeName name =
     (let base = trim_space (base_name name) in
      if reserved_name base then None
      else if list_ex control_rune (runes base) then None
      else let short = truncate_name base in
        if reserved_name short then None else Some short)"

lemma cut_last_prefix: "prefix (cut_last s) s"
  by (simp add: cut_last_def Let_def take_is_prefix)

lemma truncate_name_prefix: "prefix (truncate_name s) s"
proof (induction s rule: truncate_name.induct)
  case (1 s)
  then show ?case
    using cut_last_prefix [of s] by (subst truncate_name.simps) (auto intro: prefix_order.trans)
qed

lemma truncate_name_length: "length (truncate_name s) \<le> 255"
proof (induction s rule: truncate_name.induct)
  case (1 s)
  then show ?case by (subst truncate_name.simps) (auto simp: Let_def)
qed

lemma valid_utf8_cut_last: "valid_utf8 s \<Longrightarrow> s \<noteq> [] \<Longrightarrow> valid_utf8 (cut_last s)"
proof (erule valid_utf8E)
  fix rs
  assume v: "list_all valid_rune rs" and s: "s = encode_runes rs" and ne: "s \<noteq> []"
  obtain qs q where q: "rs = qs @ [q]" using s ne by (cases rs rule: rev_cases) auto
  have "cut_last s = encode_runes qs"
    using v q s decode_last_encode [of q "encode_runes qs"]
    by (cases "encode_rune q") (auto simp: cut_last_def Let_def le_Suc_eq)
  then show "valid_utf8 (cut_last s)"
    using v q by (simp add: valid_utf8_encode_runes)
qed

lemma valid_utf8_truncate: "valid_utf8 s \<Longrightarrow> valid_utf8 (truncate_name s)"
proof (induction s rule: truncate_name.induct)
  case (1 s)
  then show ?case
    using valid_utf8_cut_last [of s] by (subst truncate_name.simps) (cases s, auto)
qed

lemma valid_utf8_base_name: "valid_utf8 s \<Longrightarrow> valid_utf8 (base_name s)"
proof -
  assume v: "valid_utf8 s"
  have eq: "s = rev (dropWhile (\<lambda>c. \<not> path_sep c) (rev s)) @ base_name s"
    unfolding base_name_def by (metis rev_append rev_rev_ident takeWhile_dropWhile_id)
  show ?thesis
  proof (cases "dropWhile (\<lambda>c. \<not> path_sep c) (rev s)")
    case Nil
    with eq have "base_name s = s" by simp
    then show ?thesis using v by simp
  next
    case (Cons c cs)
    then have "path_sep c" by (metis dropWhile_eq_Cons_conv)
    then have "byte c < 0x80" by (auto simp: path_sep_def)
    moreover have "s = rev cs @ c # base_name s" using eq Cons by simp
    ultimately show ?thesis using valid_utf8_after_ascii [of "rev cs" c "base_name s"] v by simp
  qed
qed

lemma set_base_name: "c \<in> set (base_name s) \<Longrightarrow> c \<in> set s \<and> \<not> path_sep c"
  unfolding base_name_def by (auto dest: set_takeWhileD)

lemma sanitizeName_Some:
  assumes "sanitizeName name = Some b"
  shows "prefix b (trim_space (base_name name))" and "length b \<le> 255" and "\<not> reserved_name b"
    and "\<not> list_ex control_rune (runes (trim_space (base_name name)))"
  using assms truncate_name_prefix truncate_name_length
  by (auto simp: sanitizeName_def Let_def split: if_splits)

lemma sanitizeName_bytes:
  assumes "sanitizeName name = Some b" and "c \<in> set b"
  shows "c \<in> set name" and "\<not> path_sep c" and "0x20 \<le> byte c" and "byte c \<noteq> 0x7F"
proof -
  have t: "c \<in> set (trim_space (base_name name))"
    using sanitizeName_Some(1) [OF assms(1)] assms(2) by (meson set_mono_prefix subsetD)
  then have "c \<in> set (base_name name)" using set_trim_space by blast
  then show "c \<in> set name" and "\<not> path_sep c" by (auto dest: set_base_name)
  have "byte c < 0x80 \<Longrightarrow> \<not> control_rune (byte c)"
    using sanitizeName_Some(4) [OF assms(1)] ascii_byte_in_runes [OF t] by (auto simp: list_ex_iff)
  then show "0x20 \<le> byte c" and "byte c \<noteq> 0x7F"
    unfolding control_rune_def by (cases "byte c < 0x80"; simp)+
qed

subsection \<open>Properties\<close>

lemma replace_crlf_first:
  "(\<exists>a b. t = a @ CHR 0x0D # CHR 0x0A # b \<and> replace_crlf t = a @ CHR 0x0A # replace_crlf b)
   \<or> replace_crlf t = t"
proof (induction t rule: replace_crlf.induct)
  case (1 c d s)
  show ?case
  proof (cases "c = CHR 0x0D \<and> d = CHR 0x0A")
    case True
    then show ?thesis by (intro disjI1 exI [of _ "[]"] exI [of _ s]) simp
  next
    case False
    from "1.IH"(2) [OF False] consider
      a b where "d # s = a @ CHR 0x0D # CHR 0x0A # b" "replace_crlf (d # s) = a @ CHR 0x0A # replace_crlf b"
      | "replace_crlf (d # s) = d # s" by blast
    then show ?thesis
    proof cases
      case (1 a b)
      have "c # d # s = (c # a) @ CHR 0x0D # CHR 0x0A # b" using 1(1) by simp
      moreover have "replace_crlf (c # d # s) = (c # a) @ CHR 0x0A # replace_crlf b" using False 1(2) by auto
      ultimately show ?thesis by blast
    qed (use False in auto)
  qed
qed simp_all

lemma runes_replace_crlf:
  "\<not> P 0x0D \<Longrightarrow> filter P (runes (replace_crlf t)) = filter P (runes t)"
proof (induction t rule: length_induct)
  case (1 t)
  from replace_crlf_first [of t] show ?case
  proof (elim disjE exE conjE)
    fix a b assume t: "t = a @ CHR 0x0D # CHR 0x0A # b" and r: "replace_crlf t = a @ CHR 0x0A # replace_crlf b"
    have "filter P (runes (replace_crlf b)) = filter P (runes b)" using 1 t by simp
    then show ?thesis
      unfolding r unfolding t by (simp add: runes_split runes_ascii_Cons "1.prems")
  qed simp
qed


text \<open>What may be in a text: everything but the C0 controls (other than tab and newline) and DEL.\<close>

definition readable :: "rune \<Rightarrow> bool" where
  "readable r \<longleftrightarrow> r = 0x09 \<or> r = 0x0A \<or> 0x20 \<le> r \<and> r \<noteq> 0x7F"

text \<open>C15: \<open>sanitizeText\<close> removes exactly the runes U+0000 to U+001F, other than tab and newline, and
  U+007F from the text; so a CRLF becomes a newline and a lone carriage return goes. The result is
  valid UTF-8, and none of its bytes is a control in that sense; valid text without such runes is
  not altered, and a second pass changes nothing. Other control characters (U+0080 to U+009F) stay.\<close>

theorem sanitizeText_spec:
  "runes (sanitizeText t) = filter readable (runes t)
   \<and> valid_utf8 (sanitizeText t)
   \<and> (\<forall>c \<in> set (sanitizeText t). byte c = 0x09 \<or> byte c = 0x0A \<or> 0x20 \<le> byte c \<and> byte c \<noteq> 0x7F)
   \<and> (valid_utf8 t \<and> list_all readable (runes t) \<longrightarrow> sanitizeText t = t)
   \<and> sanitizeText (sanitizeText t) = sanitizeText t"
proof -
  have k: "keep_rune = readable" by (rule ext) (auto simp: readable_def keep_rune_def)
  have v: "list_all valid_rune (filter readable (runes t))"
    using runes_valid [of t] by (auto simp: list_all_iff)
  have s: "sanitizeText t = encode_runes (filter readable (runes t))"
    unfolding sanitizeText_def k by (subst runes_replace_crlf) (simp_all add: readable_def)
  have "byte c = 0x09 \<or> byte c = 0x0A \<or> 0x20 \<le> byte c \<and> byte c \<noteq> 0x7F" if "c \<in> set (sanitizeText t)" for c
    using clean_text_bytes [OF clean_text_sanitizeText that] unfolding k readable_def
    by (cases "byte c < 0x80") auto
  moreover have "sanitizeText t = t" if "valid_utf8 t \<and> list_all readable (runes t)"
    using sanitizeText_clean [of t] that by (simp add: clean_text_def k)
  ultimately show ?thesis
    using v s sanitizeText_clean [OF clean_text_sanitizeText, of t] by (simp add: valid_utf8_encode_runes)
qed
lemma clean_text_ascii: "list_all (\<lambda>c. byte c < 0x80 \<and> keep_rune (byte c)) s \<Longrightarrow> clean_text s"
proof -
  assume a: "list_all (\<lambda>c. byte c < 0x80 \<and> keep_rune (byte c)) s"
  then have "runes s = map of_char s"
    by (induction s) (auto simp: runes_ascii_Cons)
  moreover have "encode_runes (map of_char s) = s" using a
    by (induction s) (auto simp: encode_rune_def encode_raw_def valid_rune_def)
  ultimately show ?thesis using a
    by (simp add: clean_text_def valid_utf8_def list_all_iff)
qed

theorem sanitizeText_spec_witness:
  "sanitizeText ''plain text'' = ''plain text''
   \<and> keep_rune (byte (CHR ''p'')) \<and> sanitizeText [CHR ''a'', CHR 0x0D, CHR 0x0A, CHR 0x00, CHR ''b'']
       = [CHR ''a'', CHR 0x0A, CHR ''b'']"
proof -
  have "clean_text ''plain text''"
    by (rule clean_text_ascii) (simp add: keep_rune_def)
  then have "valid_utf8 ''plain text'' \<and> list_all readable (runes ''plain text'')"
    by (auto simp: clean_text_def list_all_iff keep_rune_def readable_def)
  then have "sanitizeText ''plain text'' = ''plain text''"
    using sanitizeText_spec [of "''plain text''"] by blast
  then show ?thesis
    by (simp add: keep_rune_def sanitizeText_def runes_ascii_Cons encode_rune_def encode_raw_def
        valid_rune_def char_of_def)
qed

text \<open>C16: A name \<open>sanitizeName\<close> accepts is a safe file name: at most 255 bytes, not empty, not a
  dot name, without path separators and without control bytes, a prefix of the trimmed base name
  of the input, and valid UTF-8 whenever the input is, so truncation never splits a rune.\<close>

theorem sanitizeName_safe:
  assumes "sanitizeName name = Some b"
  shows "length b \<le> 255 \<and> \<not> reserved_name b
    \<and> (\<forall>c \<in> set b. c \<noteq> CHR ''/'' \<and> c \<noteq> CHR 0x5C \<and> 0x20 \<le> byte c \<and> byte c \<noteq> 0x7F)
    \<and> prefix b (trim_space (base_name name))
    \<and> (valid_utf8 name \<longrightarrow> valid_utf8 b)"
proof -
  have "valid_utf8 name \<longrightarrow> valid_utf8 b"
    using assms valid_utf8_truncate valid_utf8_trim_space valid_utf8_base_name
    by (auto simp: sanitizeName_def Let_def split: if_splits)
  then show ?thesis
    using sanitizeName_Some [OF assms] sanitizeName_bytes [OF assms]
    by (auto simp: path_sep_def)
qed

theorem sanitizeName_safe_witness:
  "sanitizeName ''/tmp/../x'' = Some ''x'' \<and> \<not> reserved_name ''x''"
proof -
  have b: "base_name ''/tmp/../x'' = ''x''" by (simp add: base_name_def path_sep_def)
  have "trim_space ''x'' = ''x''"
    by (simp add: trim_space_def trim_left.simps trim_right.simps is_space_def
        decode_last_rune_def decode_rune.simps(2))
  then have "sanitizeName ''/tmp/../x'' = Some ''x''"
    by (simp add: sanitizeName_def b reserved_name_def control_rune_def runes_ascii_Cons
        truncate_name.simps)
  then show ?thesis using sanitizeName_safe [of "''/tmp/../x''" "''x''"] by blast
qed

end
