(* ===== verification/MediaOps.thy ===== *)
theory MediaOps
  imports SessionState TextOps
begin

text \<open>
  The stateful half of \<open>adapter/messages.go\<close> and the message cache of \<open>adapter/sync.go\<close>: mapping
  a relay message into wire form, staging its media, and remembering it for cursor recovery.
  Staged files are entries of \<open>s_staged\<close> under their base name; the path the daemon sees is
  \<open>stage_path\<close>.
\<close>

subsection \<open>The message cache\<close>

definition maxCachedConvs :: nat where "maxCachedConvs = 1024"

definition isSelfSender :: "pb_message \<Rightarrow> session \<Rightarrow> bool" where
  "isSelfSender msg s \<longleftrightarrow>
     (let sender = (if pm_ParticipantID msg = []
                    then get_ParticipantID (get_ID (pm_SenderParticipant msg))
                    else pm_ParticipantID msg)
      in sender = selfSentinel \<or> sender \<in> s_selfIDs s)"

definition cachedTS :: "go_string \<Rightarrow> go_string \<Rightarrow> session \<Rightarrow> int" where
  "cachedTS convID msgID s =
     (case map_of (s_cache s) convID of
        None \<Rightarrow> 0
      | Some entries \<Rightarrow> (case find (\<lambda>e. k_id e = msgID) entries of None \<Rightarrow> 0 | Some e \<Rightarrow> k_ts e))"

text \<open>\<open>sweepCaches\<close>: drop windows while there are more than \<open>maxCachedConvs\<close>; \<open>pick\<close> is the position
  of the key a range over the map yields first.\<close>

function sweepCaches ::
  "(nat \<Rightarrow> nat) \<Rightarrow> (go_string \<times> cached_message list) list \<Rightarrow> (go_string \<times> cached_message list) list" where
  "sweepCaches pick cache =
     (if length cache > maxCachedConvs
      then sweepCaches pick
             (AList.delete (fst (cache ! (pick (length cache) mod length cache))) cache)
      else cache)"
  by pat_completeness auto

termination
proof (relation "measure (length \<circ> snd)")
  fix pick :: "nat \<Rightarrow> nat" and cache :: "(go_string \<times> cached_message list) list"
  assume "length cache > maxCachedConvs"
  then have "cache \<noteq> []" by auto
  then have i: "pick (length cache) mod length cache < length cache" by simp
  let ?k = "fst (cache ! (pick (length cache) mod length cache))"
  have "cache ! (pick (length cache) mod length cache) \<in> set cache" using i by (rule nth_mem)
  then have "length (filter (\<lambda>(k, _). k \<noteq> ?k) cache) < length cache"
    by (intro length_filter_less) auto
  then show "((pick, AList.delete ?k cache), pick, cache) \<in> measure (length \<circ> snd)"
    by (simp add: AList.delete_eq case_prod_beta eq_commute)
qed simp

declare sweepCaches.simps [simp del]

primrec update_entry :: "cached_message \<Rightarrow> cached_message list \<Rightarrow> cached_message list" where
  "update_entry e [] = []"
| "update_entry e (x # xs) = (if k_id x = k_id e then e # xs else x # update_entry e xs)"

definition remember ::
  "(nat \<Rightarrow> nat) \<Rightarrow> go_string \<Rightarrow> cached_message
     \<Rightarrow> (go_string \<times> cached_message list) list \<Rightarrow> (go_string \<times> cached_message list) list" where
  "remember pick convID entry cache =
     (let entries = (case map_of cache convID of None \<Rightarrow> [] | Some es \<Rightarrow> es) in
      if \<exists>e \<in> set entries. k_id e = k_id entry
      then AList.update convID (update_entry entry entries) cache
      else
        let entries = entries @ [entry];
            entries = drop (length entries - cachePerConv) entries
        in sweepCaches pick (AList.update convID entries cache))"

definition rememberMessage :: "env \<Rightarrow> go_string \<Rightarrow> pb_message \<Rightarrow> bool \<Rightarrow> unit prog" where
  "rememberMessage env convID msg self = State_Monad.update (\<lambda>s.
     s\<lparr>s_cache := remember (e_pick env) convID
        \<lparr>k_id = pm_MessageID msg, k_ts = pm_Timestamp msg, k_status = pm_Status msg, k_self = self\<rparr>
        (s_cache s)\<rparr>)"

subsection \<open>Staging files\<close>

definition stage_path :: "env \<Rightarrow> go_string \<Rightarrow> go_string" where
  "stage_path env n = e_stageDir env @ CHR ''/'' # n"

definition uniquePath :: "faults \<Rightarrow> dir \<Rightarrow> go_string \<Rightarrow> go_string option" where
  "uniquePath fl staged name =
     find (\<lambda>n. map_of staged n = None \<and> \<not> fl SysInfo n)
       (name # map (\<lambda>i. format_nat i @ CHR ''-'' # name) [2..<1000])"

definition safe_name :: "go_string \<Rightarrow> go_string" where
  "safe_name name = (case sanitizeName name of Some n \<Rightarrow> n | None \<Rightarrow> ''attachment'')"

definition new_staged :: "int \<Rightarrow> bytes \<Rightarrow> dfile" where
  "new_staged now data =
     \<lparr>f_bytes = data, f_mode = mode_0600, f_mtime = now, f_regular = True, f_synced = False\<rparr>"

definition put_staged :: "go_string \<Rightarrow> bytes \<Rightarrow> unit prog" where
  "put_staged n data = State_Monad.update (\<lambda>s.
     s\<lparr>s_staged := AList.update n (new_staged (s_now s) data) (s_staged s)\<rparr>)"

definition drop_staged :: "env \<Rightarrow> go_string \<Rightarrow> unit prog" where
  "drop_staged env n = State_Monad.update (\<lambda>s.
     s\<lparr>s_staged := snd (os_remove (e_faults env) n (s_staged s))\<rparr>)"

definition run_maybeSweep :: "env \<Rightarrow> unit prog" where
  "run_maybeSweep env = State_Monad.update (\<lambda>s.
     case maybeSweep (e_sorter env) (e_faults env) (s_now s) (s_sweep s) (s_staged s) (s_store s) of
       (sw, staged, d) \<Rightarrow> s\<lparr>s_sweep := sw, s_staged := staged, s_store := d\<rparr>)"

text \<open>Failures of the staging calls are \<open>None\<close>; the caller only tests for one.\<close>

definition writeStaged :: "env \<Rightarrow> go_string \<Rightarrow> bytes \<Rightarrow> go_string option prog" where
  "writeStaged env name data =
     (if length data > MaxStagedBytes then State_Monad.return None
      else if e_faults env SysMkdir ''staged'' then State_Monad.return None
      else do {
        s \<leftarrow> State_Monad.get;
        case uniquePath (e_faults env) (s_staged s) (safe_name name) of
          None \<Rightarrow> State_Monad.return None
        | Some n \<Rightarrow>
            if e_faults env SysCreateTemp n then State_Monad.return None
            else if e_faults env SysWrite n then do {
              put_staged n (take (e_partial env) data);
              drop_staged env n;
              State_Monad.return None
            }
            else do {
              put_staged n data;
              run_maybeSweep env;
              State_Monad.return (Some (stage_path env n))
            }
      })"

definition streamStaged :: "env \<Rightarrow> nat \<Rightarrow> go_string \<Rightarrow> bytes \<Rightarrow> go_string \<Rightarrow> go_string option prog" where
  "streamStaged env client mediaID key name = do {
     resp \<leftarrow> rpc_call env client (DownloadMedia mediaID key);
     if rp_err resp \<noteq> None then State_Monad.return None
     else if e_faults env SysMkdir ''staged'' then State_Monad.return None
     else do {
       s \<leftarrow> State_Monad.get;
       case uniquePath (e_faults env) (s_staged s) (safe_name name) of
         None \<Rightarrow> State_Monad.return None
       | Some n \<Rightarrow>
           if e_faults env SysCreateTemp n then State_Monad.return None
           else do {
             let wrote = take (MaxStagedBytes + 1) (rp_stream resp);
             put_staged n (if e_faults env SysWrite n then take (e_partial env) wrote else wrote);
             if (rp_streamErr resp \<and> length wrote \<le> MaxStagedBytes) \<or> e_faults env SysWrite n
             then do { drop_staged env n; State_Monad.return None }
             else if length wrote > MaxStagedBytes
             then do { drop_staged env n; State_Monad.return None }
             else do {
               run_maybeSweep env;
               State_Monad.return (Some (stage_path env n))
             }
           }
     }
   }"

definition fullReqTTL :: int where "fullReqTTL = hour"

definition requestFullSize :: "env \<Rightarrow> nat \<Rightarrow> go_string \<Rightarrow> go_string \<Rightarrow> unit prog" where
  "requestFullSize env client msgID actionID =
     (if actionID = [] then State_Monad.return ()
      else do {
        let key = msgID @ CHR 0x00 # actionID;
        State_Monad.update (\<lambda>s.
          s\<lparr>s_fullReq := filter (\<lambda>(known, at). \<not> at < s_now s - fullReqTTL) (s_fullReq s)\<rparr>);
        s \<leftarrow> State_Monad.get;
        if map_of (s_fullReq s) key \<noteq> None then State_Monad.return ()
        else do {
          State_Monad.update (\<lambda>s. s\<lparr>s_fullReq := AList.update key (s_now s) (s_fullReq s)\<rparr>);
          rpc_call env client (GetFullSizeImage msgID actionID);
          State_Monad.return ()
        }
      })"

definition stream_part ::
  "env \<Rightarrow> nat \<Rightarrow> go_string \<Rightarrow> bytes \<Rightarrow> go_string \<Rightarrow> go_string option prog" where
  "stream_part env client mediaID key name =
     (if mediaID \<noteq> [] \<and> key \<noteq> [] then streamStaged env client mediaID key name
      else State_Monad.return None)"

definition downloadPart ::
  "env \<Rightarrow> go_string \<Rightarrow> go_string \<Rightarrow> media_content \<Rightarrow> go_string option prog" where
  "downloadPart env msgID actionID part =
     (if mc_MediaData part \<noteq> [] then writeStaged env (mc_MediaName part) (mc_MediaData part)
      else do {
        s \<leftarrow> State_Monad.get;
        case s_client s of
          None \<Rightarrow> State_Monad.return None
        | Some client \<Rightarrow> do {
            whole \<leftarrow> stream_part env client (mc_MediaID part) (mc_DecryptionKey part) (mc_MediaName part);
            case whole of
              Some path \<Rightarrow> State_Monad.return (Some path)
            | None \<Rightarrow> do {
                thumb \<leftarrow> stream_part env client (mc_ThumbnailMediaID part)
                           (mc_ThumbnailDecryptionKey part) (mc_MediaName part);
                case thumb of
                  Some path \<Rightarrow> State_Monad.return (Some path)
                | None \<Rightarrow> do {
                    requestFullSize env client msgID actionID;
                    State_Monad.return None
                  }
              }
          }
      })"

subsection \<open>Mapping a message\<close>

definition action_id :: "pb_message \<Rightarrow> nat \<Rightarrow> go_string" where
  "action_id msg index =
     (if length (pm_MessageInfo msg) > index then mi_ActionMessageID (pm_MessageInfo msg ! index)
      else [])"

definition stageMedia ::
  "env \<Rightarrow> pb_message \<Rightarrow> media_content \<Rightarrow> nat \<Rightarrow> bool \<Rightarrow> attachment prog" where
  "stageMedia env msg part index download =
     (let actionID = action_id msg index;
          localID = (if actionID = [] then pm_MessageID msg @ ''-part-'' @ format_nat index
                     else actionID);
          attachment =
            \<lparr>a_LocalID = localID, a_MIME = mc_MimeType part, a_Name = mc_MediaName part,
             a_SizeBytes = (if mc_Size part > 0 then Some (nat (mc_Size part)) else None),
             a_StagedPath = []\<rparr>
      in if \<not> download then State_Monad.return attachment
         else do {
           path \<leftarrow> downloadPart env (pm_MessageID msg) actionID part;
           State_Monad.return (case path of
               None \<Rightarrow> attachment
             | Some p \<Rightarrow> attachment\<lparr>a_StagedPath := p\<rparr>)
         })"

primrec stage_all ::
  "env \<Rightarrow> pb_message \<Rightarrow> bool \<Rightarrow> nat \<Rightarrow> media_content list \<Rightarrow> attachment list prog" where
  "stage_all env msg download i [] = State_Monad.return []"
| "stage_all env msg download i (part # parts) = do {
     a \<leftarrow> stageMedia env msg part i download;
     as \<leftarrow> stage_all env msg download (Suc i) parts;
     State_Monad.return (a # as)
   }"

fun go_join :: "go_string \<Rightarrow> go_string list \<Rightarrow> go_string" where
  "go_join sep [] = []"
| "go_join sep [x] = x"
| "go_join sep (x # y # xs) = x @ sep @ go_join sep (y # xs)"

definition reply_target :: "go_string \<Rightarrow> pb_message \<Rightarrow> go_string" where
  "reply_target convID msg =
     (case pm_ReplyMessage msg of
        None \<Rightarrow> []
      | Some r \<Rightarrow>
          if rm_MessageID r \<noteq> [] \<and> (rm_ConversationID r = [] \<or> rm_ConversationID r = convID)
          then rm_MessageID r else [])"

text \<open>The result is Go's pair: the mapped message or nil, and the id of a removed message or \<open>""\<close>.\<close>

definition mapMessage ::
  "env \<Rightarrow> go_string \<Rightarrow> pb_message option \<Rightarrow> bool \<Rightarrow> u64 \<Rightarrow> (message option \<times> go_string) prog" where
  "mapMessage env convID m download lifecycle =
     (case m of
        None \<Rightarrow> State_Monad.return (None, [])
      | Some msg \<Rightarrow>
          if pm_MessageID msg = [] then State_Monad.return (None, [])
          else do {
            s \<leftarrow> State_Monad.get;
            if \<not> current lifecycle s then State_Monad.return (None, [])
            else if isTombstone (pm_Status msg) then State_Monad.return (None, [])
            else if isDeletion (pm_Status msg) then State_Monad.return (None, pm_MessageID msg)
            else do {
              rememberMessage env convID msg (isSelfSender msg s);
              let texts = textParts msg;
              let media = mediaParts msg;
              attachments \<leftarrow> stage_all env msg download 0 media;
              s' \<leftarrow> State_Monad.get;
              if \<not> current lifecycle s' then State_Monad.return (None, [])
              else if texts = [] \<and> media = [] then State_Monad.return (None, [])
              else State_Monad.return (Some
                \<lparr>m_LocalID = pm_MessageID msg,
                 m_Sender = senderKeyOf msg,
                 m_Transport = messageTransport (pm_Type msg),
                 m_SentAt = (if pm_Timestamp msg \<noteq> 0 then Some (pm_Timestamp msg) else None),
                 m_Text = go_join [CHR 0x0A] (map sanitizeText texts),
                 m_Attachments = attachments,
                 m_ReplyTo = reply_target convID msg,
                 m_Reactions = mapReactions (pm_Reactions msg),
                 m_Deleted = False\<rparr>, [])
            }
          })"

end
