(* ===== verification/SyncOps.thy ===== *)
theory SyncOps
  imports MediaOps
begin

text \<open>
  The stateful half of \<open>adapter/sync.go\<close>: listing and emitting conversations, paging a thread
  window, and processing a live message.
\<close>

definition maxSyncPages :: nat where "maxSyncPages = 10"
definition recentWindowRefresh :: nat where "recentWindowRefresh = 10"

subsection \<open>Conversations\<close>

definition getConversation :: "env \<Rightarrow> go_string \<Rightarrow> (go_error + pb_conversation option) prog" where
  "getConversation env convID = do {
     s \<leftarrow> State_Monad.get;
     case s_client s of
       None \<Rightarrow> State_Monad.return (Inl [ErrOther])
     | Some client \<Rightarrow> do {
         resp \<leftarrow> rpc_call env client (GetConversation convID);
         State_Monad.return (case rp_err resp of Some e \<Rightarrow> Inl e | None \<Rightarrow> Inr (rp_conv resp))
       }
   }"

text \<open>Nil-safe getters of a conversation pointer.\<close>

definition conv_id :: "pb_conversation option \<Rightarrow> go_string" where
  "conv_id c = (case c of None \<Rightarrow> [] | Some c \<Rightarrow> pc_ConversationID c)"

text \<open>Nothing calls it.\<close>

definition threadUnread :: "env \<Rightarrow> go_string \<Rightarrow> bool prog" where
  "threadUnread env convID = do {
     r \<leftarrow> getConversation env convID;
     State_Monad.return (case r of Inr (Some c) \<Rightarrow> pc_Unread c | _ \<Rightarrow> False)
   }"

definition self_ids_of :: "conversation \<Rightarrow> go_string set" where
  "self_ids_of c = set (map p_LocalID (filter p_IsSelf (c_Participants c)))"

definition session_mapConversation ::
  "pb_conversation option \<Rightarrow> (go_string + conversation \<times> convMeta) prog" where
  "session_mapConversation conv = do {
     s \<leftarrow> State_Monad.get;
     case mapConversation conv (s_selfIDs s) of
       Inl e \<Rightarrow> State_Monad.return (Inl e)
     | Inr (mapped, meta) \<Rightarrow> do {
         State_Monad.update (\<lambda>s. s\<lparr>s_selfIDs := s_selfIDs s \<union> self_ids_of mapped\<rparr>);
         State_Monad.return (Inr (mapped, meta))
       }
   }"

definition set_meta :: "go_string \<Rightarrow> convMeta \<Rightarrow> unit prog" where
  "set_meta convID meta = State_Monad.update (\<lambda>s.
     s\<lparr>s_metas := AList.update convID meta (s_metas s)\<rparr>)"

text \<open>The inner loop of the listing: ids seen before and empty ids are skipped.\<close>

fun add_convs ::
  "pb_conversation option list \<Rightarrow> go_string set \<times> pb_conversation list
     \<Rightarrow> go_string set \<times> pb_conversation list" where
  "add_convs [] (seen, all) = (seen, all)"
| "add_convs (None # cs) (seen, all) = add_convs cs (seen, all)"
| "add_convs (Some c # cs) (seen, all) =
     (if pc_ConversationID c = [] \<or> pc_ConversationID c \<in> seen then add_convs cs (seen, all)
      else add_convs cs (insert (pc_ConversationID c) seen, all @ [c]))"

text \<open>One page, with the first page's recovery: re-arm the phone session and ask once more.\<close>

definition fetch_page :: "env \<Rightarrow> nat \<Rightarrow> bool \<Rightarrow> relay_cursor option \<Rightarrow> reply prog" where
  "fetch_page env client first cursor = do {
     resp \<leftarrow> rpc_call env client (ListConversations cursor);
     if rp_err resp = None \<or> \<not> first then State_Monad.return resp
     else do {
       active \<leftarrow> rpc_call env client SetActiveSession;
       if rp_err active = None then rpc_call env client (ListConversations cursor)
       else State_Monad.return resp
     }
   }"

text \<open>\<open>pages\<close> is the number of pages the loop may still fetch.\<close>

primrec list_pages ::
  "env \<Rightarrow> nat \<Rightarrow> u64 \<Rightarrow> nat \<Rightarrow> bool \<Rightarrow> relay_cursor option \<Rightarrow> go_string set \<times> pb_conversation list
     \<Rightarrow> (go_error + pb_conversation list \<times> bool) prog" where
  "list_pages env client lifecycle 0 first cursor acc = State_Monad.return (Inr (snd acc, True))"
| "list_pages env client lifecycle (Suc pages) first cursor acc = do {
     s \<leftarrow> State_Monad.get;
     if \<not> current lifecycle s then State_Monad.return (Inl [ErrOther])
     else do {
       resp \<leftarrow> fetch_page env client first cursor;
       case rp_err resp of
         Some e \<Rightarrow> State_Monad.return (Inl e)
       | None \<Rightarrow>
           let acc' = add_convs (rp_convs resp) acc in
           (case rp_cursor resp of
              None \<Rightarrow> State_Monad.return (Inr (snd acc', False))
            | Some next \<Rightarrow>
                if length (rp_convs resp) < conversationPage \<or> rc_LastItemID next = []
                then State_Monad.return (Inr (snd acc', False))
                else list_pages env client lifecycle pages False (Some next) acc')
     }
   }"

definition listAllConversations ::
  "env \<Rightarrow> nat \<Rightarrow> u64 \<Rightarrow> (go_error + pb_conversation list \<times> bool) prog" where
  "listAllConversations env client lifecycle =
     list_pages env client lifecycle maxSyncPages True None ({}, [])"

definition emitConversations :: "conversation list \<Rightarrow> u64 \<Rightarrow> bool \<Rightarrow> unit prog" where
  "emitConversations threads generation authoritative = do {
     s \<leftarrow> State_Monad.get;
     for_each fire (conversation_events (s_account s) threads generation authoritative)
   }"

definition emitMessages ::
  "go_string \<Rightarrow> message list \<Rightarrow> bool \<Rightarrow> go_string \<Rightarrow> u64 \<Rightarrow> unit prog" where
  "emitMessages convID msgs full cursorNext fetchID = do {
     s \<leftarrow> State_Monad.get;
     generation \<leftarrow>
       (if full \<and> msgs \<noteq> [] \<and> length (chunk_messages (s_account s) convID full msgs []) > 1
        then nextGeneration else State_Monad.return 0);
     for_each fire (message_events (s_account s) convID msgs full cursorNext fetchID generation)
   }"

subsection \<open>Thread windows\<close>

definition window_error :: "u64 \<Rightarrow> go_string \<Rightarrow> unit prog" where
  "window_error lifecycle msg = do {
     s \<leftarrow> State_Monad.get;
     fireIfCurrent lifecycle (error_event (s_account s) msg)
   }"

text \<open>The relay cursor of a daemon cursor: minted ones decode, a bare message id is looked up in the
  cache (microseconds there, milliseconds at the relay). \<open>None\<close> is the unknown-cursor error.\<close>

definition relay_cursor_of :: "go_string \<Rightarrow> go_string \<Rightarrow> session \<Rightarrow> relay_cursor option" where
  "relay_cursor_of convID cursor s =
     (case parseCursor cursor of
        Inr (mid, ts) \<Rightarrow> Some \<lparr>rc_LastItemID = mid, rc_LastItemTimestamp = ts\<rparr>
      | Inl _ \<Rightarrow>
          let ts = cachedTS convID cursor s in
          if cursor = [] \<or> ts = 0 then None
          else Some \<lparr>rc_LastItemID = cursor, rc_LastItemTimestamp = word_of_int (ts sdiv 1000)\<rparr>)"

definition message_removed :: "go_string \<Rightarrow> go_string \<Rightarrow> go_string \<Rightarrow> event" where
  "message_removed account convID mid = (mk_event ''message_removed'')
     \<lparr>ev_Account := account, ev_Conversation := convID, ev_Message := mid\<rparr>"

primrec map_window ::
  "env \<Rightarrow> go_string \<Rightarrow> bool \<Rightarrow> u64 \<Rightarrow> pb_message option list \<Rightarrow> message list prog" where
  "map_window env convID download lifecycle [] = State_Monad.return []"
| "map_window env convID download lifecycle (m # ms) = do {
     (mapped, removed) \<leftarrow> mapMessage env convID m download lifecycle;
     if removed \<noteq> [] then do {
       s \<leftarrow> State_Monad.get;
       fireIfCurrent lifecycle (message_removed (s_account s) convID removed);
       map_window env convID download lifecycle ms
     }
     else do {
       out \<leftarrow> map_window env convID download lifecycle ms;
       State_Monad.return (case mapped of None \<Rightarrow> out | Some m \<Rightarrow> m # out)
     }
   }"

definition window_cursor ::
  "go_string \<Rightarrow> u32 \<Rightarrow> message list \<Rightarrow> relay_cursor option \<Rightarrow> session \<Rightarrow> go_string" where
  "window_cursor convID limit out relayCursor s =
     (case relayCursor of
        Some c \<Rightarrow>
          if rc_LastItemID c \<noteq> [] then mintCursor (rc_LastItemID c) (rc_LastItemTimestamp c)
          else if (of_nat (length out) :: u32) = limit \<and> out \<noteq> [] then
            (let ts = cachedTS convID (m_LocalID (hd out)) s
             in mintCursor (m_LocalID (hd out)) (word_of_int (if ts > 0 then ts sdiv 1000 else ts)))
          else []
      | None \<Rightarrow>
          if (of_nat (length out) :: u32) = limit \<and> out \<noteq> [] then
            (let ts = cachedTS convID (m_LocalID (hd out)) s
             in mintCursor (m_LocalID (hd out)) (word_of_int (if ts > 0 then ts sdiv 1000 else ts)))
          else [])"

text \<open>The part of \<open>emitWindow\<close> after the client and the cursor are settled.\<close>

definition fetch_window ::
  "env \<Rightarrow> nat \<Rightarrow> go_string \<Rightarrow> u32 \<Rightarrow> relay_cursor option \<Rightarrow> bool \<Rightarrow> bool \<Rightarrow> u64 \<Rightarrow> u64 \<Rightarrow> unit prog" where
  "fetch_window env client convID limit rpcCursor full download fetchID lifecycle = do {
     resp \<leftarrow> rpc_call env client (FetchMessages convID limit rpcCursor);
     if rp_err resp \<noteq> None then window_error lifecycle ''history fetch failed''
     else do {
       s \<leftarrow> State_Monad.get;
       if \<not> ownsClient lifecycle client s then State_Monad.return ()
       else do {
         out \<leftarrow> map_window env convID download lifecycle (rp_msgs resp);
         s \<leftarrow> State_Monad.get;
         if \<not> current lifecycle s then State_Monad.return ()
         else emitMessages convID out full (window_cursor convID limit out (rp_cursor resp) s) fetchID
       }
     }
   }"

definition emitWindow ::
  "env \<Rightarrow> go_string \<Rightarrow> u32 \<Rightarrow> go_string option \<Rightarrow> bool \<Rightarrow> bool \<Rightarrow> u64 \<Rightarrow> u64 option \<Rightarrow> unit prog" where
  "emitWindow env convID limit cursor full download fetchID expectedLifecycle = do {
     s \<leftarrow> State_Monad.get;
     let lifecycle = (case expectedLifecycle of Some l \<Rightarrow> l | None \<Rightarrow> s_lifecycle s);
     case s_client s of
       None \<Rightarrow> window_error lifecycle ''not connected''
     | Some client \<Rightarrow>
         if \<not> ownsClient lifecycle client s then State_Monad.return ()
         else (case cursor of
             None \<Rightarrow> fetch_window env client convID limit None full download fetchID lifecycle
           | Some c \<Rightarrow>
               (case relay_cursor_of convID c s of
                  None \<Rightarrow> window_error lifecycle ''unknown history cursor''
                | Some rc \<Rightarrow> fetch_window env client convID limit (Some rc) full download fetchID lifecycle))
   }"

definition FetchHistory ::
  "env \<Rightarrow> go_string \<Rightarrow> u32 \<Rightarrow> go_string option \<Rightarrow> u64 \<Rightarrow> unit prog" where
  "FetchHistory env convID limit cursor fetchID =
     emitWindow env convID (if limit < 1 \<or> limit > 100 then messageWindow else limit)
       cursor False True fetchID None"

subsection \<open>Full sync\<close>

record thread_result =
  tr_thread :: conversation
  tr_unread :: bool

text \<open>One worker job: the mapping of thread \<open>conv\<close>; \<open>None\<close> is a skipped thread.\<close>

definition sync_job :: "env \<Rightarrow> u64 \<Rightarrow> pb_conversation \<Rightarrow> thread_result option prog" where
  "sync_job env lifecycle conv = do {
     r \<leftarrow> session_mapConversation (Some conv);
     r \<leftarrow> (case r of
         Inr x \<Rightarrow> State_Monad.return (Inr x)
       | Inl e \<Rightarrow>
           if pc_Participants conv = [] then do {
             full \<leftarrow> getConversation env (pc_ConversationID conv);
             case full of
               Inl e \<Rightarrow> State_Monad.return (Inl ''fetch'')
             | Inr c \<Rightarrow> session_mapConversation c
           }
           else State_Monad.return (Inl e));
     case r of
       Inl e \<Rightarrow> State_Monad.return None
     | Inr (mapped, meta) \<Rightarrow> do {
         s \<leftarrow> State_Monad.get;
         if \<not> current lifecycle s then State_Monad.return None
         else do {
           set_meta (pc_ConversationID conv) meta;
           State_Monad.return (Some \<lparr>tr_thread = mapped, tr_unread = pc_Unread conv\<rparr>)
         }
       }
   }"

text \<open>The worker pool: jobs run in the order \<open>js\<close>, and each writes its own slot of the results.\<close>

primrec sync_jobs ::
  "env \<Rightarrow> u64 \<Rightarrow> pb_conversation list \<Rightarrow> nat list \<Rightarrow> thread_result option list
     \<Rightarrow> thread_result option list prog" where
  "sync_jobs env lifecycle convs [] results = State_Monad.return results"
| "sync_jobs env lifecycle convs (j # js) results = do {
     r \<leftarrow> sync_job env lifecycle (convs ! j);
     sync_jobs env lifecycle convs js (results[j := r])
   }"

record sync_outcome =
  so_results :: "thread_result option list"
  so_lifecycle :: u64
  so_complete :: bool

definition so_threads :: "sync_outcome \<Rightarrow> thread_result list" where
  "so_threads o1 = List.map_filter (\<lambda>r. r) (so_results o1)"

text \<open>\<open>None\<close> is the return of nil threads and nil results.\<close>

definition fullSyncLocked :: "env \<Rightarrow> sync_outcome option prog" where
  "fullSyncLocked env = do {
     s \<leftarrow> State_Monad.get;
     if \<not> alive s then State_Monad.return None
     else do {
       let lifecycle = s_lifecycle s;
       case s_client s of
         None \<Rightarrow> State_Monad.return None
       | Some client \<Rightarrow> do {
           listed \<leftarrow> listAllConversations env client lifecycle;
           case listed of
             Inl e \<Rightarrow> do {
               s \<leftarrow> State_Monad.get;
               fire (error_event (s_account s) ''conversation sync failed'');
               State_Monad.return None
             }
           | Inr (convs, capped) \<Rightarrow> do {
               let convs = sort_key (\<lambda>c. - pc_LastMessageTimestamp c) convs;
               results \<leftarrow> sync_jobs env lifecycle convs (e_jobs env (length convs))
                            (replicate (length convs) None);
               s \<leftarrow> State_Monad.get;
               if \<not> current lifecycle s then State_Monad.return None
               else do {
                 let complete = (\<not> capped \<and> (\<forall>r \<in> set results. r \<noteq> None));
                 generation \<leftarrow> nextGeneration;
                 emitConversations (map tr_thread (List.map_filter (\<lambda>r. r) results)) generation complete;
                 State_Monad.return (Some
                   \<lparr>so_results = results, so_lifecycle = lifecycle, so_complete = complete\<rparr>)
               }
             }
         }
     }
   }"

text \<open>Window healing of the newest threads: at most \<open>budget\<close> more; false when the session retired.\<close>

fun heal_windows :: "env \<Rightarrow> u64 \<Rightarrow> nat \<Rightarrow> thread_result option list \<Rightarrow> bool prog" where
  "heal_windows env lifecycle budget [] = State_Monad.return True"
| "heal_windows env lifecycle budget (None # rs) = heal_windows env lifecycle budget rs"
| "heal_windows env lifecycle 0 (Some r # rs) = heal_windows env lifecycle 0 rs"
| "heal_windows env lifecycle (Suc budget) (Some r # rs) = do {
     s \<leftarrow> State_Monad.get;
     if \<not> current lifecycle s then State_Monad.return False
     else do {
       emitWindow env (c_LocalID (tr_thread r)) messageWindow None True True 0 (Some lifecycle);
       heal_windows env lifecycle budget rs
     }
   }"

text \<open>The unread flag of a thread: the last result with its id, as in the map \<open>unreads\<close>.\<close>

definition unread_of :: "thread_result list \<Rightarrow> go_string \<Rightarrow> bool" where
  "unread_of rs convID =
     (case find (\<lambda>r. c_LocalID (tr_thread r) = convID) (rev rs) of
        None \<Rightarrow> False | Some r \<Rightarrow> tr_unread r)"

primrec emit_reads :: "u64 \<Rightarrow> thread_result list \<Rightarrow> thread_result list \<Rightarrow> bool prog" where
  "emit_reads lifecycle threads [] = State_Monad.return True"
| "emit_reads lifecycle threads (t # ts) = do {
     s \<leftarrow> State_Monad.get;
     if \<not> current lifecycle s then State_Monad.return False
     else do {
       fireIfCurrent lifecycle ((mk_event ''read'')
         \<lparr>ev_Account := s_account s, ev_Conversation := c_LocalID (tr_thread t),
          ev_Unread := unread_of threads (c_LocalID (tr_thread t))\<rparr>);
       emit_reads lifecycle threads ts
     }
   }"

definition fullSync :: "env \<Rightarrow> bool prog" where
  "fullSync env = do {
     r \<leftarrow> fullSyncLocked env;
     case r of
       None \<Rightarrow> State_Monad.return False
     | Some o1 \<Rightarrow> do {
         let lifecycle = so_lifecycle o1;
         healed \<leftarrow> heal_windows env lifecycle recentWindowRefresh (so_results o1);
         if \<not> healed then State_Monad.return False
         else do {
           emitted \<leftarrow> emit_reads lifecycle (so_threads o1) (so_threads o1);
           s \<leftarrow> State_Monad.get;
           if \<not> emitted \<or> \<not> current lifecycle s then State_Monad.return False
           else do {
             saveAuthIfCurrent env lifecycle;
             State_Monad.return (so_complete o1 \<or> so_threads o1 \<noteq> [])
           }
         }
       }
   }"

definition Sync :: "env \<Rightarrow> unit prog" where
  "Sync env = do {
     s \<leftarrow> State_Monad.get;
     if s_syncActive s then State_Monad.return ()
     else do {
       State_Monad.update (\<lambda>s. s\<lparr>s_syncActive := True\<rparr>);
       fullSync env;
       State_Monad.update (\<lambda>s. s\<lparr>s_syncActive := False\<rparr>)
     }
   }"

subsection \<open>Live messages\<close>

definition checkPending :: "pb_message \<Rightarrow> u64 \<Rightarrow> unit prog" where
  "checkPending msg lifecycle = do {
     s \<leftarrow> State_Monad.get;
     if pm_TmpID msg = [] \<or> \<not> current lifecycle s then State_Monad.return ()
     else (case map_of (s_pending s) (pm_TmpID msg) of
         None \<Rightarrow> State_Monad.return ()
       | Some pending \<Rightarrow> do {
           State_Monad.update (\<lambda>s. s\<lparr>s_pending := AList.delete (pm_TmpID msg) (s_pending s)\<rparr>);
           if s_now s - ps_at pending > pendingTTL then State_Monad.return ()
           else (case mapStatus (pm_Status msg) of
               None \<Rightarrow> State_Monad.return ()
             | Some token \<Rightarrow> fire ((mk_event ''status'')
                 \<lparr>ev_Account := s_account s, ev_Conversation := ps_convID pending,
                  ev_Message := pm_MessageID msg, ev_Status := token\<rparr>))
         })
   }"

definition handleMessage :: "env \<Rightarrow> pb_message option \<Rightarrow> u64 \<Rightarrow> unit prog" where
  "handleMessage env m lifecycle =
     (case m of
        None \<Rightarrow> State_Monad.return ()
      | Some msg \<Rightarrow>
          let convID = pm_ConversationID msg; status = pm_Status msg in
          if isTombstone status then State_Monad.return ()
          else if isDeletion status then do {
            s \<leftarrow> State_Monad.get;
            do_when (pm_MessageID msg \<noteq> [])
              (fireIfCurrent lifecycle (message_removed (s_account s) convID (pm_MessageID msg)))
          }
          else do {
            (mapped, removed) \<leftarrow> mapMessage env convID m True lifecycle;
            s \<leftarrow> State_Monad.get;
            if removed \<noteq> [] then
              fireIfCurrent lifecycle (message_removed (s_account s) convID removed)
            else (case mapped of
                None \<Rightarrow> State_Monad.return ()
              | Some out \<Rightarrow>
                  if \<not> current lifecycle s then State_Monad.return ()
                  else do {
                    fireIfCurrent lifecycle ((mk_event ''messages'')
                      \<lparr>ev_Account := s_account s, ev_Conversation := convID,
                       ev_Messages := Some [out]\<rparr>);
                    checkPending msg lifecycle;
                    s \<leftarrow> State_Monad.get;
                    if isSelfSender msg s then
                      (case mapStatus status of
                         None \<Rightarrow> State_Monad.return ()
                       | Some token \<Rightarrow> fireIfCurrent lifecycle ((mk_event ''status'')
                           \<lparr>ev_Account := s_account s, ev_Conversation := convID,
                            ev_Message := pm_MessageID msg, ev_Status := token\<rparr>))
                    else State_Monad.return ()
                  })
          })"

end
