(* ===== verification/EventLoop.thy ===== *)
theory EventLoop
  imports SyncOps
begin

text \<open>
  The loops of \<open>adapter/session.go\<close>: the relay event consumer and its handler, the reconnect loop
  and its backoff, restoring a stored session, overflow repair, and resume after suspend.
\<close>

subsection \<open>The relay event handler\<close>

definition add_sims :: "sim_card list \<Rightarrow> session \<Rightarrow> session" where
  "add_sims sims s = fold (\<lambda>sim s.
     if sim_ParticipantID sim = [] then s
     else s\<lparr>s_sims := AList.update (sim_ParticipantID sim) sim (s_sims s),
            s_selfIDs := insert (sim_ParticipantID sim) (s_selfIDs s)\<rparr>) sims s"

definition go_offline :: "unit prog" where
  "go_offline = State_Monad.update (\<lambda>s. s\<lparr>s_connected := False, s_authenticated := False\<rparr>)"

text \<open>The two branches that end a login report the account offline and then say why.\<close>

definition expire :: "u64 \<Rightarrow> go_string \<Rightarrow> unit prog" where
  "expire lifecycle msg = do {
     s \<leftarrow> State_Monad.get;
     if s_lifecycle s \<noteq> lifecycle then State_Monad.return ()
     else do {
       go_offline;
       fireIfCurrent lifecycle (account_event (s_account s) False False);
       fireIfCurrent lifecycle (error_event (s_account s) msg)
     }
   }"

definition handle_conversation :: "env \<Rightarrow> go_string \<Rightarrow> u64 \<Rightarrow> unit prog" where
  "handle_conversation env convID lifecycle = do {
     r \<leftarrow> getConversation env convID;
     case r of
       Inl e \<Rightarrow> State_Monad.return ()
     | Inr conv \<Rightarrow> do {
         s \<leftarrow> State_Monad.get;
         if \<not> current lifecycle s then State_Monad.return ()
         else do {
           m \<leftarrow> session_mapConversation conv;
           case m of
             Inl e \<Rightarrow> State_Monad.return ()
           | Inr (mapped, meta) \<Rightarrow> do {
               s \<leftarrow> State_Monad.get;
               if \<not> current lifecycle s then State_Monad.return ()
               else do {
                 set_meta (conv_id conv) meta;
                 fireIfCurrent lifecycle (conversations_event (s_account s) [mapped] False 0)
               }
             }
         }
       }
   }"

definition handleRelayEvent :: "env \<Rightarrow> relay_event \<Rightarrow> u64 \<Rightarrow> unit prog" where
  "handleRelayEvent env evt lifecycle =
     (case evt of
        Ev_Conversation c \<Rightarrow> handle_conversation env (pc_ConversationID c) lifecycle
      | Ev_Message m isOld \<Rightarrow> handleMessage env m lifecycle
      | Ev_Typing conv started number \<Rightarrow> do {
          s \<leftarrow> State_Monad.get;
          fireIfCurrent lifecycle ((mk_event ''typing'')
            \<lparr>ev_Account := s_account s, ev_Conversation := conv,
             ev_Participants := Some (if started \<and> number \<noteq> [] then [number] else [])\<rparr>)
        }
      | Ev_Settings sims \<Rightarrow> do {
          s \<leftarrow> State_Monad.get;
          if \<not> current lifecycle s then State_Monad.return ()
          else State_Monad.update (add_sims sims)
        }
      | Ev_AuthTokenRefreshed \<Rightarrow> do {
          s \<leftarrow> State_Monad.get;
          if s_auth s = None then State_Monad.return ()
          else do { saveAuthIfCurrent env lifecycle; State_Monad.return () }
        }
      | Ev_GaiaLoggedOut \<Rightarrow> expire lifecycle ''session logged out by Google, re-pair required''
      | Ev_ListenFatalError e \<Rightarrow>
          if isFatalAuth e then expire lifecycle ''session expired, re-pair required''
          else do {
            s \<leftarrow> State_Monad.get;
            fireIfCurrent lifecycle (error_event (s_account s) ''relay connection lost, retrying'')
          }
      | Ev_AccountChange \<Rightarrow> State_Monad.return ()
      | Ev_Other \<Rightarrow> State_Monad.return ())"

text \<open>One turn of the consumer that takes an event: the lifecycle is checked again at dequeue. The
  result is false when the queue is empty and the loop waits.\<close>

definition event_turn :: "env \<Rightarrow> bool prog" where
  "event_turn env = do {
     s \<leftarrow> State_Monad.get;
     case s_events s of
       [] \<Rightarrow> State_Monad.return False
     | q # qs \<Rightarrow> do {
         State_Monad.update (\<lambda>s. s\<lparr>s_events := qs\<rparr>);
         (if s_lifecycle s = q_lifecycle q then handleRelayEvent env (q_event q) (q_lifecycle q)
          else State_Monad.return ());
         State_Monad.return True
       }
   }"

subsection \<open>Overflow repair and resume\<close>

primrec refresh_windows :: "env \<Rightarrow> go_string list \<Rightarrow> unit prog" where
  "refresh_windows env [] = State_Monad.return ()"
| "refresh_windows env (convID # convIDs) = do {
     s \<leftarrow> State_Monad.get;
     if \<not> alive s then State_Monad.return ()
     else do {
       emitWindow env convID messageWindow None True True 0 None;
       refresh_windows env convIDs
     }
   }"

definition refreshDirty :: "env \<Rightarrow> unit prog" where
  "refreshDirty env = do {
     convIDs \<leftarrow> takeDirty env;
     refresh_windows env convIDs
   }"

text \<open>The goroutine \<open>requestResync\<close> starts.\<close>

definition resync_task :: "env \<Rightarrow> unit prog" where
  "resync_task env = do {
     fullSync env;
     refreshDirty env;
     State_Monad.update (\<lambda>s. s\<lparr>s_resyncing := False\<rparr>)
   }"

definition refreshAfterResume :: "env \<Rightarrow> unit prog" where
  "refreshAfterResume env = do {
     s \<leftarrow> State_Monad.get;
     case s_client s of
       None \<Rightarrow> State_Monad.return ()
     | Some client \<Rightarrow>
         if \<not> s_connected s then State_Monad.return ()
         else do {
           rpc_call env client SetActiveSession;
           fullSync env;
           State_Monad.return ()
         }
   }"

text \<open>One tick of \<open>resumeLoop\<close>; the result is the next value of \<open>previous\<close>.\<close>

definition resume_tick :: "env \<Rightarrow> int \<Rightarrow> int \<Rightarrow> int prog" where
  "resume_tick env previous now = do {
     do_when (wallClockJumped previous now) (refreshAfterResume env);
     State_Monad.return now
   }"

text \<open>The loop over the ticks of the ticker; a closed session ends it.\<close>

primrec resumeLoop :: "env \<Rightarrow> int \<Rightarrow> int list \<Rightarrow> unit prog" where
  "resumeLoop env previous [] = State_Monad.return ()"
| "resumeLoop env previous (now # ticks) = do {
     s \<leftarrow> State_Monad.get;
     if s_closed s then State_Monad.return ()
     else do {
       previous \<leftarrow> resume_tick env previous now;
       resumeLoop env previous ticks
     }
   }"

text \<open>A machine that was never suspended for longer than the gap is left alone.\<close>

lemma resumeLoop_idle:
  assumes "\<forall>i < length ticks. \<not> wallClockJumped ((previous # ticks) ! i) (ticks ! i)"
  shows "run_state (resumeLoop env previous ticks) s = ((), s)"
  using assms
proof (induction ticks arbitrary: previous)
  case (Cons t ts)
  have "\<not> wallClockJumped previous t" using Cons.prems by force
  moreover have "run_state (resumeLoop env t ts) s = ((), s)" by (rule Cons.IH) (use Cons.prems in force)
  ultimately show ?case by (simp add: resume_tick_def do_when_def State_Monad.get_def State_Monad.return_def)
qed (simp add: State_Monad.return_def)

subsection \<open>Connecting\<close>

definition catch_up_delays :: "int list" where
  "catch_up_delays = [3 * second, 5 * second, 15 * second]"

primrec catch_up :: "env \<Rightarrow> u64 \<Rightarrow> int list \<Rightarrow> unit prog" where
  "catch_up env lifecycle [] = State_Monad.return ()"
| "catch_up env lifecycle (delay # delays) = do {
     w \<leftarrow> pause env delay;
     s \<leftarrow> State_Monad.get;
     if w = Woke_Done \<or> \<not> current lifecycle s then State_Monad.return ()
     else do {
       ok \<leftarrow> fullSync env;
       if ok then State_Monad.return () else catch_up env lifecycle delays
     }
   }"

definition connectOnce :: "env \<Rightarrow> go_error option prog" where
  "connectOnce env = do {
     s \<leftarrow> State_Monad.get;
     let lifecycle = s_lifecycle s;
     case s_client s of
       None \<Rightarrow> State_Monad.return (Some [ErrOther])
     | Some client \<Rightarrow> do {
         config \<leftarrow> rpc_call env client FetchConfig;
         if rp_err config \<noteq> None then State_Monad.return (rp_err config)
         else do {
           s \<leftarrow> State_Monad.get;
           if \<not> ownsClient lifecycle client s then State_Monad.return (Some [ErrContextCanceled])
           else do {
             conn \<leftarrow> rpc_call env client Connect;
             if rp_err conn \<noteq> None then State_Monad.return (rp_err conn)
             else do {
               s \<leftarrow> State_Monad.get;
               if \<not> ownsClient lifecycle client s then State_Monad.return (Some [ErrContextCanceled])
               else do {
                 State_Monad.update (\<lambda>s. s\<lparr>s_connected := True, s_authenticated := True\<rparr>);
                 fireIfCurrent lifecycle (account_event (s_account s) True True);
                 saveAuthIfCurrent env lifecycle;
                 act (Spawn (Task_catchUp lifecycle));
                 State_Monad.return None
               }
             }
           }
         }
       }
   }"

definition initial_backoff :: int where "initial_backoff = 5 * second"

definition next_backoff :: "int \<Rightarrow> int" where
  "next_backoff b = (if b < minute then b * 2 else b)"

text \<open>One round of \<open>connectLoop\<close> under the cancellable context \<open>ctx\<close>: \<open>None\<close> when the loop returns,
  else the backoff of the next round.\<close>

definition connect_round :: "env \<Rightarrow> nat \<Rightarrow> int \<Rightarrow> int option prog" where
  "connect_round env ctx backoff = do {
     s \<leftarrow> State_Monad.get;
     if ctx_done ctx s \<or> s_closed s then State_Monad.return None
     else do {
       err \<leftarrow> connectOnce env;
       case err of
         None \<Rightarrow> State_Monad.return None
       | Some e \<Rightarrow>
           if isFatalAuth e then do {
             go_offline;
             s \<leftarrow> State_Monad.get;
             fire (account_event (s_account s) False False);
             fire (error_event (s_account s) ''session expired, re-pair required'');
             State_Monad.return None
           }
           else do {
             w \<leftarrow> pause env backoff;
             State_Monad.return (if w = Woke_Done then None else Some (next_backoff backoff))
           }
     }
   }"

text \<open>The loop, for at most \<open>n\<close> rounds; true when it returned within them.\<close>

primrec connect_rounds :: "env \<Rightarrow> nat \<Rightarrow> nat \<Rightarrow> int \<Rightarrow> bool prog" where
  "connect_rounds env ctx 0 backoff = State_Monad.return False"
| "connect_rounds env ctx (Suc n) backoff = do {
     next \<leftarrow> connect_round env ctx backoff;
     case next of
       None \<Rightarrow> State_Monad.return True
     | Some b \<Rightarrow> connect_rounds env ctx n b
   }"

definition connectLoop :: "env \<Rightarrow> nat \<Rightarrow> nat \<Rightarrow> bool prog" where
  "connectLoop env n ctx = connect_rounds env ctx n initial_backoff"

text \<open>True is Go's nil error.\<close>

definition Restore :: "env \<Rightarrow> bool prog" where
  "Restore env = do {
     s \<leftarrow> State_Monad.get;
     case LoadAuth (e_unmarshalAuth env) (e_faults env) (s_account s) (s_store s) of
       Inl e \<Rightarrow> State_Monad.return False
     | Inr None \<Rightarrow> State_Monad.return False
     | Inr (Some data) \<Rightarrow> do {
         ref \<leftarrow> fresh;
         State_Monad.update (\<lambda>s. s\<lparr>s_auth := Some \<lparr>au_ref = ref, au_data = data\<rparr>,
                                   s_authenticated := e_authMobile env data\<rparr>);
         buildClient;
         s \<leftarrow> State_Monad.get;
         fire (account_event (s_account s) False (s_authenticated s));
         runEventLoop;
         runConnectLoop;
         State_Monad.return True
       }
   }"

end
