(* ===== verification/Json.thy ===== *)
theory Json
  imports Contract "HOL-Library.AList"
begin

text \<open>
  \<open>json.Unmarshal\<close> of Go's \<open>encoding/json\<close> as the adapter uses it: the text is split into tokens, a
  machine with the stack of open arrays and objects puts them together (Go's scanner has the same
  stack, of at most 10000 frames), and the value is stored into \<open>Command\<close> or \<open>LoginBundle\<close> by the
  names of their tags. Any error is the value \<open>None\<close>, since the code only asks whether there was one.
\<close>

subsection \<open>Tokens\<close>

datatype token =
    T_open_brace | T_close_brace | T_open_bracket | T_close_bracket | T_colon | T_comma
  | T_null | T_bool bool | T_num go_string | T_str go_string

definition hex_value :: "char \<Rightarrow> nat option" where
  "hex_value c =
     (let n = byte c in
      if 48 \<le> n \<and> n \<le> 57 then Some (n - 48)
      else if 97 \<le> n \<and> n \<le> 102 then Some (n - 87)
      else if 65 \<le> n \<and> n \<le> 70 then Some (n - 55)
      else None)"

fun hex4 :: "bytes \<Rightarrow> nat option" where
  "hex4 (a # b # c # d # s) =
     (case (hex_value a, hex_value b, hex_value c, hex_value d) of
        (Some va, Some vb, Some vc, Some vd) \<Rightarrow> Some (((va * 16 + vb) * 16 + vc) * 16 + vd)
      | _ \<Rightarrow> None)"
| "hex4 _ = None"

text \<open>A second escape that completes a surrogate pair: the rune of \<open>utf16.DecodeRune\<close>.\<close>

definition low_surrogate :: "nat \<Rightarrow> bytes \<Rightarrow> rune option" where
  "low_surrogate r s =
     (case s of
        b # u # t \<Rightarrow>
          if b = CHR 0x5C \<and> u = CHR ''u'' then
            (case hex4 t of
               None \<Rightarrow> None
             | Some r1 \<Rightarrow>
                 if r < 0xDC00 \<and> 0xDC00 \<le> r1 \<and> r1 < 0xE000
                 then Some ((r - 0xD800) * 1024 + (r1 - 0xDC00) + 0x10000) else None)
          else None
      | _ \<Rightarrow> None)"

definition simple_escape :: "char \<Rightarrow> char option" where
  "simple_escape e =
     (if e = CHR 0x22 \<or> e = CHR 0x5C \<or> e = CHR ''/'' then Some e
      else if e = CHR ''b'' then Some (CHR 0x08)
      else if e = CHR ''f'' then Some (CHR 0x0C)
      else if e = CHR ''n'' then Some (CHR 0x0A)
      else if e = CHR ''r'' then Some (CHR 0x0D)
      else if e = CHR ''t'' then Some (CHR 0x09)
      else None)"

text \<open>What an escape stands for, and what follows it; \<open>s\<close> starts after the backslash.\<close>

definition lex_escape :: "bytes \<Rightarrow> (go_string \<times> bytes) option" where
  "lex_escape s =
     (case s of
        [] \<Rightarrow> None
      | e # es \<Rightarrow>
          if e = CHR ''u'' then
            (case hex4 es of
               None \<Rightarrow> None
             | Some r \<Rightarrow>
                 if 0xD800 \<le> r \<and> r < 0xE000 then
                   (case low_surrogate r (drop 4 es) of
                      Some r2 \<Rightarrow> Some (encode_rune r2, drop 10 es)
                    | None \<Rightarrow> Some (encode_rune RuneError, drop 4 es))
                 else Some (encode_rune r, drop 4 es))
          else map_option (\<lambda>x. ([x], es)) (simple_escape e))"

text \<open>One piece of a string; control bytes are refused, malformed UTF-8 is replaced.\<close>

definition lex_piece :: "bytes \<Rightarrow> (go_string \<times> bytes) option" where
  "lex_piece s =
     (case s of
        [] \<Rightarrow> None
      | c # cs \<Rightarrow>
          if c = CHR 0x5C then lex_escape cs
          else if byte c < 0x20 then None
          else if byte c < 0x80 then Some ([c], cs)
          else (case decode_rune s of (r, n) \<Rightarrow> Some (encode_rune r, drop n s)))"

lemma lex_escape_shorter: "lex_escape s = Some (t, rest) \<Longrightarrow> length rest < length s"
  by (auto simp: lex_escape_def split: list.splits if_splits option.splits)

lemma lex_piece_shorter: "lex_piece s = Some (t, rest) \<Longrightarrow> length rest < length s"
  using decode_rune_size_pos [of s]
  by (auto simp: lex_piece_def dest: lex_escape_shorter split: list.splits if_splits prod.splits
      simp del: decode_rune.simps)

text \<open>The text of a string after its opening quote, and what follows the closing one.\<close>

function lex_string :: "bytes \<Rightarrow> (go_string \<times> bytes) option" where
  "lex_string s =
     (if s \<noteq> [] \<and> hd s = CHR 0x22 then Some ([], tl s)
      else (case lex_piece s of
          None \<Rightarrow> None
        | Some (p, rest) \<Rightarrow> map_option (apfst (append p)) (lex_string rest)))"
  by pat_completeness auto
termination
  by (relation "measure length") (auto dest: lex_piece_shorter)

declare lex_string.simps [simp del]

lemma lex_string_shorter: "lex_string s = Some (t, rest) \<Longrightarrow> length rest < length s"
proof (induction s arbitrary: t rule: lex_string.induct)
  case (1 s)
  show ?case
  proof (cases "s \<noteq> [] \<and> hd s = CHR 0x22")
    case True
    with "1.prems" show ?thesis by (auto simp: lex_string.simps)
  next
    case False
    with "1.prems" obtain p u w where p: "lex_piece s = Some (p, u)" "lex_string u = Some (w, rest)"
      by (subst (asm) lex_string.simps) (auto split: option.splits prod.splits)
    with "1.IH" [OF False p(1) refl] lex_piece_shorter [OF p(1)] show ?thesis by fastforce
  qed
qed

text \<open>A number of the JSON grammar, as its literal.\<close>

definition lex_digits :: "bytes \<Rightarrow> (go_string \<times> bytes) option" where
  "lex_digits s = (if s \<noteq> [] \<and> is_digit (hd s) then Some (takeWhile is_digit s, dropWhile is_digit s) else None)"

definition lex_int :: "bytes \<Rightarrow> (go_string \<times> bytes) option" where
  "lex_int s = (if s \<noteq> [] \<and> hd s = CHR ''0'' then Some (''0'', tl s) else lex_digits s)"

definition lex_frac :: "bytes \<Rightarrow> (go_string \<times> bytes) option" where
  "lex_frac s = (if s \<noteq> [] \<and> hd s = CHR ''.'' then map_option (apfst (Cons (hd s))) (lex_digits (tl s))
     else Some ([], s))"

definition lex_exp :: "bytes \<Rightarrow> (go_string \<times> bytes) option" where
  "lex_exp s =
     (if s \<noteq> [] \<and> (hd s = CHR ''e'' \<or> hd s = CHR ''E'') then
        (let sign = (if tl s \<noteq> [] \<and> (hd (tl s) = CHR ''+'' \<or> hd (tl s) = CHR ''-'') then 1 else 0) in
         map_option (apfst (append (take (Suc sign) s))) (lex_digits (drop (Suc sign) s)))
      else Some ([], s))"

definition lex_number :: "bytes \<Rightarrow> (go_string \<times> bytes) option" where
  "lex_number s =
     (let n = (if s \<noteq> [] \<and> hd s = CHR ''-'' then 1 else 0) in
      case lex_int (drop n s) of
        None \<Rightarrow> None
      | Some (i, s1) \<Rightarrow>
          (case lex_frac s1 of
             None \<Rightarrow> None
           | Some (f, s2) \<Rightarrow> map_option (apfst (append (take n s @ i @ f))) (lex_exp s2)))"

lemma lex_digits_shorter: "lex_digits s = Some (t, rest) \<Longrightarrow> length rest < length s"
  by (cases s) (auto simp: lex_digits_def le_imp_less_Suc length_dropWhile_le split: if_splits)

lemma lex_int_shorter: "lex_int s = Some (t, rest) \<Longrightarrow> length rest < length s"
  by (auto simp: lex_int_def dest: lex_digits_shorter split: if_splits)

lemma lex_frac_shorter: "lex_frac s = Some (t, rest) \<Longrightarrow> length rest \<le> length s"
  by (cases s) (auto simp: lex_frac_def dest: lex_digits_shorter split: if_splits)

lemma lex_exp_shorter: "lex_exp s = Some (t, rest) \<Longrightarrow> length rest \<le> length s"
  by (cases s) (fastforce simp: lex_exp_def Let_def dest: lex_digits_shorter split: if_splits)+

lemma lex_number_shorter: "lex_number s = Some (t, rest) \<Longrightarrow> length rest < length s"
  by (fastforce simp: lex_number_def Let_def split: option.splits prod.splits if_splits
      dest: lex_int_shorter lex_frac_shorter lex_exp_shorter)

definition json_space :: "char \<Rightarrow> bool" where
  "json_space c \<longleftrightarrow> c = CHR '' '' \<or> c = CHR 0x09 \<or> c = CHR 0x0D \<or> c = CHR 0x0A"

definition lex_word :: "token \<Rightarrow> go_string \<Rightarrow> bytes \<Rightarrow> (token \<times> bytes) option" where
  "lex_word t w s = (if take (length w) s = w then Some (t, drop (length w) s) else None)"

text \<open>The next token of a text that does not start with white space.\<close>

definition lex_token :: "bytes \<Rightarrow> (token \<times> bytes) option" where
  "lex_token s =
     (case s of
        [] \<Rightarrow> None
      | c # cs \<Rightarrow>
          if c = CHR 0x7B then Some (T_open_brace, cs)
          else if c = CHR 0x7D then Some (T_close_brace, cs)
          else if c = CHR ''['' then Some (T_open_bracket, cs)
          else if c = CHR '']'' then Some (T_close_bracket, cs)
          else if c = CHR '':'' then Some (T_colon, cs)
          else if c = CHR '','' then Some (T_comma, cs)
          else if c = CHR 0x22 then map_option (apfst T_str) (lex_string cs)
          else if c = CHR ''t'' then lex_word (T_bool True) ''true'' s
          else if c = CHR ''f'' then lex_word (T_bool False) ''false'' s
          else if c = CHR ''n'' then lex_word T_null ''null'' s
          else map_option (apfst T_num) (lex_number s))"

lemma lex_token_shorter: "lex_token s = Some (t, rest) \<Longrightarrow> length rest < length s"
  by (fastforce simp: lex_token_def lex_word_def split: list.splits if_splits
      dest: lex_string_shorter lex_number_shorter)

function tokenize :: "bytes \<Rightarrow> token list option" where
  "tokenize s =
     (if s = [] then Some []
      else if json_space (hd s) then tokenize (tl s)
      else (case lex_token s of
          None \<Rightarrow> None
        | Some (t, rest) \<Rightarrow> map_option (Cons t) (tokenize rest)))"
  by pat_completeness auto
termination
  by (relation "measure length") (auto dest: lex_token_shorter)

declare tokenize.simps [simp del]

subsection \<open>Values\<close>

datatype jvalue =
    V_null | V_bool bool | V_num go_string | V_str go_string
  | V_arr "jvalue list" | V_obj "(go_string \<times> jvalue) list"

text \<open>The states of Go's scanner between two tokens, and the frames of its stack. A key waits in
  \<open>End_value\<close> for its colon.\<close>

datatype scan = Begin_value | Begin_value_or_empty | Begin_string | Begin_string_or_empty | End_value jvalue

datatype frame =
    Array_value "jvalue list"
  | Object_key "(go_string \<times> jvalue) list"
  | Object_value "(go_string \<times> jvalue) list" go_string

definition maxNestingDepth :: nat where "maxNestingDepth = 10000"

definition push_frame :: "scan \<Rightarrow> frame \<Rightarrow> frame list \<Rightarrow> (scan \<times> frame list) option" where
  "push_frame st f fs = (if length fs < maxNestingDepth then Some (st, f # fs) else None)"

definition begin_value :: "token \<Rightarrow> frame list \<Rightarrow> (scan \<times> frame list) option" where
  "begin_value t fs =
     (case t of
        T_null \<Rightarrow> Some (End_value V_null, fs)
      | T_bool b \<Rightarrow> Some (End_value (V_bool b), fs)
      | T_num n \<Rightarrow> Some (End_value (V_num n), fs)
      | T_str s \<Rightarrow> Some (End_value (V_str s), fs)
      | T_open_bracket \<Rightarrow> push_frame Begin_value_or_empty (Array_value []) fs
      | T_open_brace \<Rightarrow> push_frame Begin_string_or_empty (Object_key []) fs
      | _ \<Rightarrow> None)"

definition begin_string :: "token \<Rightarrow> frame list \<Rightarrow> (scan \<times> frame list) option" where
  "begin_string t fs = (case t of T_str s \<Rightarrow> Some (End_value (V_str s), fs) | _ \<Rightarrow> None)"

fun end_value :: "jvalue \<Rightarrow> token \<Rightarrow> frame list \<Rightarrow> (scan \<times> frame list) option" where
  "end_value v T_comma (Array_value vs # fs) = Some (Begin_value, Array_value (vs @ [v]) # fs)"
| "end_value v T_close_bracket (Array_value vs # fs) = Some (End_value (V_arr (vs @ [v])), fs)"
| "end_value (V_str k) T_colon (Object_key ms # fs) = Some (Begin_value, Object_value ms k # fs)"
| "end_value v T_comma (Object_value ms k # fs) = Some (Begin_string, Object_key (ms @ [(k, v)]) # fs)"
| "end_value v T_close_brace (Object_value ms k # fs) = Some (End_value (V_obj (ms @ [(k, v)])), fs)"
| "end_value v t fs = None"

fun scan_step :: "token \<Rightarrow> scan \<times> frame list \<Rightarrow> (scan \<times> frame list) option" where
  "scan_step T_close_bracket (Begin_value_or_empty, Array_value vs # fs) = Some (End_value (V_arr vs), fs)"
| "scan_step T_close_brace (Begin_string_or_empty, Object_key ms # fs) = Some (End_value (V_obj ms), fs)"
| "scan_step t (Begin_value, fs) = begin_value t fs"
| "scan_step t (Begin_value_or_empty, fs) = begin_value t fs"
| "scan_step t (Begin_string, fs) = begin_string t fs"
| "scan_step t (Begin_string_or_empty, fs) = begin_string t fs"
| "scan_step t (End_value v, fs) = end_value v t fs"

fun scan_run :: "token list \<Rightarrow> scan \<times> frame list \<Rightarrow> (scan \<times> frame list) option" where
  "scan_run [] st = Some st"
| "scan_run (t # ts) st = Option.bind (scan_step t st) (scan_run ts)"

definition parse_json :: "bytes \<Rightarrow> jvalue option" where
  "parse_json s =
     (case tokenize s of
        None \<Rightarrow> None
      | Some ts \<Rightarrow>
          (case scan_run ts (Begin_value, []) of
             Some (End_value v, []) \<Rightarrow> Some v
           | _ \<Rightarrow> None))"

subsection \<open>Storing into a struct\<close>

text \<open>The names of the struct fields are compared exactly first and then by their folded form. The
  names are ASCII, so of the folded form only the ASCII letters and the two runes that fold to one
  matter: U+017F folds to S and U+212A to K.\<close>

definition fold_rune :: "rune \<Rightarrow> rune" where
  "fold_rune r =
     (if 97 \<le> r \<and> r \<le> 122 then r - 32 else if r = 0x17F then byte CHR ''S''
      else if r = 0x212A then byte CHR ''K'' else r)"

definition fold_name :: "go_string \<Rightarrow> rune list" where
  "fold_name s = map fold_rune (runes s)"

text \<open>A struct is the list of its tags with the function that stores a value into the field.\<close>

type_synonym 'r fields = "(go_string \<times> (jvalue \<Rightarrow> 'r \<Rightarrow> 'r option)) list"

definition find_field :: "'r fields \<Rightarrow> go_string \<Rightarrow> (jvalue \<Rightarrow> 'r \<Rightarrow> 'r option) option" where
  "find_field fds k =
     (case map_of fds k of
        Some f \<Rightarrow> Some f
      | None \<Rightarrow> map_option snd (find (\<lambda>(n, f). fold_name n = fold_name k) fds))"

fun store_members :: "'r fields \<Rightarrow> (go_string \<times> jvalue) list \<Rightarrow> 'r \<Rightarrow> 'r option" where
  "store_members fds [] r = Some r"
| "store_members fds ((k, v) # ms) r =
     (case find_field fds k of
        None \<Rightarrow> store_members fds ms r
      | Some f \<Rightarrow> Option.bind (f v r) (store_members fds ms))"

text \<open>Null leaves the struct as it is.\<close>

definition store_struct :: "'r fields \<Rightarrow> jvalue \<Rightarrow> 'r \<Rightarrow> 'r option" where
  "store_struct fds v r =
     (case v of V_null \<Rightarrow> Some r | V_obj ms \<Rightarrow> store_members fds ms r | _ \<Rightarrow> None)"

definition store_string :: "(go_string \<Rightarrow> 'r \<Rightarrow> 'r) \<Rightarrow> jvalue \<Rightarrow> 'r \<Rightarrow> 'r option" where
  "store_string upd v r = (case v of V_null \<Rightarrow> Some r | V_str s \<Rightarrow> Some (upd s r) | _ \<Rightarrow> None)"

definition store_bool :: "(bool \<Rightarrow> 'r \<Rightarrow> 'r) \<Rightarrow> jvalue \<Rightarrow> 'r \<Rightarrow> 'r option" where
  "store_bool upd v r = (case v of V_null \<Rightarrow> Some r | V_bool b \<Rightarrow> Some (upd b r) | _ \<Rightarrow> None)"

text \<open>\<open>strconv.ParseUint\<close> of the literal and the range of the field.\<close>

definition store_uint :: "('w :: len word \<Rightarrow> 'r \<Rightarrow> 'r) \<Rightarrow> jvalue \<Rightarrow> 'r \<Rightarrow> 'r option" where
  "store_uint upd v r =
     (case v of
        V_null \<Rightarrow> Some r
      | V_num n \<Rightarrow>
          (case parse_nat n of
             None \<Rightarrow> None
           | Some i \<Rightarrow> if i < 2 ^ LENGTH('w) then Some (upd (word_of_nat i) r) else None)
      | _ \<Rightarrow> None)"

text \<open>A slice of strings: its backing array and its length. A null element keeps what an earlier
  member of the same name left in the array.\<close>

type_synonym slice = "go_string list \<times> nat"

fun store_items :: "jvalue list \<Rightarrow> nat \<Rightarrow> go_string list \<Rightarrow> go_string list option" where
  "store_items [] i b = Some b"
| "store_items (v # vs) i b =
     (let b = (if i < length b then b else b @ ['''']) in
      Option.bind (store_string (\<lambda>s b. b[i := s]) v b) (store_items vs (Suc i)))"

definition store_slice :: "jvalue \<Rightarrow> slice \<Rightarrow> slice option" where
  "store_slice v sl =
     (case v of
        V_null \<Rightarrow> Some ([], 0)
      | V_arr vs \<Rightarrow>
          if vs = [] then Some ([], 0)
          else map_option (\<lambda>b. (b, length vs)) (store_items vs 0 (fst sl))
      | _ \<Rightarrow> None)"

subsection \<open>Commands\<close>

definition zero_command :: command where
  "zero_command = \<lparr>cmd_Type = [], cmd_Account = [], cmd_BundleB64 = [], cmd_Conversation = [],
     cmd_Message = [], cmd_Text = [], cmd_ReplyTo = [], cmd_Caption = [], cmd_Path = [], cmd_Emoji = [],
     cmd_Add = False, cmd_Addresses = [], cmd_Limit = 0, cmd_Cursor = [], cmd_RequestID = [], cmd_FetchID = 0\<rparr>"

definition command_fields :: "(command \<times> slice) fields" where
  "command_fields =
     [(''type'', store_string (\<lambda>s. apfst (cmd_Type_update (\<lambda>_. s)))),
      (''account'', store_string (\<lambda>s. apfst (cmd_Account_update (\<lambda>_. s)))),
      (''bundle_b64'', store_string (\<lambda>s. apfst (cmd_BundleB64_update (\<lambda>_. s)))),
      (''conversation'', store_string (\<lambda>s. apfst (cmd_Conversation_update (\<lambda>_. s)))),
      (''message'', store_string (\<lambda>s. apfst (cmd_Message_update (\<lambda>_. s)))),
      (''text'', store_string (\<lambda>s. apfst (cmd_Text_update (\<lambda>_. s)))),
      (''reply_to'', store_string (\<lambda>s. apfst (cmd_ReplyTo_update (\<lambda>_. s)))),
      (''caption'', store_string (\<lambda>s. apfst (cmd_Caption_update (\<lambda>_. s)))),
      (''path'', store_string (\<lambda>s. apfst (cmd_Path_update (\<lambda>_. s)))),
      (''emoji'', store_string (\<lambda>s. apfst (cmd_Emoji_update (\<lambda>_. s)))),
      (''add'', store_bool (\<lambda>b. apfst (cmd_Add_update (\<lambda>_. b)))),
      (''addresses'', \<lambda>v (c, sl). map_option (Pair c) (store_slice v sl)),
      (''limit'', store_uint (\<lambda>w. apfst (cmd_Limit_update (\<lambda>_. w)))),
      (''cursor'', store_string (\<lambda>s. apfst (cmd_Cursor_update (\<lambda>_. s)))),
      (''request_id'', store_string (\<lambda>s. apfst (cmd_RequestID_update (\<lambda>_. s)))),
      (''fetch_id'', store_uint (\<lambda>w. apfst (cmd_FetchID_update (\<lambda>_. w))))]"

definition decodeCommand :: "bytes \<Rightarrow> command option" where
  "decodeCommand line =
     Option.bind (parse_json line) (\<lambda>v.
       map_option (\<lambda>(c, b, n). c\<lparr>cmd_Addresses := take n b\<rparr>)
         (store_struct command_fields v (zero_command, [], 0)))"

subsection \<open>The login bundle\<close>

type_synonym cookies = "(go_string \<times> go_string) list"

text \<open>\<open>Cookies map[string]string\<close>; nil and the empty map are not told apart.\<close>

fun store_entries :: "(go_string \<times> jvalue) list \<Rightarrow> cookies \<Rightarrow> cookies option" where
  "store_entries [] m = Some m"
| "store_entries ((k, v) # ms) m =
     Option.bind (store_string (\<lambda>s _. s) v []) (\<lambda>s. store_entries ms (AList.update k s m))"

definition bundle_fields :: "cookies fields" where
  "bundle_fields =
     [(''cookies'', \<lambda>v m. case v of V_null \<Rightarrow> Some [] | V_obj ms \<Rightarrow> store_entries ms m | _ \<Rightarrow> None)]"

definition decodeBundle :: "bytes \<Rightarrow> cookies option" where
  "decodeBundle bundle = Option.bind (parse_json bundle) (\<lambda>v. store_struct bundle_fields v [])"

end
