(* ===== verification/SendOps.thy ===== *)
theory SendOps
  imports EventLoop Json
begin

text \<open>
  \<open>adapter/send.go\<close>: login and pairing, the commands that carry a request id, read receipts and
  typing pings, and the end of a session. A Go error that a caller only tests or classifies is a
  \<open>go_error\<close>; \<open>None\<close> is nil.
\<close>

subsection \<open>Results\<close>

definition result_event :: "go_string \<Rightarrow> bool \<Rightarrow> go_string \<Rightarrow> event" where
  "result_event requestID ok errMsg =
     (mk_event ''command_result'')\<lparr>ev_RequestID := requestID, ev_OK := ok,
        ev_Error := (if \<not> ok \<and> errMsg \<noteq> [] then errMsg else [])\<rparr>"

definition send_result :: "go_string \<Rightarrow> bool \<Rightarrow> go_string \<Rightarrow> unit prog" where
  "send_result requestID ok errMsg = fire (result_event requestID ok errMsg)"

definition SendResult :: "go_string \<Rightarrow> bool \<Rightarrow> go_string \<Rightarrow> unit prog" where
  [simp]: "SendResult requestID ok errMsg = send_result requestID ok errMsg"

definition failure :: "go_string \<Rightarrow> go_string \<Rightarrow> unit prog" where
  "failure requestID msg = send_result requestID False msg"

definition status_event :: "go_string \<Rightarrow> go_string \<Rightarrow> go_string \<Rightarrow> go_string \<Rightarrow> event" where
  "status_event account convID msg status =
     (mk_event ''status'')\<lparr>ev_Account := account, ev_Conversation := convID, ev_Message := msg,
        ev_Status := status\<rparr>"

definition relayFailure :: "go_string \<Rightarrow> go_string \<Rightarrow> unit prog" where
  "relayFailure convID txn = do {
     s \<leftarrow> State_Monad.get;
     fire (status_event (s_account s) convID txn ''failed:transport'')
   }"

definition fire_error :: "go_string \<Rightarrow> unit prog" where
  "fire_error msg = do {
     s \<leftarrow> State_Monad.get;
     fire (error_event (s_account s) msg)
   }"

subsection \<open>Login and pairing\<close>

definition requiredCookies :: "go_string list" where
  "requiredCookies = [''SID'', ''HSID'', ''SSID'', ''OSID'', ''APISID'', ''SAPISID'']"

fun joinNames :: "go_string list \<Rightarrow> go_string" where
  "joinNames [] = []"
| "joinNames [n] = n"
| "joinNames (n # m # ns) = n @ '', '' @ joinNames (m # ns)"

definition cookie :: "(go_string \<times> go_string) list \<Rightarrow> go_string \<Rightarrow> go_string" where
  "cookie cs k = (case map_of cs k of None \<Rightarrow> [] | Some v \<Rightarrow> v)"

definition classifyPairError :: "go_error option \<Rightarrow> go_string" where
  "classifyPairError err =
     (case err of
        None \<Rightarrow> []
      | Some e \<Rightarrow>
          if errors_Is e ErrIncorrectEmoji then ''pairing rejected: wrong confirmation on phone''
          else if errors_Is e ErrPairingCancelled then ''pairing cancelled on phone''
          else if errors_Is e ErrPairingTimeout \<or> errors_Is e ErrPairingInitTimeout
          then ''pairing timed out''
          else if errors_Is e ErrNoDevicesFound then ''pairing found no phone''
          else if errors_Is e ErrNoCookies then ''pairing requires fresh cookies''
          else ''pairing failed'')"

text \<open>Nothing calls it.\<close>

definition classifySendError :: "go_error option \<Rightarrow> go_string" where
  "classifySendError err =
     (case err of
        None \<Rightarrow> []
      | Some e \<Rightarrow>
          if errors_Is e ErrPhoneNotResponding then ''phone not responding'' else ''send failed'')"

definition pairing_event :: "go_string \<Rightarrow> go_string \<Rightarrow> event" where
  "pairing_event account emoji =
     (mk_event ''pairing'')\<lparr>ev_Account := account,
        ev_Prompt := ''Tap '' @ emoji @ '' in Google Messages on the phone to confirm linking''\<rparr>"

text \<open>The locked section that starts a new pairing era; it returns the new client and auth.\<close>

definition begin_era :: "env \<Rightarrow> (go_string \<times> go_string) list \<Rightarrow> (nat \<times> auth_data) prog" where
  "begin_era env cookies = do {
     stop_pairing;
     stop_connecting;
     s \<leftarrow> State_Monad.get;
     (case s_client s of
        None \<Rightarrow> State_Monad.return ()
      | Some c \<Rightarrow> do { act (Disconnect c); State_Monad.update (\<lambda>s. s\<lparr>s_client := None\<rparr>) });
     ref \<leftarrow> fresh;
     let auth = \<lparr>au_ref = ref, au_data = e_newAuth env cookies\<rparr>;
     State_Monad.update (\<lambda>s. s\<lparr>s_connected := False, s_authenticated := False, s_auth := Some auth\<rparr>);
     client \<leftarrow> buildClient;
     State_Monad.return (client, auth)
   }"

text \<open>The rest of \<open>Login\<close>, from the event loop on.\<close>

definition start_pairing :: "env \<Rightarrow> nat \<Rightarrow> auth_data \<Rightarrow> u64 \<Rightarrow> unit prog" where
  "start_pairing env client auth lifecycle = do {
     runEventLoop;
     s \<leftarrow> State_Monad.get;
     fire (account_event (s_account s) False False);
     config \<leftarrow> rpc_call env client FetchConfig;
     if rp_err config \<noteq> None then fire_error ''relay unreachable during pairing''
     else do {
       ctx \<leftarrow> fresh;
       State_Monad.update (\<lambda>s. s\<lparr>s_pairCancel := Some ctx\<rparr>);
       started \<leftarrow> rpc_call env client StartGaiaPairing;
       if rp_err started \<noteq> None then fire_error (classifyPairError (rp_err started))
       else do {
         State_Monad.update (\<lambda>s. s\<lparr>s_ps := Some (rp_ps started)\<rparr>);
         s \<leftarrow> State_Monad.get;
         fire (account_event (s_account s) True False);
         fire (pairing_event (s_account s) (rp_emoji started));
         act (Spawn (Task_finishPairing (rp_ps started) ctx client auth lifecycle))
       }
     }
   }"

definition Login :: "env \<Rightarrow> bytes \<Rightarrow> unit prog" where
  "Login env bundle =
     (case decodeBundle bundle of
        None \<Rightarrow> fire_error ''login bundle rejected''
      | Some cookies \<Rightarrow>
          if cookies = [] then fire_error ''login bundle rejected''
          else
            let missing = filter (\<lambda>k. cookie cookies k = []) requiredCookies in
            if missing \<noteq> []
            then fire_error (''login bundle missing cookies: '' @ joinNames missing)
            else do {
              lifecycle \<leftarrow> bumpLifecycle;
              (client, auth) \<leftarrow> begin_era env cookies;
              start_pairing env client auth lifecycle
            })"

text \<open>The staleness test of \<open>finishPairing\<close>; pointers are compared.\<close>

definition pairing_stale :: "nat \<Rightarrow> nat \<Rightarrow> auth_data \<Rightarrow> u64 \<Rightarrow> session \<Rightarrow> bool" where
  "pairing_stale ps client auth lifecycle s \<longleftrightarrow>
     s_lifecycle s \<noteq> lifecycle \<or> s_client s \<noteq> Some client
     \<or> map_option au_ref (s_auth s) \<noteq> Some (au_ref auth) \<or> s_ps s \<noteq> Some ps"

definition finishPairing :: "env \<Rightarrow> nat \<Rightarrow> nat \<Rightarrow> nat \<Rightarrow> auth_data \<Rightarrow> u64 \<Rightarrow> unit prog" where
  "finishPairing env ps ctx client auth lifecycle = do {
     s \<leftarrow> State_Monad.get;
     if pairing_stale ps client auth lifecycle s then State_Monad.return ()
     else do {
       resp \<leftarrow> rpc_call env client (FinishGaiaPairing ps);
       s \<leftarrow> State_Monad.get;
       if pairing_stale ps client auth lifecycle s then State_Monad.return ()
       else do {
         State_Monad.update (\<lambda>s. s\<lparr>s_ps := None\<rparr>);
         stop_pairing;
         s \<leftarrow> State_Monad.get;
         if rp_err resp \<noteq> None then
           (if ctx_done ctx s then State_Monad.return ()
            else fire_error (classifyPairError (rp_err resp)))
         else do {
           act (Disconnect client);
           err \<leftarrow> saveAuthIfCurrent env lifecycle;
           if err \<noteq> None then fire_error ''storing session failed''
           else runConnectLoop
         }
       }
     }
   }"

subsection \<open>Outbound messages\<close>

definition simPayload :: "go_string \<Rightarrow> session \<Rightarrow> go_string option" where
  "simPayload outgoingID s =
     (case map_of (s_sims s) outgoingID of None \<Rightarrow> None | Some sim \<Rightarrow> sim_Payload sim)"

definition metaSIM :: "session \<Rightarrow> convMeta \<Rightarrow> go_string option" where
  [simp]: "metaSIM s meta = simPayload (cm_outgoingID meta) s"

definition threadMeta :: "env \<Rightarrow> go_string \<Rightarrow> convMeta option prog" where
  "threadMeta env convID = do {
     s \<leftarrow> State_Monad.get;
     case map_of (s_metas s) convID of
       Some meta \<Rightarrow> State_Monad.return (Some meta)
     | None \<Rightarrow> do {
         r \<leftarrow> getConversation env convID;
         case r of
           Inl e \<Rightarrow> State_Monad.return None
         | Inr conv \<Rightarrow> do {
             m \<leftarrow> session_mapConversation conv;
             case m of
               Inl e \<Rightarrow> State_Monad.return None
             | Inr (mapped, meta) \<Rightarrow> do {
                 set_meta convID meta;
                 State_Monad.return (Some meta)
               }
           }
       }
   }"

definition sendRetryBackoff :: "int list" where
  "sendRetryBackoff = [3 * second, 8 * second, 20 * second]"

text \<open>The retry loop: \<open>resp\<close> is the last answer and the list holds the backoffs left.\<close>

primrec send_retry :: "env \<Rightarrow> nat \<Rightarrow> send_request \<Rightarrow> int list \<Rightarrow> reply \<Rightarrow> (go_error + reply) prog" where
  "send_retry env client req [] resp =
     State_Monad.return (case rp_err resp of Some e \<Rightarrow> Inl e | None \<Rightarrow> Inr resp)"
| "send_retry env client req (b # bs) resp =
     (case rp_err resp of
        Some e \<Rightarrow> State_Monad.return (Inl e)
      | None \<Rightarrow>
          if rp_send resp = SEND_SUCCESS
             \<or> (rp_send resp \<noteq> SEND_FAILURE_2 \<and> rp_send resp \<noteq> SEND_FAILURE_3)
          then State_Monad.return (Inr resp)
          else do {
            w \<leftarrow> pause env b;
            if w = Woke_Done then State_Monad.return (Inl [ErrContextCanceled])
            else do {
              resp' \<leftarrow> rpc_call env client (SendMessage req);
              send_retry env client req bs resp'
            }
          })"

definition sendToRelay :: "env \<Rightarrow> nat \<Rightarrow> send_request \<Rightarrow> go_error option prog" where
  "sendToRelay env client req = do {
     resp \<leftarrow> rpc_call env client (SendMessage req);
     r \<leftarrow> send_retry env client req sendRetryBackoff resp;
     State_Monad.return (case r of
         Inl e \<Rightarrow> Some e
       | Inr resp \<Rightarrow> if rp_send resp \<noteq> SEND_SUCCESS then Some [ErrOther] else None)
   }"

definition outgoing_request ::
  "go_string \<Rightarrow> go_string \<Rightarrow> convMeta \<Rightarrow> info_data list \<Rightarrow> go_string \<Rightarrow> session \<Rightarrow> send_request" where
  "outgoing_request convID txn meta infos replyTo s =
     \<lparr>sr_ConversationID = convID,
      sr_MessagePayload =
        \<lparr>mp_TmpID = txn, mp_ConversationID = convID, mp_ParticipantID = cm_outgoingID meta,
         mp_TmpID2 = txn, mp_MessageInfo = infos\<rparr>,
      sr_SIMPayload = metaSIM s meta,
      sr_TmpID = txn, sr_ForceRCS = False,
      sr_Reply = (if replyTo \<noteq> [] then Some replyTo else None)\<rparr>"

text \<open>Accept the command, then relay it: the common end of \<open>SendText\<close> and \<open>SendMedia\<close>.\<close>

definition queue_and_send ::
  "env \<Rightarrow> nat \<Rightarrow> go_string \<Rightarrow> go_string \<Rightarrow> go_string \<Rightarrow> send_request \<Rightarrow> unit prog" where
  "queue_and_send env client requestID convID txn req = do {
     sweepPending;
     State_Monad.update (\<lambda>s. s\<lparr>s_pending := AList.update txn
       \<lparr>ps_requestID = requestID, ps_convID = convID, ps_at = s_now s\<rparr> (s_pending s)\<rparr>);
     send_result requestID True [];
     s \<leftarrow> State_Monad.get;
     fire (status_event (s_account s) convID txn ''accepted'');
     err \<leftarrow> sendToRelay env client req;
     case err of
       None \<Rightarrow> State_Monad.return ()
     | Some e \<Rightarrow>
         if errors_Is e ErrPhoneNotResponding then State_Monad.return ()
         else do {
           State_Monad.update (\<lambda>s. s\<lparr>s_pending := AList.delete txn (s_pending s)\<rparr>);
           relayFailure convID txn
         }
   }"

definition SendText :: "env \<Rightarrow> go_string \<Rightarrow> go_string \<Rightarrow> go_string \<Rightarrow> go_string \<Rightarrow> unit prog" where
  "SendText env requestID convID text replyTo =
     (if length (runes text) = 0 \<or> length (runes text) > MaxTextChars
      then failure requestID ''text rejected''
      else do {
        m \<leftarrow> threadMeta env convID;
        case m of
          None \<Rightarrow> failure requestID ''unknown conversation''
        | Some meta \<Rightarrow> do {
            s \<leftarrow> State_Monad.get;
            let txn = e_tmpID env s;
            let req = outgoing_request convID txn meta [Info_Message text] replyTo s;
            case s_client s of
              None \<Rightarrow> failure requestID ''not connected''
            | Some client \<Rightarrow> queue_and_send env client requestID convID txn req
          }
      })"

subsection \<open>Staged uploads\<close>

text \<open>\<open>withinPath\<close>: the relative path of \<open>path\<close> from \<open>dir\<close> is neither \<open>.\<close> nor climbs out.\<close>

definition withinPath :: "go_string \<Rightarrow> go_string \<Rightarrow> go_string \<Rightarrow> bool" where
  "withinPath cwd path dir \<longleftrightarrow>
     dir \<noteq> [] \<and> is_abs dir \<and> strict_prefix (clean_abs dir) (abs_path cwd path)"

definition withinDir :: "env \<Rightarrow> go_string \<Rightarrow> go_string \<Rightarrow> session \<Rightarrow> bool" where
  "withinDir env path dir s \<longleftrightarrow>
     withinPath (e_cwd env) path dir
     \<and> (case tree_lstat (s_files s) (e_cwd env) path of Some (Plain data) \<Rightarrow> True | _ \<Rightarrow> False)"

definition daemonStagingDir :: "env \<Rightarrow> go_string" where
  "daemonStagingDir env =
     (if e_xdgState env \<noteq> [] then e_xdgState env @ ''/handover/gmessages/staging''
      else (case e_home env of
              None \<Rightarrow> []
            | Some home \<Rightarrow> home @ ''/.local/state/handover/gmessages/staging''))"

text \<open>\<open>os.Remove\<close>, its error ignored.\<close>

definition remove_entry :: "env \<Rightarrow> go_string \<Rightarrow> unit prog" where
  "remove_entry env p = do {
     act (RemoveFile p);
     do_when (\<not> e_faults env SysRemove p)
       (State_Monad.update (\<lambda>s. s\<lparr>s_files := tree_remove (s_files s) (e_cwd env) p\<rparr>))
   }"

definition removeStagedSource :: "env \<Rightarrow> go_string \<Rightarrow> unit prog" where
  "removeStagedSource env path =
     (if e_faults env SysMkdir ''staged'' then State_Monad.return ()
      else do {
        s \<leftarrow> State_Monad.get;
        if \<not> withinDir env path (e_stageDir env) s \<and> \<not> withinDir env path (daemonStagingDir env) s
        then State_Monad.return ()
        else do {
          remove_entry env path;
          do_when (withinPath (e_cwd env) (dir_path path) (e_stageDir env)
                   \<or> withinPath (e_cwd env) (dir_path path) (daemonStagingDir env))
            (remove_entry env (dir_path path))
        }
      })"

text \<open>The base name: what follows the last slash.\<close>

definition upload_name :: "go_string \<Rightarrow> go_string" where
  "upload_name p = rev (takeWhile (\<lambda>c. c \<noteq> CHR ''/'') (rev p))"

definition readStagedUpload :: "env \<Rightarrow> go_string \<Rightarrow> (bytes \<times> go_string \<times> go_string) option prog" where
  "readStagedUpload env path = do {
     s \<leftarrow> State_Monad.get;
     case tree_open (s_files s) (e_cwd env) path of
       Some (Plain data) \<Rightarrow>
         if length data > MaxStagedBytes \<or> e_faults env SysRead path then State_Monad.return None
         else do {
           removeStagedSource env path;
           State_Monad.return (Some (data, upload_name path, e_detectType env data))
         }
     | _ \<Rightarrow> State_Monad.return None
   }"

definition media_infos :: "media_content \<Rightarrow> go_string \<Rightarrow> go_string \<Rightarrow> convMeta \<Rightarrow> info_data list" where
  "media_infos uploaded caption name meta =
     Info_Media uploaded #
     (if caption \<noteq> [] \<and> caption \<noteq> name \<and> cm_convType meta \<noteq> CT_RCS then [Info_Message caption] else [])"

definition SendMedia :: "env \<Rightarrow> go_string \<Rightarrow> go_string \<Rightarrow> go_string \<Rightarrow> go_string \<Rightarrow> unit prog" where
  "SendMedia env requestID convID path caption = do {
     file \<leftarrow> readStagedUpload env path;
     case file of
       None \<Rightarrow> failure requestID ''unreadable file''
     | Some (data, name, mime) \<Rightarrow> do {
         m \<leftarrow> threadMeta env convID;
         case m of
           None \<Rightarrow> failure requestID ''unknown conversation''
         | Some meta \<Rightarrow> do {
             s \<leftarrow> State_Monad.get;
             case s_client s of
               None \<Rightarrow> failure requestID ''not connected''
             | Some client \<Rightarrow> do {
                 up \<leftarrow> rpc_call env client (UploadMedia data name mime);
                 if rp_err up \<noteq> None then failure requestID ''media upload failed''
                 else do {
                   s \<leftarrow> State_Monad.get;
                   let txn = e_tmpID env s;
                   queue_and_send env client requestID convID txn
                     (outgoing_request convID txn meta (media_infos (rp_media up) caption name meta) [] s)
                 }
               }
           }
       }
   }"

subsection \<open>Reactions\<close>

record reactionSelfState =
  rs_present :: bool
  rs_other :: bool

definition isSelfID :: "go_string \<Rightarrow> session \<Rightarrow> bool" where
  "isSelfID i s \<longleftrightarrow> (if i = [] \<or> i = selfSentinel then i = selfSentinel else i \<in> s_selfIDs s)"

definition react_entry ::
  "go_string \<Rightarrow> session \<Rightarrow> reaction_entry \<Rightarrow> reactionSelfState \<Rightarrow> reactionSelfState" where
  "react_entry emoji s entry st =
     (if \<exists>i \<in> set (re_ParticipantIDs entry). isSelfID i s
      then (if re_Unicode entry = emoji then st\<lparr>rs_present := True\<rparr> else st\<lparr>rs_other := True\<rparr>)
      else st)"

definition roster_state ::
  "go_string \<Rightarrow> go_string \<Rightarrow> session \<Rightarrow> pb_message option list \<Rightarrow> reactionSelfState option" where
  "roster_state msgID emoji s msgs =
     (let hits = filter (\<lambda>m. (case m of None \<Rightarrow> [] | Some m \<Rightarrow> pm_MessageID m) = msgID) msgs in
      if hits = [] then None
      else Some (fold (\<lambda>m st. case m of None \<Rightarrow> st | Some m \<Rightarrow> fold (react_entry emoji s) (pm_Reactions m) st)
                   hits \<lparr>rs_present = False, rs_other = False\<rparr>))"

definition selfReactionState ::
  "env \<Rightarrow> go_string \<Rightarrow> go_string \<Rightarrow> go_string \<Rightarrow> reactionSelfState option prog" where
  "selfReactionState env convID msgID emoji = do {
     s \<leftarrow> State_Monad.get;
     case s_client s of
       None \<Rightarrow> State_Monad.return None
     | Some client \<Rightarrow> do {
         resp \<leftarrow> rpc_call env client (FetchMessages convID (of_nat cachePerConv) None);
         s \<leftarrow> State_Monad.get;
         State_Monad.return (if rp_err resp \<noteq> None then None
                             else roster_state msgID emoji s (rp_msgs resp))
       }
   }"

text \<open>\<open>None\<close>: nothing to do, the relay already shows what was asked for.\<close>

definition react_action :: "bool \<Rightarrow> reactionSelfState \<Rightarrow> reaction_action option" where
  "react_action add st =
     (if \<not> add then (if \<not> rs_present st then None else Some REACT_REMOVE)
      else if rs_present st then None
      else if rs_other st then Some REACT_SWITCH
      else Some REACT_ADD)"

definition outgoing_of :: "go_string \<Rightarrow> session \<Rightarrow> go_string" where
  "outgoing_of convID s = (case map_of (s_metas s) convID of None \<Rightarrow> [] | Some m \<Rightarrow> cm_outgoingID m)"

definition React :: "env \<Rightarrow> go_string \<Rightarrow> go_string \<Rightarrow> go_string \<Rightarrow> go_string \<Rightarrow> bool \<Rightarrow> unit prog" where
  "React env requestID convID msgID emoji add =
     (if emoji = [] then failure requestID ''reaction rejected''
      else do {
        st \<leftarrow> selfReactionState env convID msgID emoji;
        case st of
          None \<Rightarrow> failure requestID ''unknown message''
        | Some st \<Rightarrow>
            (case react_action add st of
               None \<Rightarrow> send_result requestID True []
             | Some action \<Rightarrow> do {
                 s \<leftarrow> State_Monad.get;
                 case s_client s of
                   None \<Rightarrow> failure requestID ''not connected''
                 | Some client \<Rightarrow> do {
                     resp \<leftarrow> rpc_call env client
                       (SendReaction msgID emoji action (simPayload (outgoing_of convID s) s));
                     if rp_err resp \<noteq> None \<or> \<not> rp_success resp
                     then failure requestID ''reaction failed''
                     else send_result requestID True []
                   }
               })
      })"

subsection \<open>Read receipts, typing, deletion, opening\<close>

definition refresh_thread :: "env \<Rightarrow> go_string \<Rightarrow> unit prog" where
  "refresh_thread env convID = do {
     r \<leftarrow> getConversation env convID;
     case r of
       Inl e \<Rightarrow> State_Monad.return ()
     | Inr conv \<Rightarrow> do {
         m \<leftarrow> session_mapConversation conv;
         case m of
           Inl e \<Rightarrow> State_Monad.return ()
         | Inr (mapped, meta) \<Rightarrow> do {
             set_meta convID meta;
             s \<leftarrow> State_Monad.get;
             fire (conversations_event (s_account s) [mapped] False 0)
           }
       }
   }"

definition mark_read :: "env \<Rightarrow> go_string \<Rightarrow> go_string \<Rightarrow> unit prog" where
  "mark_read env convID msgID =
     (if msgID = [] then fire_error ''nothing to mark read''
      else do {
        s \<leftarrow> State_Monad.get;
        case s_client s of
          None \<Rightarrow> fire_error ''not connected''
        | Some client \<Rightarrow> do {
            resp \<leftarrow> rpc_call env client (RpcMarkRead convID msgID);
            if rp_err resp \<noteq> None then fire_error ''mark read failed''
            else do {
              s \<leftarrow> State_Monad.get;
              fire ((mk_event ''read'')\<lparr>ev_Account := s_account s, ev_Conversation := convID,
                ev_LastReadMessage := msgID, ev_Unread := False\<rparr>);
              refresh_thread env convID
            }
          }
      })"

definition MarkRead :: "env \<Rightarrow> go_string \<Rightarrow> go_string \<Rightarrow> unit prog" where
  "MarkRead env convID msgID =
     (if msgID \<noteq> [] then mark_read env convID msgID
      else do {
        r \<leftarrow> getConversation env convID;
        case r of
          Inl e \<Rightarrow> fire_error ''unknown conversation''
        | Inr conv \<Rightarrow> mark_read env convID (case conv of None \<Rightarrow> [] | Some c \<Rightarrow> pc_LatestMessageID c)
      })"

definition Typing :: "env \<Rightarrow> go_string \<Rightarrow> unit prog" where
  "Typing env convID = do {
     s \<leftarrow> State_Monad.get;
     if s_typingActive s then State_Monad.return ()
     else do {
       State_Monad.update (\<lambda>s. s\<lparr>s_typingActive := True\<rparr>);
       (case s_client s of
          None \<Rightarrow> fire_error ''not connected''
        | Some client \<Rightarrow> do {
            resp \<leftarrow> rpc_call env client (SetTyping convID (simPayload (outgoing_of convID s) s));
            do_when (rp_err resp \<noteq> None) (fire_error ''typing ping failed'')
          });
       State_Monad.update (\<lambda>s. s\<lparr>s_typingActive := False\<rparr>)
     }
   }"

definition DeleteMessage :: "env \<Rightarrow> go_string \<Rightarrow> go_string \<Rightarrow> unit prog" where
  "DeleteMessage env requestID msgID = do {
     s \<leftarrow> State_Monad.get;
     case s_client s of
       None \<Rightarrow> failure requestID ''not connected''
     | Some client \<Rightarrow> do {
         resp \<leftarrow> rpc_call env client (RpcDeleteMessage msgID);
         if rp_err resp \<noteq> None then failure requestID ''delete failed''
         else send_result requestID True []
       }
   }"

text \<open>The request of \<open>Open\<close>; the second step asks for an RCS group with an empty name.\<close>

definition resolve_thread :: "env \<Rightarrow> nat \<Rightarrow> go_string list \<Rightarrow> reply prog" where
  "resolve_thread env client addresses = do {
     resp \<leftarrow> rpc_call env client (GetOrCreateConversation addresses None);
     if rp_err resp = None \<and> length addresses > 1 \<and> rp_createRCS resp
     then rpc_call env client (GetOrCreateConversation addresses (Some ([], True)))
     else State_Monad.return resp
   }"

definition open_thread :: "env \<Rightarrow> go_string \<Rightarrow> unit prog" where
  "open_thread env convID = do {
     r \<leftarrow> getConversation env convID;
     case r of
       Inl e \<Rightarrow> State_Monad.return ()
     | Inr conv \<Rightarrow> do {
         m \<leftarrow> session_mapConversation conv;
         case m of
           Inl e \<Rightarrow> State_Monad.return ()
         | Inr (mapped, meta) \<Rightarrow> do {
             set_meta (conv_id conv) meta;
             s \<leftarrow> State_Monad.get;
             fire (conversations_event (s_account s) [mapped] False 0);
             emitWindow env (conv_id conv) messageWindow None False True 0 None
           }
       }
   }"

definition Open :: "env \<Rightarrow> go_string \<Rightarrow> go_string list \<Rightarrow> unit prog" where
  "Open env requestID addresses =
     (if addresses = [] then failure requestID ''no addresses''
      else do {
        s \<leftarrow> State_Monad.get;
        case s_client s of
          None \<Rightarrow> failure requestID ''not connected''
        | Some client \<Rightarrow> do {
            resp \<leftarrow> resolve_thread env client addresses;
            if rp_err resp \<noteq> None \<or> conv_id (rp_conv resp) = []
            then failure requestID ''open failed''
            else do {
              send_result requestID True [];
              open_thread env (conv_id (rp_conv resp))
            }
          }
      })"

subsection \<open>The end of a session\<close>

definition teardown :: "unit prog" where
  "teardown = State_Monad.update (\<lambda>s.
     s\<lparr>s_client := None, s_auth := None, s_connected := False, s_authenticated := False,
       s_lifecycle := next_lifecycle (s_lifecycle s)\<rparr>)"

text \<open>The storage half of \<open>Logout\<close>; the result is Go's.\<close>

definition forget_session :: "env \<Rightarrow> bool prog" where
  "forget_session env = do {
     err \<leftarrow> remove_session env;
     s \<leftarrow> State_Monad.get;
     case err of
       Some e \<Rightarrow> do {
         teardown;
         fire (account_event (s_account s) False False);
         fire (error_event (s_account s) ''deleting session failed'');
         State_Monad.return False
       }
     | None \<Rightarrow> do {
         teardown;
         fire ((mk_event ''account_removed'')\<lparr>ev_Account := s_account s\<rparr>);
         State_Monad.return True
       }
   }"

definition Logout :: "env \<Rightarrow> bool prog" where
  "Logout env = do {
     stop_pairing;
     s \<leftarrow> State_Monad.get;
     bumpLifecycle;
     case s_client s of
       None \<Rightarrow> forget_session env
     | Some client \<Rightarrow> do {
         resp \<leftarrow> rpc_call env client Unpair;
         if rp_err resp \<noteq> None then do {
           fire_error ''remote revoke failed, session kept'';
           State_Monad.return False
         }
         else do {
           act (Disconnect client);
           forget_session env
         }
       }
   }"

definition Close :: "unit prog" where
  "Close = do {
     State_Monad.update (\<lambda>s. s\<lparr>s_closed := True\<rparr>);
     stop_pairing;
     stop_connecting;
     s \<leftarrow> State_Monad.get;
     State_Monad.update (\<lambda>s. s\<lparr>s_lifecycle := next_lifecycle (s_lifecycle s)\<rparr>);
     (case s_client s of None \<Rightarrow> State_Monad.return () | Some client \<Rightarrow> act (Disconnect client))
   }"

end
