(* ===== verification/WireTypes.thy ===== *)
theory WireTypes
  imports SendOps
begin

text \<open>
  What the values on the wire look like: a well-formed message and event, and the values the programs
  of the session return, whatever state they run in and whatever the relay answers.
\<close>

subsection \<open>Well-formed messages\<close>

definition wf_attachment :: "attachment \<Rightarrow> bool" where
  "wf_attachment a \<longleftrightarrow> a_LocalID a \<noteq> [] \<and> a_SizeBytes a \<noteq> Some 0"

definition wf_reaction :: "reaction \<Rightarrow> bool" where
  "wf_reaction r \<longleftrightarrow> r_Emoji r \<noteq> [] \<and> r_ParticipantIDs r \<noteq> []"

definition wf_message :: "message \<Rightarrow> bool" where
  "wf_message m \<longleftrightarrow>
     m_LocalID m \<noteq> [] \<and> m_Transport m \<in> {''sms'', ''rcs'', []} \<and> m_SentAt m \<noteq> Some 0
     \<and> clean_text (m_Text m)
     \<and> list_all wf_attachment (m_Attachments m) \<and> list_all wf_reaction (m_Reactions m)
     \<and> \<not> m_Deleted m"

lemma runes_encode_append: "list_all valid_rune rs \<Longrightarrow> runes (encode_runes rs @ s) = rs @ runes s"
  by (induction rs) (simp_all add: runes_encode_Cons)

lemma encode_runes_append: "encode_runes (rs @ qs) = encode_runes rs @ encode_runes qs"
  by (induction rs) simp_all

lemma clean_text_append: "clean_text a \<Longrightarrow> clean_text b \<Longrightarrow> clean_text (a @ b)"
proof -
  assume a: "clean_text a" and b: "clean_text b"
  then have "runes (a @ b) = runes a @ runes b"
    using runes_encode_append [OF runes_valid [of a], of b] by (simp add: clean_text_def valid_utf8_def)
  with a b show ?thesis by (simp add: clean_text_def valid_utf8_def encode_runes_append)
qed

lemma clean_text_join: "list_all clean_text ts \<Longrightarrow> clean_text (go_join [CHR 0x0A] ts)"
proof (induction "[CHR 0x0A]" ts rule: go_join.induct)
  case 1
  show ?case by (simp add: clean_text_def)
next
  case (3 x y xs)
  have "clean_text [CHR 0x0A]" by (rule clean_text_ascii) (simp add: keep_rune_def)
  with 3 show ?case
    using clean_text_append [of x] clean_text_append [of "[CHR 0x0A]" "go_join [CHR 0x0A] (y # xs)"] by simp
qed simp

lemma mapReactions_wf: "list_all wf_reaction (mapReactions es)"
  by (induction es rule: mapReactions.induct) (simp_all add: wf_reaction_def)

subsection \<open>What programs return\<close>

definition yields :: "'a prog \<Rightarrow> ('a \<Rightarrow> bool) \<Rightarrow> bool" where
  "yields m P \<longleftrightarrow> (\<forall>s. wp m (\<lambda>x _. P x) s)"

lemma yields_return: "P x \<Longrightarrow> yields (State_Monad.return x) P"
  by (simp add: yields_def wp_simps)

lemma yields_bind: "yields m Q \<Longrightarrow> (\<And>x. Q x \<Longrightarrow> yields (f x) P) \<Longrightarrow> yields (State_Monad.bind m f) P"
  by (auto simp: yields_def wp_bind intro: wp_mono)

lemma yields_any: "yields m (\<lambda>_. True)"
  by (simp add: yields_def wp_all)

lemma yields_let: "(\<And>x. yields (f x) P) \<Longrightarrow> yields (let x = a in f x) P"
  by simp

lemmas yields_skip = yields_bind [OF yields_any]

lemma keeps_bind_yields:
  "keeps I m \<Longrightarrow> yields m P \<Longrightarrow> (\<And>x. P x \<Longrightarrow> keeps I (f x)) \<Longrightarrow> keeps I (State_Monad.bind m f)"
proof
  fix s assume m: "keeps I m" "yields m P" and f: "\<And>x. P x \<Longrightarrow> keeps I (f x)" and "I s"
  then have "wp m (\<lambda>x t. P x \<and> I t) s" by (simp add: wp_conj yields_def hoareD)
  then show "wp (State_Monad.bind m f) (\<lambda>_. I) s"
    unfolding wp_bind by (rule wp_mono) (blast intro: hoareD [OF f])
qed

definition wf_mapping :: "'a + conversation \<times> convMeta \<Rightarrow> bool" where
  "wf_mapping r \<longleftrightarrow> (\<forall>v meta. r = Inr (v, meta) \<longrightarrow> wf_conversation v)"

lemma wf_mapping_simps [simp]:
  "wf_mapping (Inl e)" "wf_mapping (Inr (v, meta)) = wf_conversation v"
  by (simp_all add: wf_mapping_def)

lemma session_map_yields: "yields (session_mapConversation conv) wf_mapping"
proof -
  have "wf_conversation v" if "mapConversation conv known = Inr (v, meta)" for v meta known
    using that
  proof (cases conv)
    case (Some c)
    with that show ?thesis by (simp only: mapConversation_wf)
  qed (simp add: mapConversation_def)
  then show ?thesis
    by (auto simp: yields_def session_mapConversation_def wp_simps split: sum.split)
qed

definition wf_result :: "thread_result option \<Rightarrow> bool" where
  "wf_result r \<longleftrightarrow> (\<forall>x. r = Some x \<longrightarrow> wf_conversation (tr_thread x))"

lemma sync_job_yields: "yields (sync_job env lc conv) wf_result"
  unfolding sync_job_def
proof (rule yields_bind [OF session_map_yields], rule yields_bind [where Q = wf_mapping])
  fix r :: "go_string + conversation \<times> convMeta" assume "wf_mapping r"
  then show "yields (case r of Inl e \<Rightarrow>
      if pc_Participants conv = [] then do {
        full \<leftarrow> getConversation env (pc_ConversationID conv);
        case full of Inl e \<Rightarrow> State_Monad.return (Inl ''fetch'') | Inr c \<Rightarrow> session_mapConversation c }
      else State_Monad.return (Inl e) | Inr x \<Rightarrow> State_Monad.return (Inr x)) wf_mapping"
    by (auto intro!: yields_return yields_skip session_map_yields split: sum.split)
next
  fix r :: "go_string + conversation \<times> convMeta" assume "wf_mapping r"
  then show "yields (case r of Inl e \<Rightarrow> State_Monad.return None | Inr (mapped, meta) \<Rightarrow> do {
        s \<leftarrow> State_Monad.get;
        if \<not> current lc s then State_Monad.return None
        else do {
          set_meta (pc_ConversationID conv) meta;
          State_Monad.return (Some \<lparr>tr_thread = mapped, tr_unread = pc_Unread conv\<rparr>)
        } }) wf_result"
    by (auto intro!: yields_return yields_skip simp: wf_result_def split: sum.split)
qed

lemma sync_jobs_yields:
  "list_all wf_result rs \<Longrightarrow> yields (sync_jobs env lc convs js rs) (list_all wf_result)"
proof (induction js arbitrary: rs)
  case (Cons j js)
  have "list_all wf_result (rs[j := r])" if "wf_result r" for r
    using Cons.prems that set_update_subset_insert [of rs j r] by (auto simp: list_all_iff)
  then show ?case
    by (auto intro!: yields_bind [OF sync_job_yields] Cons.IH)
qed (simp add: yields_return)

lemma wf_results_threads: "list_all wf_result rs \<Longrightarrow> \<forall>r \<in> set (List.map_filter (\<lambda>r. r) rs). wf_conversation (tr_thread r)"
  by (auto simp: List.map_filter_def wf_result_def list_all_iff)

lemma stage_yields: "pm_MessageID msg \<noteq> [] \<Longrightarrow> yields (stageMedia env msg part i download) wf_attachment"
  by (auto simp: stageMedia_def wf_attachment_def Let_def intro!: yields_return yields_skip split: option.split)

lemma stage_all_yields:
  "pm_MessageID msg \<noteq> [] \<Longrightarrow> yields (stage_all env msg download i parts) (list_all wf_attachment)"
proof (induction parts arbitrary: i)
  case (Cons part parts)
  then show ?case
    by (auto intro!: yields_bind [OF stage_yields] yields_bind [OF Cons.IH] yields_return)
qed (simp add: yields_return)

lemma map_message_yields:
  "yields (mapMessage env conv m download lc) (\<lambda>(out, removed). \<forall>x. out = Some x \<longrightarrow> wf_message x)"
proof (cases m)
  case (Some msg)
  have none: "yields (State_Monad.return (None, r)) (\<lambda>(x, removed). \<forall>y. x = Some y \<longrightarrow> wf_message y)"
    for r :: go_string
    by (simp add: yields_return)
  have clean: "clean_text (go_join [CHR 0x0A] (map sanitizeText ts))" for ts
    by (rule clean_text_join) (simp add: list_all_iff clean_text_sanitizeText)
  show ?thesis
  proof (cases "pm_MessageID msg = []")
    case False
    then show ?thesis
      unfolding mapMessage_def Some option.case Let_def
      by (auto intro!: none yields_skip yields_bind [OF stage_all_yields [OF False]] yields_return
          simp: wf_message_def clean mapReactions_wf)
  qed (simp add: mapMessage_def Some none)
qed (simp add: mapMessage_def yields_return)

lemma map_window_yields: "yields (map_window env conv download lc ms) (list_all wf_message)"
proof (induction ms)
  case (Cons m ms)
  show ?case
    unfolding map_window.simps
    by (rule yields_bind [OF map_message_yields])
       (auto intro!: yields_skip Cons.IH yields_bind [OF Cons.IH] yields_return split: option.split)
qed (simp add: yields_return)

subsection \<open>Well-formed events\<close>

definition event_tokens :: "go_string set" where
  "event_tokens = {''hello'', ''account'', ''account_removed'', ''pairing'', ''conversations'', ''messages'',
     ''message_removed'', ''status'', ''typing'', ''read'', ''command_result'', ''error''}"

text \<open>An event of the contract: its type is known, every conversation and message it carries is well
  formed, a status is one of the nine signals, and a result with an error text is not a success.\<close>

definition wf_event :: "event \<Rightarrow> bool" where
  "wf_event e \<longleftrightarrow>
     ev_Type e \<in> event_tokens
     \<and> list_all wf_conversation (nonNilConversations (ev_Conversations e))
     \<and> list_all wf_message (nonNilMessages (ev_Messages e))
     \<and> (ev_Type e = ''status'' \<longrightarrow> ev_Status e \<in> signal_tokens)
     \<and> (ev_Type e = ''command_result'' \<and> ev_OK e \<longrightarrow> ev_Error e = [])"

text \<open>What a session may say outside of the answer to a request.\<close>

definition wire_event :: "event \<Rightarrow> bool" where
  "wire_event e \<longleftrightarrow> wf_event e \<and> ev_Type e \<noteq> ''command_result''"

lemma wire_eventD: "wire_event e \<Longrightarrow> wf_event e" "wire_event e \<Longrightarrow> ev_Type e \<noteq> ''command_result''"
  by (simp_all add: wire_event_def)

lemmas event_defs = mk_event_def account_event_def error_event_def message_removed_def conversations_event_def
  messages_event_def status_event_def pairing_event_def result_event_def

lemma wf_result_event: "wf_event (result_event rid ok err)"
  by (simp add: wf_event_def event_defs event_tokens_def nonNilConversations_def nonNilMessages_def)

lemma wire_events [simp]:
  "wire_event (account_event a b d)"
  "wire_event (error_event a m)"
  "wire_event (message_removed a c m)"
  "wire_event (pairing_event a em)"
  "wire_event ((mk_event ''account_removed'')\<lparr>ev_Account := a\<rparr>)"
  "wire_event ((mk_event ''typing'')\<lparr>ev_Account := a, ev_Conversation := c, ev_Participants := ps\<rparr>)"
  "wire_event ((mk_event ''read'')\<lparr>ev_Account := a, ev_Conversation := c, ev_LastReadMessage := l, ev_Unread := u\<rparr>)"
  "wire_event ((mk_event ''read'')\<lparr>ev_Account := a, ev_Conversation := c, ev_Unread := u\<rparr>)"
  "wire_event (conversations_event a cs f g) = list_all wf_conversation cs"
  "wire_event (messages_event a c ms f) = list_all wf_message ms"
  "wire_event ((mk_event ''messages'')\<lparr>ev_Account := a, ev_Conversation := c, ev_Messages := Some ms\<rparr>)
     = list_all wf_message ms"
  "wire_event (status_event a c m st) = (st \<in> signal_tokens)"
  "wire_event ((mk_event ''status'')\<lparr>ev_Account := a, ev_Conversation := c, ev_Message := m, ev_Status := st\<rparr>)
     = (st \<in> signal_tokens)"
  by (simp_all add: wire_event_def wf_event_def event_defs event_tokens_def nonNilConversations_def
      nonNilMessages_def)

lemma sent_tokens [simp]: "''accepted'' \<in> signal_tokens" "''failed:transport'' \<in> signal_tokens"
  by (simp_all add: signal_tokens_def)

lemma chunk_sets:
  "c \<in> set (chunk_conversations a ths []) \<Longrightarrow> set c \<subseteq> set ths"
  "d \<in> set (chunk_messages a conv full ms []) \<Longrightarrow> set d \<subseteq> set ms"
  by (metis append_Nil conv_chunks.concat_chunk set_concat UN_upper,
      metis append_Nil msg_chunks.concat_chunk set_concat UN_upper)

lemma enumerated: "(i, x) \<in> set (enumerate 0 xs) \<Longrightarrow> x \<in> set xs"
  by (auto simp: in_set_enumerate_eq)

lemma conversation_events_wire:
  assumes "list_all wf_conversation ths" and "e \<in> set (conversation_events a ths g auth)"
  shows "wire_event e"
proof -
  have "wire_event (conversations_event a chunk full gen)" if "chunk \<in> set (chunk_conversations a ths [])" for chunk full gen
    using assms(1) chunk_sets(1) [OF that] by (auto simp: list_all_iff)
  with assms show ?thesis
    by (auto simp: conversation_events_def Let_def split: if_splits dest!: enumerated)
qed

lemma message_events_wire:
  assumes "list_all wf_message ms" and "e \<in> set (message_events a c ms f cur fid g)"
  shows "wire_event e"
proof -
  have upd: "wire_event (e\<lparr>ev_PageComplete := p, ev_FetchID := q\<rparr>) = wire_event e"
    "wire_event (e\<lparr>ev_Generation := x, ev_FetchID := q\<rparr>) = wire_event e"
    "wire_event (e\<lparr>ev_CursorNext := y, ev_PageComplete := p\<rparr>) = wire_event e" for e p q x y
    by (simp_all add: wire_event_def wf_event_def)
  have "wire_event (messages_event a c chunk full)" if "chunk \<in> set (chunk_messages a c f ms [])" for chunk full
    using assms(1) chunk_sets(2) [OF that] by (auto simp: list_all_iff)
  with assms show ?thesis
    by (auto simp: message_events_def Let_def upd split: if_splits dest!: enumerated)
qed

end
