(* ===== verification/Invariants.thy ===== *)
theory Invariants
  imports WireTypes
begin

text \<open>
  What every operation of a session preserves. The operations are programs over a few primitive
  updates, so an invariant of the primitives is an invariant of all of them: \<open>quiet_invariant\<close>
  states the primitives' obligations and closes the operations that emit nothing under them,
  \<open>handler_invariant\<close> adds emission while a captured lifecycle is current (the relay event
  handler), \<open>session_invariant\<close> emission of anything but a command result, and
  \<open>command_invariant\<close> the results. The interpretations are the bounds of the session's tables,
  silence after \<open>Close\<close>, and the lifecycle fence. The state machine \<open>session_step\<close> runs any
  operation from any state, and its reachable sessions carry the first two.
\<close>

text \<open>The fields an invariant may depend on.\<close>

definition core :: "session \<Rightarrow> _" where
  "core s = (s_trace s, s_closed s, s_lifecycle s, s_dirtyConvs s, s_dirtyOrder s, s_events s,
     s_cache s, s_pending s, s_fullReq s)"

fun emits :: "action \<Rightarrow> bool" where
  "emits (Emit e) = True"
| "emits _ = False"

locale quiet_invariant =
  fixes I :: "session \<Rightarrow> bool" and env :: env
  assumes core_cong: "core s = core t \<Longrightarrow> I s \<Longrightarrow> I t"
    and quiet_act: "\<not> emits a \<Longrightarrow> I s \<Longrightarrow> I (s\<lparr>s_trace := s_trace s @ [stamp s a]\<rparr>)"
    and relay: "e_relay env c q s = (r, t) \<Longrightarrow> I s \<Longrightarrow> I (t\<lparr>s_trace := s_trace s @ [stamp s (Call c q)]\<rparr>)"
    and wait: "e_wait env d s = (w, t) \<Longrightarrow> I s \<Longrightarrow> I (t\<lparr>s_trace := s_trace s @ [stamp s (Pause d)]\<rparr>)"
    and caching: "I s \<Longrightarrow> I (s\<lparr>s_cache := remember pick conv k (s_cache s)\<rparr>)"
    and req_expiry: "I s \<Longrightarrow> I (s\<lparr>s_fullReq := filter P (s_fullReq s)\<rparr>)"
    and req_note: "I s \<Longrightarrow> I (s\<lparr>s_fullReq := AList.update key at (s_fullReq s)\<rparr>)"
    and pending_expiry: "I s \<Longrightarrow> I (s\<lparr>s_pending := filter Q (s_pending s)\<rparr>)"
    and pending_note: "I s \<Longrightarrow> I (s\<lparr>s_pending := AList.update txn send (s_pending s)\<rparr>)"
    and pending_drop: "I s \<Longrightarrow> I (s\<lparr>s_pending := AList.delete txn (s_pending s)\<rparr>)"
    and dirty_drain: "I s \<Longrightarrow> I (s\<lparr>s_dirtyConvs := {}, s_dirtyOrder := []\<rparr>)"
    and dequeue: "s_events s = qe # qs \<Longrightarrow> I s \<Longrightarrow> I (s\<lparr>s_events := qs\<rparr>)"
    and bump: "I s \<Longrightarrow> I (s\<lparr>s_lifecycle := v\<rparr>)"
begin

lemma upd: "(\<And>s. core (f s) = core s) \<Longrightarrow> keeps I (State_Monad.update f)"
  by (rule keeps_update) (metis core_cong)

lemma act_keeps: "\<not> emits a \<Longrightarrow> keeps I (act a)"
  by (simp add: hoare_def wp_simps quiet_act)

lemma rpc_keeps: "keeps I (rpc_call env c q)"
  by (auto simp: hoare_def wp_simps relay split: prod.split)

lemma pause_keeps: "keeps I (pause env d)"
  by (auto simp: hoare_def wp_simps wait split: prod.split)

lemma fresh_keeps: "keeps I fresh"
  using core_cong by (auto simp: hoare_def wp_simps core_def)

lemma sync_gen_keeps: "keeps I nextGeneration"
  using core_cong by (auto simp: hoare_def wp_simps core_def)

lemma bump_keeps: "keeps I bumpLifecycle"
  by (auto simp: hoare_def wp_simps bump)

lemma remember_keeps: "keeps I (rememberMessage env conv msg self)"
  unfolding rememberMessage_def by (rule keeps_update) (rule caching)

lemmas leaf_keeps = act_keeps rpc_keeps pause_keeps fresh_keeps sync_gen_keeps bump_keeps
  remember_keeps

lemma cancel_keeps: "keeps I (cancel c)"
  unfolding cancel_def by (intro keeps_rules leaf_keeps upd) (simp_all add: core_def)

lemma stop_pairing_keeps: "keeps I stop_pairing"
  unfolding stop_pairing_def
  by (intro keeps_rules cancel_keeps upd) (simp_all add: core_def)

lemma stop_connecting_keeps: "keeps I stop_connecting"
  unfolding stop_connecting_def
  by (intro keeps_rules cancel_keeps upd) (simp_all add: core_def)

lemma staging_keeps:
  "keeps I (put_staged n data)" "keeps I (drop_staged env n)" "keeps I (run_maybeSweep env)"
  unfolding put_staged_def drop_staged_def run_maybeSweep_def
  by (rule upd; simp add: core_def split: prod.split)+

lemma write_session_keeps: "keeps I (write_session env account raw)"
  unfolding write_session_def
  by (intro keeps_rules leaf_keeps upd) (simp_all add: core_def)

lemma remove_session_keeps: "keeps I (remove_session env)"
  unfolding remove_session_def
  by (intro keeps_rules leaf_keeps upd) (simp_all add: core_def)

lemma save_keeps: "keeps I (saveAuthIfCurrent env lc)"
  unfolding saveAuthIfCurrent_def by (intro keeps_rules write_session_keeps)

lemma loops_keep: "keeps I buildClient" "keeps I runEventLoop" "keeps I runConnectLoop"
  unfolding buildClient_def runEventLoop_def runConnectLoop_def
  by (intro keeps_rules leaf_keeps upd stop_connecting_keeps; simp add: core_def)+

lemma write_staged_keeps: "keeps I (writeStaged env name data)"
  unfolding writeStaged_def by (intro keeps_rules staging_keeps)

lemma stream_staged_keeps: "keeps I (streamStaged env client mid key name)"
  unfolding streamStaged_def by (intro keeps_rules staging_keeps leaf_keeps)

lemma full_size_keeps: "keeps I (requestFullSize env client msgID actionID)"
  unfolding requestFullSize_def
  by (intro keeps_rules leaf_keeps keeps_update) (auto intro: req_expiry req_note)

lemma download_keeps: "keeps I (downloadPart env msgID actionID part)"
  unfolding downloadPart_def stream_part_def
  by (intro keeps_rules write_staged_keeps stream_staged_keeps full_size_keeps)

lemma stage_keeps: "keeps I (stageMedia env msg part i download)"
  unfolding stageMedia_def by (intro keeps_rules download_keeps)

lemma stage_all_keeps: "keeps I (stage_all env msg download i parts)"
  by (induction parts arbitrary: i) (auto intro!: keeps_rules stage_keeps)

lemma map_message_keeps: "keeps I (mapMessage env conv m download lc)"
  unfolding mapMessage_def by (intro keeps_rules stage_all_keeps leaf_keeps)

lemma get_conversation_keeps: "keeps I (getConversation env conv)"
  unfolding getConversation_def by (intro keeps_rules leaf_keeps)

lemma session_map_keeps: "keeps I (session_mapConversation conv)"
  unfolding session_mapConversation_def
  by (intro keeps_rules upd) (simp add: core_def)

lemma set_meta_keeps: "keeps I (set_meta conv meta)"
  unfolding set_meta_def by (rule upd) (simp add: core_def)

lemma keeps_option_eq:
  "(x = None \<Longrightarrow> keeps I m) \<Longrightarrow> (\<And>y. x = Some y \<Longrightarrow> keeps I (f y))
     \<Longrightarrow> keeps I (case x of None \<Rightarrow> m | Some y \<Rightarrow> f y)"
  by (cases x) simp_all

lemma keeps_mapped_thread:
  assumes "\<And>v meta. wf_conversation v \<Longrightarrow> keeps I (f v meta)" and "\<And>e. keeps I (g e)"
  shows "keeps I (State_Monad.bind (session_mapConversation conv)
    (\<lambda>r. case r of Inl e \<Rightarrow> g e | Inr (v, meta) \<Rightarrow> f v meta))"
  by (rule keeps_bind_yields [OF session_map_keeps session_map_yields]) (auto intro: assms split: sum.split)

lemma keeps_mapped_message:
  assumes "\<And>out removed. (case out of None \<Rightarrow> True | Some x \<Rightarrow> wf_message x) \<Longrightarrow> keeps I (f out removed)"
  shows "keeps I (State_Monad.bind (mapMessage env conv m download lc) (\<lambda>(out, removed). f out removed))"
  by (rule keeps_bind_yields [OF map_message_keeps map_message_yields])
     (auto intro: assms split: option.split)

lemma list_keeps: "keeps I (listAllConversations env client lc)"
proof -
  have "keeps I (fetch_page env client first cursor)" for first cursor
    unfolding fetch_page_def by (intro keeps_rules leaf_keeps)
  then have "keeps I (list_pages env client lc n first cursor acc)" for n first cursor acc
    by (induction n arbitrary: first cursor acc) (auto intro!: keeps_rules)
  then show ?thesis unfolding listAllConversations_def .
qed

lemmas thread_keeps = get_conversation_keeps session_map_keeps set_meta_keeps

lemma sync_jobs_keeps: "keeps I (sync_jobs env lc convs js results)"
proof -
  have "keeps I (sync_job env lc conv)" for conv
    unfolding sync_job_def by (intro keeps_rules thread_keeps)
  then show ?thesis
    by (induction js arbitrary: results) (auto intro!: keeps_rules)
qed

lemma keeps_synced_jobs:
  assumes "\<And>rs. \<forall>r \<in> set (List.map_filter (\<lambda>r. r) rs). wf_conversation (tr_thread r) \<Longrightarrow> keeps I (f rs)"
  shows "keeps I (State_Monad.bind (sync_jobs env lc convs js (replicate n None)) f)"
  by (rule keeps_bind_yields [OF sync_jobs_keeps sync_jobs_yields])
     (simp_all add: list_all_iff wf_result_def, auto intro!: assms wf_results_threads simp: list_all_iff wf_result_def)

lemma thread_meta_keeps: "keeps I (threadMeta env conv)"
  unfolding threadMeta_def by (intro keeps_rules thread_keeps)

lemma send_to_relay_keeps: "keeps I (sendToRelay env client req)"
proof -
  have "keeps I (send_retry env client req bs resp)" for bs resp
    by (induction bs arbitrary: resp) (auto intro!: keeps_rules leaf_keeps)
  then show ?thesis unfolding sendToRelay_def by (intro keeps_rules leaf_keeps)
qed

lemma era_keeps: "keeps I (begin_era env cookies)"
  unfolding begin_era_def
  by (intro keeps_rules leaf_keeps upd stop_pairing_keeps stop_connecting_keeps loops_keep)
     (simp_all add: core_def)

lemma upload_keeps: "keeps I (readStagedUpload env path)"
  unfolding readStagedUpload_def removeStagedSource_def remove_entry_def
  by (intro keeps_rules leaf_keeps upd) (simp_all add: core_def)

lemma reaction_state_keeps: "keeps I (selfReactionState env conv mid emoji)"
  unfolding selfReactionState_def by (intro keeps_rules leaf_keeps)

lemma resolve_keeps: "keeps I (resolve_thread env client addresses)"
  unfolding resolve_thread_def by (intro keeps_rules leaf_keeps)

lemma teardown_keeps: "keeps I teardown"
  unfolding teardown_def
proof (rule keeps_update)
  fix s assume "I s"
  then have "I (s\<lparr>s_lifecycle := next_lifecycle (s_lifecycle s)\<rparr>)" by (rule bump)
  then show "I (s\<lparr>s_client := None, s_auth := None, s_connected := False, s_authenticated := False,
       s_lifecycle := next_lifecycle (s_lifecycle s)\<rparr>)"
    by (rule core_cong [rotated]) (simp add: core_def)
qed

end

subsection \<open>Handlers bound to a lifecycle\<close>

lemma event_types [simp]:
  "ev_Type (account_event a b d) = ''account''"
  "ev_Type (error_event a m) = ''error''"
  "ev_Type (message_removed a c m) = ''message_removed''"
  "ev_Type (conversations_event a cs f g) = ''conversations''"
  "ev_Type (messages_event a c ms f) = ''messages''"
  "ev_Type (status_event a c m st) = ''status''"
  "ev_Type (pairing_event a em) = ''pairing''"
  "ev_Type (result_event r ok e) = ''command_result''"
  by (simp_all add: account_event_def error_event_def message_removed_def conversations_event_def
      messages_event_def status_event_def pairing_event_def result_event_def mk_event_def)

lemma mk_event_type [simp]: "ev_Type (mk_event ty) = ty"
  by (simp add: mk_event_def)

locale handler_invariant = quiet_invariant I env
  for I :: "session \<Rightarrow> bool" and env :: env +
  fixes lc :: u64
  assumes emit_current: "\<not> s_closed s \<Longrightarrow> s_lifecycle s = lc \<Longrightarrow> wire_event e
      \<Longrightarrow> I s \<Longrightarrow> I (s\<lparr>s_trace := s_trace s @ [stamp s (Emit e)]\<rparr>)"
begin

lemma fire_if_keeps: "wire_event e \<Longrightarrow> keeps I (fireIfCurrent lc e)"
  by (auto simp: hoare_def wp_simps emit_current)

lemma fire_current:
  "wire_event e \<Longrightarrow>
     hoare (\<lambda>s. I s \<and> current lc s) (fire e) (\<lambda>_ s. I s \<and> current lc s)"
  by (auto simp: hoare_def wp_simps emit_current current_def)

lemma fire_list_current:
  "\<forall>e \<in> set es. wire_event e \<Longrightarrow>
     hoare (\<lambda>s. I s \<and> current lc s) (for_each fire es) (\<lambda>_ s. I s \<and> current lc s)"
proof (induction es)
  case (Cons e es)
  then show ?case
    by (auto simp: hoare_def wp_simps emit_current current_def)
qed (simp add: hoare_def wp_simps)

lemma emit_messages_current:
  assumes "list_all wf_message ms"
  shows "hoare (\<lambda>s. I s \<and> current lc s) (emitMessages conv ms full cur fid) (\<lambda>_. I)"
proof
  fix s assume s: "I s \<and> current lc s"
  define t where "t = s\<lparr>s_syncGen := next_sync_gen (s_syncGen s)\<rparr>"
  have t: "I t \<and> current lc t"
    using s core_cong [of s t] by (simp add: t_def core_def current_def)
  have fire: "wp (for_each fire (message_events a conv ms full cur fid g)) (\<lambda>_. I) u"
    if "I u \<and> current lc u" for u a g
    by (rule hoare_wp [OF fire_list_current that]) (auto intro: message_events_wire [OF assms])
  show "wp (emitMessages conv ms full cur fid) (\<lambda>_. I) s"
    using fire [OF s] fire [OF t] by (cases full) (simp_all add: emitMessages_def wp_simps t_def)
qed

lemma emit_conversations_current:
  assumes "list_all wf_conversation ts"
  shows "hoare (\<lambda>s. I s \<and> current lc s) (emitConversations ts g auth) (\<lambda>_ s. I s \<and> current lc s)"
proof
  fix s assume s: "I s \<and> current lc s"
  have "wp (for_each fire (conversation_events (s_account s) ts g auth))
      (\<lambda>_ s. I s \<and> current lc s) s"
    by (rule hoare_wp [OF fire_list_current s]) (auto intro: conversation_events_wire [OF assms])
  then show "wp (emitConversations ts g auth) (\<lambda>_ s. I s \<and> current lc s) s"
    by (simp add: emitConversations_def wp_simps)
qed

lemma window_error_keeps: "keeps I (window_error lc msg)"
  unfolding window_error_def by (intro keeps_rules fire_if_keeps) simp

lemma map_window_keeps: "keeps I (map_window env conv download lc ms)"
  by (induction ms) (auto intro!: keeps_rules map_message_keeps fire_if_keeps)

lemma fetch_window_keeps: "keeps I (fetch_window env client conv limit rc full download fid lc)"
proof -
  have last: "keeps I (do {
      out \<leftarrow> map_window env conv download lc (rp_msgs resp);
      s \<leftarrow> State_Monad.get;
      if \<not> current lc s then State_Monad.return ()
      else emitMessages conv out full (window_cursor conv limit out (rp_cursor resp) s) fid
    })" for resp
    by (rule keeps_bind_yields [OF map_window_keeps map_window_yields])
       (auto simp: hoare_def wp_simps intro!: hoareD [OF emit_messages_current])
  show ?thesis
    unfolding fetch_window_def
    by (intro keeps_rules rpc_keeps window_error_keeps last)
qed

lemma emit_window_keeps: "keeps I (emitWindow env conv limit cur full download fid (Some lc))"
  unfolding emitWindow_def
  by (simp, intro keeps_rules window_error_keeps fetch_window_keeps)

lemma check_pending_keeps: "keeps I (checkPending msg lc)"
proof
  fix s assume s: "I s"
  let ?t = "s\<lparr>s_pending := AList.delete (pm_TmpID msg) (s_pending s)\<rparr>"
  have t: "I ?t" using s by (rule pending_drop)
  have emit: "I (?t\<lparr>s_trace := s_trace ?t @ [stamp ?t (Emit e)]\<rparr>)"
    if "\<not> s_closed s" "s_lifecycle s = lc" "wire_event e" for e
    using emit_current [of ?t e] t that by simp
  show "wp (checkPending msg lc) (\<lambda>_. I) s"
    using s t emit
    by (auto simp: checkPending_def wp_simps current_def stamp_def mapStatus_tokens split: option.split)
qed

lemma handle_message_keeps: "keeps I (handleMessage env m lc)"
  unfolding handleMessage_def
  by (intro keeps_mapped_message keeps_option_eq keeps_rules fire_if_keeps check_pending_keeps)
     (simp_all add: mapStatus_tokens)

lemma expire_keeps: "keeps I (expire lc msg)"
  unfolding expire_def go_offline_def
  by (intro keeps_rules fire_if_keeps upd) (simp_all add: core_def)

lemma handle_conversation_keeps: "keeps I (handle_conversation env conv lc)"
  unfolding handle_conversation_def
  by (intro keeps_mapped_thread keeps_rules thread_keeps fire_if_keeps) simp

lemma add_sims_core [simp]: "core (add_sims sims s) = core s"
  unfolding add_sims_def by (induction sims arbitrary: s) (auto simp: core_def)

lemma handler_keeps: "keeps I (handleRelayEvent env evt lc)"
  unfolding handleRelayEvent_def
  by (cases evt; simp only: relay_event.case)
     (intro keeps_rules handle_conversation_keeps handle_message_keeps expire_keeps fire_if_keeps
        save_keeps upd; simp)+

lemma heal_keeps: "keeps I (heal_windows env lc budget rs)"
proof (induction rs arbitrary: budget)
  case (Cons r rs)
  then show ?case
    by (cases r; cases budget) (auto intro!: keeps_rules emit_window_keeps)
qed (auto intro: keeps_rules)

lemma emit_reads_keeps: "keeps I (emit_reads lc threads ts)"
  by (induction ts) (auto intro!: keeps_rules fire_if_keeps)

end

subsection \<open>Everything the session does\<close>

locale session_invariant = quiet_invariant I env
  for I :: "session \<Rightarrow> bool" and env :: env +
  assumes emit_any: "\<not> s_closed s \<Longrightarrow> wire_event e
      \<Longrightarrow> I s \<Longrightarrow> I (s\<lparr>s_trace := s_trace s @ [stamp s (Emit e)]\<rparr>)"

sublocale session_invariant \<subseteq> handler: handler_invariant I env lc for lc
  by unfold_locales (rule emit_any)

context session_invariant begin

lemma fire_keeps: "wire_event e \<Longrightarrow> keeps I (fire e)"
  by (auto simp: hoare_def wp_simps emit_any)

lemma fire_error_keeps: "keeps I (fire_error msg)"
  unfolding fire_error_def by (intro keeps_rules fire_keeps) simp

lemma fire_list_keeps: "\<forall>e \<in> set es. wire_event e \<Longrightarrow> keeps I (for_each fire es)"
  by (induction es) (auto intro!: keeps_rules fire_keeps)

lemma emit_messages_keeps: "list_all wf_message ms \<Longrightarrow> keeps I (emitMessages conv ms full cur fid)"
  unfolding emitMessages_def
  by (intro keeps_rules fire_list_keeps sync_gen_keeps) (auto intro: message_events_wire)

lemma emit_conversations_keeps: "list_all wf_conversation ts \<Longrightarrow> keeps I (emitConversations ts g auth)"
  unfolding emitConversations_def
  by (intro keeps_rules fire_list_keeps) (auto intro: conversation_events_wire)

lemma window_keeps: "keeps I (emitWindow env conv limit cur full download fid expected)"
  unfolding emitWindow_def Let_def
  by (intro keeps_rules handler.window_error_keeps handler.fetch_window_keeps)

lemma history_keeps: "keeps I (FetchHistory env conv limit cur fid)"
  unfolding FetchHistory_def by (rule window_keeps)

lemma sync_locked_keeps: "keeps I (fullSyncLocked env)"
  unfolding fullSyncLocked_def
  by (intro keeps_synced_jobs keeps_rules list_keeps sync_gen_keeps emit_conversations_keeps fire_keeps)
     (simp_all add: list_all_iff)

lemma full_sync_keeps: "keeps I (fullSync env)"
  unfolding fullSync_def
  by (intro keeps_rules sync_locked_keeps handler.heal_keeps handler.emit_reads_keeps save_keeps)

lemma sync_keeps: "keeps I (Sync env)"
  unfolding Sync_def
  by (intro keeps_rules full_sync_keeps upd) (simp_all add: core_def)

lemma dirty_keeps: "keeps I (refreshDirty env)"
proof -
  have "keeps I (refresh_windows env convs)" for convs
    by (induction convs) (auto intro!: keeps_rules window_keeps)
  moreover have "keeps I (takeDirty env)"
    by (simp add: hoare_def wp_simps dirty_drain)
  ultimately show ?thesis unfolding refreshDirty_def by (intro keeps_rules)
qed

lemma resync_keeps: "keeps I (resync_task env)"
  unfolding resync_task_def
  by (intro keeps_rules full_sync_keeps dirty_keeps upd) (simp add: core_def)

lemma resume_keeps: "keeps I (resume_tick env previous now)"
  unfolding resume_tick_def refreshAfterResume_def
  by (intro keeps_rules full_sync_keeps leaf_keeps)

lemma resume_loop_keeps: "keeps I (resumeLoop env previous ticks)"
proof (induction ticks arbitrary: previous)
  case (Cons t ts)
  show ?case unfolding resumeLoop.simps
    by (intro keeps_rules resume_keeps Cons.IH)
qed (simp add: keeps_return)

lemma connect_once_keeps: "keeps I (connectOnce env)"
  unfolding connectOnce_def
  by (intro keeps_rules leaf_keeps save_keeps handler.fire_if_keeps upd) (simp_all add: core_def)

lemma connect_keeps: "keeps I (connectLoop env n ctx)"
proof -
  have "keeps I (connect_round env ctx b)" for b
    unfolding connect_round_def go_offline_def
    by (intro keeps_rules connect_once_keeps leaf_keeps
fire_keeps upd) (simp_all add: core_def)
  then have "keeps I (connect_rounds env ctx n b)" for b
    by (induction n arbitrary: b) (auto intro!: keeps_rules)
  then show ?thesis unfolding connectLoop_def .
qed

lemma catch_up_keeps: "keeps I (catch_up env lc delays)"
  by (induction delays) (auto intro!: keeps_rules pause_keeps full_sync_keeps)

lemma event_turn_keeps: "keeps I (event_turn env)"
proof
  fix s assume s: "I s"
  show "wp (event_turn env) (\<lambda>_. I) s"
  proof (cases "s_events s")
    case Nil
    with s show ?thesis by (simp add: event_turn_def wp_simps)
  next
    case (Cons q qs)
    with s have "I (s\<lparr>s_events := qs\<rparr>)" by (rule dequeue [rotated])
    with Cons show ?thesis
      by (auto simp: event_turn_def wp_simps intro!: hoare_wp [OF handler.handler_keeps])
  qed
qed

lemma restore_keeps: "keeps I (Restore env)"
  unfolding Restore_def
  by (intro keeps_rules leaf_keeps loops_keep fire_keeps upd) (simp_all add: core_def)

lemma login_keeps: "keeps I (Login env bundle)"
  unfolding Login_def start_pairing_def Let_def
  by (intro keeps_rules fire_error_keeps leaf_keeps era_keeps loops_keep fire_keeps upd)
     (simp_all add: core_def)

lemma finish_pairing_keeps: "keeps I (finishPairing env ps ctx client auth lc)"
  unfolding finishPairing_def
  by (intro keeps_rules fire_error_keeps leaf_keeps loops_keep stop_pairing_keeps save_keeps upd)
     (simp_all add: core_def)

lemma relay_send_keeps: "keeps I (relayFailure conv txn)"
  unfolding relayFailure_def by (intro keeps_rules fire_keeps) simp

lemma refresh_thread_keeps: "keeps I (refresh_thread env conv)"
  unfolding refresh_thread_def by (intro keeps_mapped_thread keeps_rules thread_keeps fire_keeps) simp

lemma mark_read_keeps: "keeps I (MarkRead env conv mid)"
  unfolding MarkRead_def mark_read_def
  by (intro keeps_rules fire_error_keeps leaf_keeps thread_keeps fire_keeps refresh_thread_keeps)
     simp_all

lemma typing_keeps: "keeps I (Typing env conv)"
  unfolding Typing_def
  by (intro keeps_rules fire_error_keeps leaf_keeps upd) (simp_all add: core_def)

lemma open_thread_keeps: "keeps I (open_thread env conv)"
  unfolding open_thread_def
  by (intro keeps_mapped_thread keeps_rules thread_keeps fire_keeps window_keeps) simp

lemma logout_keeps: "keeps I (Logout env)"
  unfolding Logout_def forget_session_def
  by (intro keeps_rules stop_pairing_keeps leaf_keeps remove_session_keeps teardown_keeps fire_keeps
      fire_error_keeps) simp_all

end

locale command_invariant = session_invariant I env
  for I :: "session \<Rightarrow> bool" and env :: env +
  assumes emit_result: "\<not> s_closed s \<Longrightarrow> I s
      \<Longrightarrow> I (s\<lparr>s_trace := s_trace s @ [stamp s (Emit (result_event rid ok err))]\<rparr>)"
    and closing: "I s \<Longrightarrow> I (s\<lparr>s_closed := True\<rparr>)"
begin

lemma result_keeps: "keeps I (send_result rid ok err)"
  by (auto simp: send_result_def hoare_def wp_simps emit_result)

lemma failure_keeps: "keeps I (failure rid msg)"
  unfolding failure_def by (rule result_keeps)

lemma queue_keeps: "keeps I (queue_and_send env client rid conv txn req)"
  unfolding queue_and_send_def sweepPending_def
  by (intro keeps_rules result_keeps fire_keeps send_to_relay_keeps relay_send_keeps keeps_update)
     (auto intro: pending_expiry pending_note pending_drop)

lemma send_text_keeps: "keeps I (SendText env rid conv txt reply)"
  unfolding SendText_def Let_def by (intro keeps_rules failure_keeps thread_meta_keeps queue_keeps)

lemma send_media_keeps: "keeps I (SendMedia env rid conv path caption)"
  unfolding SendMedia_def Let_def
  by (intro keeps_rules failure_keeps upload_keeps thread_meta_keeps leaf_keeps queue_keeps)

lemma react_keeps: "keeps I (React env rid conv mid emoji add)"
  unfolding React_def
  by (intro keeps_rules failure_keeps reaction_state_keeps result_keeps leaf_keeps)

lemma delete_keeps: "keeps I (DeleteMessage env rid mid)"
  unfolding DeleteMessage_def by (intro keeps_rules failure_keeps result_keeps leaf_keeps)

lemma open_keeps: "keeps I (Open env rid addresses)"
  unfolding Open_def
  by (intro keeps_rules failure_keeps result_keeps resolve_keeps open_thread_keeps)

lemma close_keeps: "keeps I Close"
  unfolding Close_def
  by (intro keeps_rules stop_pairing_keeps stop_connecting_keeps act_keeps keeps_update)
     (auto intro: closing bump)

end

subsection \<open>The session as a state machine\<close>

datatype session_op =
    OpRestore
  | OpLogin bytes
  | OpFinishPairing nat nat nat auth_data u64
  | OpConnectLoop nat nat
  | OpCatchUp u64 "int list"
  | OpSignal u64 relay_event
  | OpEventTurn
  | OpResync
  | OpResumeTick int int
  | OpSync
  | OpFetchHistory go_string u32 "go_string option" u64
  | OpSendText go_string go_string go_string go_string
  | OpSendMedia go_string go_string go_string go_string
  | OpReact go_string go_string go_string go_string bool
  | OpMarkRead go_string go_string
  | OpTyping go_string
  | OpDeleteMessage go_string go_string
  | OpOpen go_string "go_string list"
  | OpLogout
  | OpClose

abbreviation ignore :: "'a prog \<Rightarrow> unit prog" where
  "ignore m \<equiv> State_Monad.bind m (\<lambda>_. State_Monad.return ())"

primrec run_op :: "env \<Rightarrow> session_op \<Rightarrow> unit prog" where
  "run_op env OpRestore = ignore (Restore env)"
| "run_op env (OpLogin bundle) = Login env bundle"
| "run_op env (OpFinishPairing ps ctx client auth lc) = finishPairing env ps ctx client auth lc"
| "run_op env (OpConnectLoop n ctx) = ignore (connectLoop env n ctx)"
| "run_op env (OpCatchUp lc delays) = catch_up env lc delays"
| "run_op env (OpSignal gen evt) = relay_signal gen evt"
| "run_op env OpEventTurn = ignore (event_turn env)"
| "run_op env OpResync = resync_task env"
| "run_op env (OpResumeTick previous now) = ignore (resume_tick env previous now)"
| "run_op env OpSync = Sync env"
| "run_op env (OpFetchHistory conv limit cur fid) = FetchHistory env conv limit cur fid"
| "run_op env (OpSendText rid conv txt reply) = SendText env rid conv txt reply"
| "run_op env (OpSendMedia rid conv path caption) = SendMedia env rid conv path caption"
| "run_op env (OpReact rid conv mid emoji add) = React env rid conv mid emoji add"
| "run_op env (OpMarkRead conv mid) = MarkRead env conv mid"
| "run_op env (OpTyping conv) = Typing env conv"
| "run_op env (OpDeleteMessage rid mid) = DeleteMessage env rid mid"
| "run_op env (OpOpen rid addresses) = Open env rid addresses"
| "run_op env OpLogout = ignore (Logout env)"
| "run_op env OpClose = Close"

text \<open>What a session does between blocking points of others: an operation runs, time passes, or the
  daemon changes the files it hands over.\<close>

inductive session_step :: "env \<Rightarrow> session \<Rightarrow> session \<Rightarrow> bool" for env where
  step_op: "run_state (run_op env op) s = (u, t) \<Longrightarrow> session_step env s t"
| step_time: "session_step env s (s\<lparr>s_now := now\<rparr>)"
| step_files: "session_step env s (s\<lparr>s_files := files\<rparr>)"

inductive_cases session_stepE: "session_step env s t"

definition NewSession :: "go_string \<Rightarrow> dir \<Rightarrow> dir \<Rightarrow> sweep_state \<Rightarrow> int \<Rightarrow> session" where
  "NewSession account stored staged sweep now =
     \<lparr>s_account = account, s_client = None, s_clientGen = 0, s_auth = None, s_sims = [],
      s_metas = [], s_selfIDs = {}, s_cache = [], s_pending = [], s_pairCancel = None,
      s_ps = None, s_fullReq = [], s_dirtyConvs = {}, s_dirtyOrder = [], s_events = [],
      s_closed = False, s_loopStarted = False, s_connectCancel = None, s_lifecycle = 0,
      s_syncGen = 0, s_resyncing = False, s_syncActive = False, s_typingActive = False,
      s_connected = False, s_authenticated = False, s_store = stored, s_staged = staged,
      s_sweep = sweep, s_files = [], s_now = now, s_fresh = 0, s_cancelled = [], s_trace = []\<rparr>"

definition reachable :: "env \<Rightarrow> session \<Rightarrow> bool" where
  "reachable env s \<longleftrightarrow>
     (\<exists>account stored staged sweep now.
        (session_step env)\<^sup>*\<^sup>* (NewSession account stored staged sweep now) s)"

lemma reachable_induct [consumes 1, case_names new step]:
  assumes "reachable env s"
    and "\<And>account stored staged sweep now. P (NewSession account stored staged sweep now)"
    and "\<And>s t. reachable env s \<Longrightarrow> session_step env s t \<Longrightarrow> P s \<Longrightarrow> P t"
  shows "P s"
proof -
  obtain account stored staged sweep now where
    run: "(session_step env)\<^sup>*\<^sup>* (NewSession account stored staged sweep now) s"
    using assms(1) unfolding reachable_def by blast
  then show ?thesis
  proof (induction rule: rtranclp_induct)
    case base
    show ?case by (rule assms(2))
  next
    case (step t u)
    then show ?case using assms(3) unfolding reachable_def by blast
  qed
qed

context command_invariant begin

lemma op_keeps:
  assumes "\<And>gen evt. keeps I (relay_signal gen evt)"
  shows "keeps I (run_op env op)"
  by (cases op)
     (auto intro!: keeps_rules restore_keeps login_keeps finish_pairing_keeps connect_keeps
        catch_up_keeps assms event_turn_keeps resync_keeps resume_keeps sync_keeps history_keeps
        send_text_keeps send_media_keeps react_keeps mark_read_keeps typing_keeps delete_keeps
        open_keeps logout_keeps close_keeps)

lemma step_keeps:
  assumes "\<And>gen evt. keeps I (relay_signal gen evt)"
    and "session_step env s t" and "I s"
  shows "I t"
  using assms(2)
proof (rule session_stepE)
  fix op u assume "run_state (run_op env op) s = (u, t)"
  with op_keeps [OF assms(1)] assms(3) show "I t" by (rule hoare_run)
next
  fix now assume "t = s\<lparr>s_now := now\<rparr>"
  with assms(3) show "I t" using core_cong [of s t] by (simp add: core_def)
next
  fix files assume "t = s\<lparr>s_files := files\<rparr>"
  with assms(3) show "I t" using core_cong [of s t] by (simp add: core_def)
qed

end

subsection \<open>Bounds of the session's tables\<close>

definition wf_cache :: "(go_string \<times> cached_message list) list \<Rightarrow> bool" where
  "wf_cache c \<longleftrightarrow> distinct (map fst c) \<and> length c \<le> maxCachedConvs
     \<and> (\<forall>(conv, es) \<in> set c. length es \<le> cachePerConv \<and> distinct (map k_id es))"

definition wf_session :: "session \<Rightarrow> bool" where
  "wf_session s \<longleftrightarrow>
     distinct (s_dirtyOrder s) \<and> set (s_dirtyOrder s) = s_dirtyConvs s
     \<and> length (s_dirtyOrder s) \<le> maxDirtyConvs
     \<and> length (s_events s) \<le> eventQueue
     \<and> wf_cache (s_cache s)
     \<and> distinct (map fst (s_pending s)) \<and> distinct (map fst (s_fullReq s))"

lemma update_entry_ids: "map k_id (update_entry e es) = map k_id es"
  by (induction es) auto

lemma length_update_entry [simp]: "length (update_entry e es) = length es"
  by (induction es) auto

lemma length_alist_update:
  "length (AList.update k v c) = (if k \<in> fst ` set c then length c else Suc (length c))"
  by (induction c) auto

lemma set_alist_update: "p \<in> set (AList.update k v c) \<Longrightarrow> p = (k, v) \<or> p \<in> set c"
  by (induction c) (auto split: if_splits)

lemma sweepCaches_sub:
  "set (sweepCaches pick c) \<subseteq> set c \<and> (distinct (map fst c) \<longrightarrow> distinct (map fst (sweepCaches pick c)))
   \<and> length (sweepCaches pick c) \<le> maxCachedConvs"
proof (induction pick c rule: sweepCaches.induct)
  case (1 pick c)
  let ?k = "fst (c ! (pick (length c) mod length c))"
  have "set (AList.delete ?k c) \<subseteq> set c" by (auto simp: AList.delete_eq)
  moreover have "distinct (map fst c) \<Longrightarrow> distinct (map fst (AList.delete ?k c))"
    by (rule distinct_delete)
  ultimately show ?case
    using 1 sweepCaches.simps [of pick c] by (cases "length c > maxCachedConvs") auto
qed

lemma wf_remember: "wf_cache c \<Longrightarrow> wf_cache (remember pick conv e c)"
proof -
  assume wf: "wf_cache c"
  let ?es = "case map_of c conv of None \<Rightarrow> [] | Some es \<Rightarrow> es"
  have es: "length ?es \<le> cachePerConv \<and> distinct (map k_id ?es)"
  proof (cases "map_of c conv")
    case (Some es)
    then have "(conv, es) \<in> set c" by (rule map_of_SomeD)
    with wf Some show ?thesis by (auto simp: wf_cache_def)
  qed simp
  show ?thesis
  proof (cases "\<exists>x \<in> set ?es. k_id x = k_id e")
    case True
    then have "conv \<in> fst ` set c"
      by (cases "map_of c conv") (auto dest: map_of_SomeD intro: rev_image_eqI)
    with wf es True show ?thesis
      by (auto simp: wf_cache_def remember_def Let_def length_alist_update update_entry_ids
          dest!: set_alist_update intro: distinct_update)
  next
    case False
    define es' where "es' = drop (length (?es @ [e]) - cachePerConv) (?es @ [e])"
    have "k_id e \<notin> set (map k_id ?es)" using False by (metis (no_types) image_iff list.set_map)
    then have "distinct (map k_id (?es @ [e]))" using es by simp
    then have "length es' \<le> cachePerConv \<and> distinct (map k_id es')"
      unfolding es'_def drop_map [symmetric] by (simp only: distinct_drop length_drop) simp
    then have "\<forall>(k, xs) \<in> set (AList.update conv es' c). length xs \<le> cachePerConv \<and> distinct (map k_id xs)"
      using wf by (auto simp: wf_cache_def dest!: set_alist_update)
    moreover have "distinct (map fst (AList.update conv es' c))"
      using wf by (auto simp: wf_cache_def intro: distinct_update)
    ultimately show ?thesis
      using False sweepCaches_sub [of pick "AList.update conv es' c"]
      by (auto simp: wf_cache_def remember_def Let_def es'_def)
  qed
qed

lemma wf_mark_dirty: "wf_session s \<Longrightarrow> wf_session (mark_dirty conv s)"
  by (cases "s_dirtyOrder s") (auto simp: wf_session_def mark_dirty_def Let_def maxDirtyConvs_def)

lemma wf_enqueue: "length es \<le> eventQueue \<Longrightarrow> length (snd (enqueue q es)) \<le> eventQueue"
  by (auto simp: enqueue_def eventQueue_def)

text \<open>The interference a blocking call may bring, as far as the tables go.\<close>

definition env_wf :: "env \<Rightarrow> bool" where
  "env_wf env \<longleftrightarrow>
     (\<forall>c q s. wf_session s \<longrightarrow> wf_session (snd (e_relay env c q s)))
     \<and> (\<forall>d s. wf_session s \<longrightarrow> wf_session (snd (e_wait env d s)))"

lemma wf_trace [simp]: "wf_session (s\<lparr>s_trace := tr\<rparr>) = wf_session s"
  by (simp add: wf_session_def)

lemma wf_bump [simp]: "wf_session (s\<lparr>s_lifecycle := v\<rparr>) = wf_session s"
  by (simp add: wf_session_def)

lemma wf_core: "core s = core t \<Longrightarrow> wf_session s = wf_session t"
  by (simp add: wf_session_def core_def)

lemma env_wf_relay: "env_wf env \<Longrightarrow> e_relay env c q s = (r, t) \<Longrightarrow> wf_session s \<Longrightarrow> wf_session t"
  unfolding env_wf_def by (metis snd_conv)

lemma env_wf_wait: "env_wf env \<Longrightarrow> e_wait env d s = (w, t) \<Longrightarrow> wf_session s \<Longrightarrow> wf_session t"
  unfolding env_wf_def by (metis snd_conv)

lemma wf_updates:
  "wf_session s \<Longrightarrow> wf_session (s\<lparr>s_cache := remember pick conv k (s_cache s)\<rparr>)"
  "wf_session s \<Longrightarrow> wf_session (s\<lparr>s_fullReq := filter P (s_fullReq s)\<rparr>)"
  "wf_session s \<Longrightarrow> wf_session (s\<lparr>s_fullReq := AList.update key at (s_fullReq s)\<rparr>)"
  "wf_session s \<Longrightarrow> wf_session (s\<lparr>s_pending := filter Q (s_pending s)\<rparr>)"
  "wf_session s \<Longrightarrow> wf_session (s\<lparr>s_pending := AList.update txn send (s_pending s)\<rparr>)"
  "wf_session s \<Longrightarrow> wf_session (s\<lparr>s_pending := AList.delete txn (s_pending s)\<rparr>)"
  "wf_session s \<Longrightarrow> wf_session (s\<lparr>s_dirtyConvs := {}, s_dirtyOrder := []\<rparr>)"
  "s_events s = qe # qs \<Longrightarrow> wf_session s \<Longrightarrow> wf_session (s\<lparr>s_events := qs\<rparr>)"
  "wf_session s \<Longrightarrow> wf_session (s\<lparr>s_closed := b\<rparr>)"
  by (simp_all add: wf_session_def wf_remember distinct_map_filter distinct_update distinct_delete)

interpretation tables: command_invariant "\<lambda>s. env_wf env \<longrightarrow> wf_session s" env for env
proof
  fix s t :: session assume "core s = core t" "env_wf env \<longrightarrow> wf_session s"
  then show "env_wf env \<longrightarrow> wf_session t" using wf_core by blast
next
  fix c q s r t assume "e_relay env c q s = (r, t)" "env_wf env \<longrightarrow> wf_session s"
  then show "env_wf env \<longrightarrow> wf_session (t\<lparr>s_trace := s_trace s @ [stamp s (Call c q)]\<rparr>)"
    using env_wf_relay by auto
next
  fix d s w t assume "e_wait env d s = (w, t)" "env_wf env \<longrightarrow> wf_session s"
  then show "env_wf env \<longrightarrow> wf_session (t\<lparr>s_trace := s_trace s @ [stamp s (Pause d)]\<rparr>)"
    using env_wf_wait by auto
qed (simp_all add: wf_updates)

lemma signal_keeps_tables: "keeps wf_session (relay_signal gen evt)"
proof -
  have dirty: "keeps wf_session (markDirty conv)" for conv
    unfolding markDirty_def by (rule keeps_update) (rule wf_mark_dirty)
  have "keeps wf_session requestResync"
    unfolding requestResync_def act_def
    by (intro keeps_rules keeps_update) (simp_all add: wf_session_def)
  then have repair: "keeps wf_session (do {
      do_when (conversationOf evt \<noteq> []) (markDirty (conversationOf evt)); requestResync })"
    by (intro keeps_rules dirty)
  show ?thesis
  proof
    fix s assume s: "wf_session s"
    let ?q = "\<lparr>q_lifecycle = s_lifecycle s, q_event = evt\<rparr>"
    obtain room es where q: "enqueue ?q (s_events s) = (room, es)" by fastforce
    have "wf_session (s\<lparr>s_events := es\<rparr>)"
      using s wf_enqueue [of "s_events s" ?q] q by (simp add: wf_session_def)
    with hoareD [OF repair this] s q show "wp (relay_signal gen evt) (\<lambda>_. wf_session) s"
      by (simp add: relay_signal_def wp_return wp_get wp_update wp_bind wp_if wp_let)
  qed
qed

subsection \<open>Silence after close\<close>

definition silent :: "session \<Rightarrow> bool" where
  "silent s \<longleftrightarrow> (\<forall>e \<in> set (s_trace s). emits (te_action e) \<longrightarrow> \<not> te_closed e)"

interpretation silence: command_invariant silent env for env
  by unfold_locales (auto simp: silent_def core_def stamp_def)

lemma signal_keeps_silence: "keeps silent (relay_signal gen evt)"
  unfolding relay_signal_def requestResync_def markDirty_def Let_def
  by (intro keeps_rules silence.act_keeps keeps_update)
     (auto simp: silent_def mark_dirty_def Let_def)

subsection \<open>The lifecycle fence\<close>

definition fenced :: "u64 \<Rightarrow> session \<Rightarrow> bool" where
  "fenced lc s \<longleftrightarrow> (\<forall>e \<in> set (s_trace s). emits (te_action e) \<longrightarrow> te_lifecycle e = lc)"

interpretation fence: handler_invariant "fenced lc" env lc for lc env
  by unfold_locales (auto simp: fenced_def core_def stamp_def)

subsection \<open>Properties\<close>

text \<open>C3: the session's tables are bounded. In every session reachable by any sequence of
  operations, whatever the relay answers and as long as blocking calls bring no damage of their own,
  at most 64 threads are marked dirty, the mark set and its eviction order agree, at most 256
  relay events are queued, and the message cache holds at most 1024 windows of at most 200 distinct
  messages.\<close>

theorem session_tables_bounded:
  assumes "env_wf env" and "reachable env s"
  shows "(distinct (s_dirtyOrder s))
    \<and> (set (s_dirtyOrder s) = s_dirtyConvs s)
    \<and> (length (s_dirtyOrder s) \<le> 64)
    \<and> (length (s_events s) \<le> 256)
    \<and> (length (s_cache s) \<le> 1024)
    \<and> ((conv, es) \<in> set (s_cache s) \<longrightarrow> length es \<le> 200 \<and> distinct (map k_id es))"
proof (intro conjI)
  have "wf_session s"
    using assms(2)
  proof (induction rule: reachable_induct)
    case new
    show ?case by (simp add: wf_session_def NewSession_def wf_cache_def)
  next
    case (step s t)
    have "keeps (\<lambda>s. env_wf env \<longrightarrow> wf_session s) (relay_signal gen evt)" for gen evt
      using signal_keeps_tables assms(1) by (simp add: hoare_def)
    from tables.step_keeps [OF this step(2)] step(3) assms(1) show ?case by blast
  qed
  then show "distinct (s_dirtyOrder s)" "set (s_dirtyOrder s) = s_dirtyConvs s"
    "length (s_dirtyOrder s) \<le> 64" "length (s_events s) \<le> 256" "length (s_cache s) \<le> 1024"
    "(conv, es) \<in> set (s_cache s) \<longrightarrow> length es \<le> 200 \<and> distinct (map k_id es)"
    by (auto simp: wf_session_def wf_cache_def maxDirtyConvs_def eventQueue_def maxCachedConvs_def
        cachePerConv_def)
qed

text \<open>A relay that answers every call with an empty success and changes nothing.\<close>

definition empty_reply :: reply where
  "empty_reply = \<lparr>rp_err = None, rp_convs = [], rp_cursor = None, rp_conv = None, rp_msgs = [],
     rp_send = SEND_SUCCESS, rp_createRCS = False, rp_success = True,
     rp_media = \<lparr>mc_MimeType = [], mc_MediaName = [], mc_Size = 0, mc_MediaData = [], mc_MediaID = [],
        mc_DecryptionKey = [], mc_ThumbnailMediaID = [], mc_ThumbnailDecryptionKey = []\<rparr>,
     rp_stream = [], rp_streamErr = False, rp_emoji = [], rp_ps = 0\<rparr>"

definition test_env :: "(rpc \<Rightarrow> reply) \<Rightarrow> env" where
  "test_env answer = \<lparr>e_relay = (\<lambda>c q s. (answer q, s)), e_wait = (\<lambda>d s. (Woke_Timer, s)),
     e_tmpID = (\<lambda>s. ''tmp''), e_random = (\<lambda>s. ''7''), e_order = sorted_list_of_set, e_pick = (\<lambda>n. 0),
     e_jobs = (\<lambda>n. [0..<n]), e_marshalAuth = Some, e_unmarshalAuth = Some,
     e_authMobile = (\<lambda>a. True), e_newAuth = (\<lambda>cs. ''auth''), e_faults = no_faults, e_partial = 0,
     e_sorter = sort_key cd_modTime, e_stageDir = ''/state/staged'',
     e_detectType = (\<lambda>d. []),
     e_cwd = ''/'', e_xdgState = ''/state'', e_home = None\<rparr>"

abbreviation w_session :: session where
  "w_session \<equiv> NewSession ''a'' [] [] \<lparr>sw_lastSweep = 0, sw_locked = False\<rparr> 0"

lemma reachable_op:
  "run_state (run_op env op) (NewSession account stored staged sweep now) = (u, t) \<Longrightarrow> reachable env t"
  unfolding reachable_def by (blast intro: step_op)

lemma session_tables_bounded_witness:
  "length (s_events (snd (run_state (run_op (test_env (\<lambda>q. empty_reply)) (OpSignal 0 Ev_AccountChange))
     w_session))) \<le> 256"
proof -
  have "env_wf (test_env (\<lambda>q. empty_reply))" by (simp add: env_wf_def test_env_def)
  then show ?thesis
    using session_tables_bounded reachable_op [OF prod.collapse [symmetric]] by blast
qed

text \<open>A closed session is silent, as far as \<open>fire\<close> is one step: in every reachable session, no event was
  ever emitted at a moment when the session was closed, whatever happened during blocking calls.
  \<open>Emission\<close> states what is left of this when the test and the write are steps of their own.\<close>

lemma closed_is_mute:
  assumes "reachable env s" and "e \<in> set (s_trace s)" and "te_action e = Emit evt"
  shows "\<not> te_closed e"
proof -
  have "silent s"
    using assms(1)
  proof (induction rule: reachable_induct)
    case new
    show ?case by (simp add: silent_def NewSession_def)
  next
    case (step s t)
    from silence.step_keeps [OF signal_keeps_silence step(2,3)] show ?case .
  qed
  with assms(2,3) show ?thesis by (auto simp: silent_def)
qed

text \<open>C6: the consumer respects the login fence. One turn of the event loop emits only while the
  lifecycle that queued the event is current, even when the lifecycle moves during a relay call of
  the handler, and never after a close; an event of a retired lifecycle is dropped with no other
  effect.\<close>

theorem event_turn_fenced:
  assumes "s_trace s = []" and "s_events s = q # qs"
    and "run_state (event_turn env) s = (r, t)"
  shows "(e \<in> set (s_trace t) \<and> te_action e = Emit evt
      \<longrightarrow> te_lifecycle e = q_lifecycle q \<and> \<not> te_closed e)
    \<and> (s_lifecycle s \<noteq> q_lifecycle q \<longrightarrow> r \<and> t = s\<lparr>s_events := qs\<rparr>)"
proof (intro conjI)
  let ?s = "s\<lparr>s_events := qs\<rparr>"
  show stale: "s_lifecycle s \<noteq> q_lifecycle q \<longrightarrow> r \<and> t = s\<lparr>s_events := qs\<rparr>"
    using assms by (auto simp: event_turn_def State_Monad.get_def)
  have both: "fenced (q_lifecycle q) t \<and> silent t"
  proof (cases "s_lifecycle s = q_lifecycle q")
    case True
    obtain u where "run_state (handleRelayEvent env (q_event q) (q_lifecycle q)) ?s = (u, t)"
      using assms(2,3) True by (auto simp: event_turn_def State_Monad.get_def split: prod.splits)
    moreover have "fenced (q_lifecycle q) ?s" "silent ?s"
      using assms(1) by (simp_all add: fenced_def silent_def)
    ultimately show ?thesis
      using hoare_run [OF fence.handler_keeps] hoare_run [OF silence.handler.handler_keeps] by blast
  next
    case False
    with stale assms(1) show ?thesis by (simp add: fenced_def silent_def)
  qed
  then show "e \<in> set (s_trace t) \<and> te_action e = Emit evt
      \<longrightarrow> te_lifecycle e = q_lifecycle q \<and> \<not> te_closed e"
    by (auto simp: fenced_def silent_def)
qed

text \<open>A typing event of lifecycle 1 in a session at lifecycle 1, and the same event after a bump.\<close>

definition w_typing :: "u64 \<Rightarrow> session" where
  "w_typing lc = w_session\<lparr>s_lifecycle := lc,
     s_events := [\<lparr>q_lifecycle = 1, q_event = Ev_Typing ''t'' True ''+1''\<rparr>]\<rparr>"

lemma event_turn_fenced_witness:
  "map te_lifecycle (s_trace (snd (run_state (event_turn (test_env (\<lambda>q. empty_reply))) (w_typing 1)))) = [1]
   \<and> snd (run_state (event_turn (test_env (\<lambda>q. empty_reply))) (w_typing 2)) = (w_typing 2)\<lparr>s_events := []\<rparr>"
proof
  let ?env = "test_env (\<lambda>q. empty_reply)"
  obtain r t where rt: "run_state (event_turn ?env) (w_typing 1) = (r, t)" by (rule prod.exhaust)
  obtain r' t' where rt': "run_state (event_turn ?env) (w_typing 2) = (r', t')" by (rule prod.exhaust)
  have pre: "s_trace (w_typing lc) = []"
    "s_events (w_typing lc) = \<lparr>q_lifecycle = 1, q_event = Ev_Typing ''t'' True ''+1''\<rparr> # []" for lc
    by (simp_all add: w_typing_def NewSession_def)
  obtain e evt where e: "s_trace (snd (run_state (event_turn ?env) (w_typing 1))) = [e]" "te_action e = Emit evt"
    by (auto simp: event_turn_def w_typing_def NewSession_def State_Monad.get_def handleRelayEvent_def
        fireIfCurrent_def fire_def alive_def act_def stamp_def)
  then show "map te_lifecycle (s_trace (snd (run_state (event_turn ?env) (w_typing 1)))) = [1]"
    using event_turn_fenced [OF pre rt, of e evt] rt by simp
  show "snd (run_state (event_turn ?env) (w_typing 2)) = (w_typing 2)\<lparr>s_events := []\<rparr>"
    using event_turn_fenced [OF pre rt'] rt' by (simp add: w_typing_def)
qed

end
