(* ===== verification/Requests.thy ===== *)
theory Requests
  imports Invariants
begin

text \<open>
  The command contract of \<open>adapter/send.go\<close>: which results an operation emits, the retry schedule
  of a send, what a text send reports and remembers, reactions, logout, and pairing. For the count
  of results, the phases before and after the result are runs under an interpretation of
  \<open>session_invariant\<close>; the exact outcomes are runs against a scripted relay.
\<close>

definition result_of :: "entry \<Rightarrow> event list" where
  "result_of e = (case te_action e of
     Emit evt \<Rightarrow> if ev_Type evt = ''command_result'' then [evt] else []
   | _ \<Rightarrow> [])"

definition results :: "session \<Rightarrow> event list" where
  "results s = concat (map result_of (s_trace s))"

lemma results_add [simp]:
  "results (s\<lparr>s_trace := tr @ [stamp s a]\<rparr>) = concat (map result_of tr) @ result_of (stamp s a)"
  by (simp add: results_def)

lemma result_of_stamp [simp]:
  "\<not> emits a \<Longrightarrow> result_of (stamp s a) = []"
  "ev_Type e \<noteq> ''command_result'' \<Longrightarrow> result_of (stamp s (Emit e)) = []"
  "result_of (stamp s (Emit (result_event rid ok err))) = [result_event rid ok err]"
  by (cases a) (simp_all add: result_of_def stamp_def)

text \<open>Blocking calls that do not close the session.\<close>

definition env_open :: "env \<Rightarrow> bool" where
  "env_open env \<longleftrightarrow>
     (\<forall>c q s. s_closed (snd (e_relay env c q s)) = s_closed s)
     \<and> (\<forall>d s. s_closed (snd (e_wait env d s)) = s_closed s)"

definition has_results :: "event list \<Rightarrow> session \<Rightarrow> bool" where
  "has_results rs s \<longleftrightarrow> \<not> s_closed s \<and> results s = rs"

lemma env_open_relay: "env_open env \<Longrightarrow> e_relay env c q s = (r, t) \<Longrightarrow> s_closed t = s_closed s"
  unfolding env_open_def by (metis snd_conv)

lemma env_open_wait: "env_open env \<Longrightarrow> e_wait env d s = (w, t) \<Longrightarrow> s_closed t = s_closed s"
  unfolding env_open_def by (metis snd_conv)

interpretation count: session_invariant "\<lambda>s. env_open env \<longrightarrow> has_results rs s" env for env rs
proof
  fix c q s r t assume "e_relay env c q s = (r, t)" "env_open env \<longrightarrow> has_results rs s"
  then show "env_open env \<longrightarrow> has_results rs (t\<lparr>s_trace := s_trace s @ [stamp s (Call c q)]\<rparr>)"
    using env_open_relay by (auto simp: has_results_def results_def)
next
  fix d s w t assume "e_wait env d s = (w, t)" "env_open env \<longrightarrow> has_results rs s"
  then show "env_open env \<longrightarrow> has_results rs (t\<lparr>s_trace := s_trace s @ [stamp s (Pause d)]\<rparr>)"
    using env_open_wait by (auto simp: has_results_def results_def)
qed (auto simp: has_results_def results_def core_def wire_event_def)

text \<open>\<open>answers rid m\<close>: from an open session, \<open>m\<close> emits exactly one command result, for \<open>rid\<close>.\<close>

definition answers :: "env \<Rightarrow> go_string \<Rightarrow> 'a prog \<Rightarrow> bool" where
  "answers env rid m \<longleftrightarrow> (\<forall>rs. hoare (\<lambda>s. env_open env \<and> has_results rs s) m
     (\<lambda>_ s. \<exists>ok err. has_results (rs @ [result_event rid ok err]) s))"

definition says_nothing :: "env \<Rightarrow> 'a prog \<Rightarrow> bool" where
  "says_nothing env m \<longleftrightarrow> (\<forall>rs. hoare (\<lambda>s. env_open env \<and> has_results rs s) m (\<lambda>_. has_results rs))"

lemma quietI: "(\<And>rs. keeps (\<lambda>s. env_open env \<longrightarrow> has_results rs s) m) \<Longrightarrow> says_nothing env m"
  unfolding says_nothing_def hoare_def by (metis (mono_tags, lifting) wp_mono)

lemma answers_result: "answers env rid (send_result rid ok err)"
  by (auto simp: answers_def hoare_def send_result_def wp_simps has_results_def results_def)

lemma answers_failure: "answers env rid (failure rid msg)"
  unfolding failure_def by (rule answers_result)

lemma answers_after:
  assumes "says_nothing env m" and "\<And>x. answers env rid (f x)"
  shows "answers env rid (State_Monad.bind m f)"
  unfolding answers_def
proof (intro allI hoareI)
  fix rs s assume s: "env_open env \<and> has_results rs s"
  have "wp m (\<lambda>_. has_results rs) s" using assms(1) s unfolding says_nothing_def hoare_def by blast
  then have "wp m (\<lambda>x. wp (f x) (\<lambda>_ s. \<exists>ok err. has_results (rs @ [result_event rid ok err]) s)) s"
  proof (rule wp_mono)
    fix x t assume "has_results rs t"
    then show "wp (f x) (\<lambda>_ s. \<exists>ok err. has_results (rs @ [result_event rid ok err]) s) t"
      using assms(2) [of x] s unfolding answers_def hoare_def by blast
  qed
  then show "wp (State_Monad.bind m f)
      (\<lambda>_ s. \<exists>ok err. has_results (rs @ [result_event rid ok err]) s) s"
    by (simp add: wp_bind)
qed

lemma answers_then:
  assumes "answers env rid m" and "\<And>x. says_nothing env (f x)"
  shows "answers env rid (State_Monad.bind m f)"
  unfolding answers_def
proof (intro allI hoareI)
  fix rs s assume s: "env_open env \<and> has_results rs s"
  have "wp m (\<lambda>_ s. \<exists>ok err. has_results (rs @ [result_event rid ok err]) s) s"
    using assms(1) s unfolding answers_def hoare_def by blast
  then have "wp m (\<lambda>x. wp (f x) (\<lambda>_ s. \<exists>ok err. has_results (rs @ [result_event rid ok err]) s)) s"
  proof (rule wp_mono)
    fix x t assume "\<exists>ok err. has_results (rs @ [result_event rid ok err]) t"
    then obtain ok err where "has_results (rs @ [result_event rid ok err]) t" by blast
    then have "wp (f x) (\<lambda>_. has_results (rs @ [result_event rid ok err])) t"
      using assms(2) [of x] s unfolding says_nothing_def hoare_def by blast
    then show "wp (f x) (\<lambda>_ s. \<exists>ok err. has_results (rs @ [result_event rid ok err]) s) t"
      by (rule wp_mono) blast
  qed
  then show "wp (State_Monad.bind m f)
      (\<lambda>_ s. \<exists>ok err. has_results (rs @ [result_event rid ok err]) s) s"
    by (simp add: wp_bind)
qed

lemma answers_if: "answers env rid m \<Longrightarrow> answers env rid n \<Longrightarrow> answers env rid (if b then m else n)"
  by simp

lemma answers_option:
  "answers env rid m \<Longrightarrow> (\<And>y. answers env rid (f y)) \<Longrightarrow>
     answers env rid (case x of None \<Rightarrow> m | Some y \<Rightarrow> f y)"
  by (cases x) simp_all

lemma answers_prod: "(\<And>a b. answers env rid (f a b)) \<Longrightarrow> answers env rid (case x of (a, b) \<Rightarrow> f a b)"
  by (cases x) simp

lemma quiet_get: "says_nothing env State_Monad.get"
  by (rule quietI) (rule keeps_get)

lemma quiet_rpc: "says_nothing env (rpc_call env c q)"
  by (rule quietI) (rule count.rpc_keeps)

lemmas answer_rules = answers_if answers_option answers_prod answers_failure answers_result
  answers_after [OF quiet_get] answers_after [OF quiet_rpc]

lemma quiet_pending:
  "says_nothing env sweepPending"
  "says_nothing env (State_Monad.update (\<lambda>s. s\<lparr>s_pending := f s\<rparr>))"
  unfolding sweepPending_def
  by (rule quietI; rule keeps_update; simp add: has_results_def results_def)+

lemma answers_queue: "answers env rid (queue_and_send env client rid conv txn req)"
proof -
  have pend: "keeps (\<lambda>s. env_open env \<longrightarrow> has_results rs s)
      (State_Monad.update (\<lambda>s. s\<lparr>s_pending := f s\<rparr>))" for rs f
    by (rule keeps_update) (simp add: has_results_def results_def)
  have "says_nothing env (do {
      s \<leftarrow> State_Monad.get;
      fire (status_event (s_account s) conv txn ''accepted'');
      err \<leftarrow> sendToRelay env client req;
      case err of
        None \<Rightarrow> State_Monad.return ()
      | Some e \<Rightarrow>
          if errors_Is e ErrPhoneNotResponding then State_Monad.return ()
          else do {
            State_Monad.update (\<lambda>s. s\<lparr>s_pending := AList.delete txn (s_pending s)\<rparr>);
            relayFailure conv txn
          } })"
    by (rule quietI)
       (intro keeps_rules count.fire_keeps count.send_to_relay_keeps count.relay_send_keeps pend; simp)
  then show ?thesis
    unfolding queue_and_send_def
    by (intro answers_after [OF quiet_pending(1)] answers_after [OF quiet_pending(2)]
        answers_then [OF answers_result])
qed

lemma answers_commands:
  "answers env rid (SendText env rid conv txt reply)"
  "answers env rid (SendMedia env rid conv path caption)"
  "answers env rid (React env rid conv mid emoji add)"
  "answers env rid (DeleteMessage env rid mid)"
  "answers env rid (Open env rid addresses)"
proof -
  have meta: "says_nothing env (threadMeta env conv)" for conv
    by (rule quietI) (rule count.thread_meta_keeps)
  have upload: "says_nothing env (readStagedUpload env path)" for path
    by (rule quietI) (rule count.upload_keeps)
  have roster: "says_nothing env (selfReactionState env conv mid emoji)" for conv mid emoji
    by (rule quietI) (rule count.reaction_state_keeps)
  have resolve: "says_nothing env (resolve_thread env c addresses)" for c addresses
    by (rule quietI) (rule count.resolve_keeps)
  have opened: "says_nothing env (open_thread env conv)" for conv
    by (rule quietI) (rule count.open_thread_keeps)
  show "answers env rid (SendText env rid conv txt reply)"
    unfolding SendText_def Let_def
    by (intro answer_rules answers_after [OF meta] answers_queue)
  show "answers env rid (SendMedia env rid conv path caption)"
    unfolding SendMedia_def Let_def
    by (intro answer_rules answers_after [OF meta] answers_after [OF upload] answers_queue)
  show "answers env rid (React env rid conv mid emoji add)"
    unfolding React_def by (intro answer_rules answers_after [OF roster])
  show "answers env rid (DeleteMessage env rid mid)"
    unfolding DeleteMessage_def by (intro answer_rules)
  show "answers env rid (Open env rid addresses)"
    unfolding Open_def
    by (intro answers_if answers_option answers_failure answers_after [OF quiet_get]
        answers_after [OF resolve] answers_then [OF answers_result opened])
qed

text \<open>The request id of an operation.\<close>

fun op_request :: "session_op \<Rightarrow> go_string option" where
  "op_request (OpSendText rid conv txt reply) = Some rid"
| "op_request (OpSendMedia rid conv path caption) = Some rid"
| "op_request (OpReact rid conv mid emoji add) = Some rid"
| "op_request (OpDeleteMessage rid mid) = Some rid"
| "op_request (OpOpen rid addresses) = Some rid"
| "op_request _ = None"

lemma quiet_signal: "says_nothing env (relay_signal gen evt)"
proof (rule quietI)
  fix rs
  show "keeps (\<lambda>s. env_open env \<longrightarrow> has_results rs s) (relay_signal gen evt)"
    unfolding relay_signal_def requestResync_def markDirty_def Let_def
    by (intro keeps_rules count.act_keeps keeps_update)
       (auto simp: has_results_def results_def mark_dirty_def Let_def)
qed

lemma quiet_ops:
  assumes "op_request op = None" and "op \<noteq> OpClose"
  shows "says_nothing env (run_op env op)"
proof (cases "\<exists>gen evt. op = OpSignal gen evt")
  case True
  then show ?thesis using quiet_signal by auto
next
  case False
  show ?thesis
  proof (rule quietI)
    fix rs
    show "keeps (\<lambda>s. env_open env \<longrightarrow> has_results rs s) (run_op env op)"
      using assms False
      by (cases op)
         (auto intro!: keeps_rules count.restore_keeps count.login_keeps count.finish_pairing_keeps
            count.connect_keeps count.catch_up_keeps count.event_turn_keeps count.resync_keeps
            count.resume_keeps count.sync_keeps count.history_keeps count.mark_read_keeps
            count.typing_keeps count.logout_keeps)
  qed
qed

text \<open>C4: one answer per request. From an open session, an operation that carries a request id emits
  exactly one command result, for that id, on every path: rejected input, no client, relay errors,
  retries, success, as long as blocking calls do not close the session. An operation without a
  request id emits none.\<close>

theorem one_result_per_request:
  assumes "env_open env" and "\<not> s_closed s" and "run_state (run_op env op) s = (u, t)"
    and "op \<noteq> OpClose"
  shows "case op_request op of
      Some rid \<Rightarrow> \<exists>ok err. results t = results s @ [result_event rid ok err]
    | None \<Rightarrow> results t = results s"
proof (cases "op_request op")
  case None
  have "hoare (\<lambda>s'. env_open env \<and> has_results (results s) s') (run_op env op)
      (\<lambda>_. has_results (results s))"
    using quiet_ops [OF None assms(4)] unfolding says_nothing_def by blast
  from hoare_run [OF this _ assms(3)] assms(1,2) None show ?thesis by (simp add: has_results_def)
next
  case (Some rid)
  then have "answers env rid (run_op env op)"
    by (cases op) (auto intro: answers_commands)
  then have "hoare (\<lambda>s'. env_open env \<and> has_results (results s) s') (run_op env op)
      (\<lambda>_ s'. \<exists>ok err. has_results (results s @ [result_event rid ok err]) s')"
    unfolding answers_def by blast
  from hoare_run [OF this _ assms(3)] assms(1,2) Some show ?thesis by (auto simp: has_results_def)
qed

lemma one_result_per_request_witness:
  "\<exists>ok err. results (snd (run_state (run_op (test_env (\<lambda>q. empty_reply))
      (OpSendText ''r1'' ''t'' ''hello'' [])) w_session)) = [result_event ''r1'' ok err]"
proof -
  let ?env = "test_env (\<lambda>q. empty_reply)" and ?op = "OpSendText ''r1'' ''t'' ''hello'' []"
  obtain u t where run: "run_state (run_op ?env ?op) w_session = (u, t)"
    by (rule prod.exhaust)
  have "env_open ?env" by (simp add: env_open_def test_env_def)
  moreover have "\<not> s_closed w_session" by (simp add: NewSession_def)
  ultimately have "case op_request ?op of
      Some rid \<Rightarrow> \<exists>ok err. results t = results w_session @ [result_event rid ok err]
    | None \<Rightarrow> results t = results w_session"
    by (rule one_result_per_request [OF _ _ run]) simp
  then show ?thesis using run by (simp add: results_def NewSession_def)
qed

subsection \<open>The send retry schedule\<close>

definition actions :: "session \<Rightarrow> action list" where
  "actions s = map te_action (s_trace s)"

lemma actions_simps [simp]:
  "actions (s\<lparr>s_trace := tr @ [stamp u a]\<rparr>) = map te_action tr @ [a]"
  "actions (s\<lparr>s_pending := p\<rparr>) = actions s"
  by (simp_all add: actions_def stamp_def)

text \<open>What the retry loop adds to the trace: rounds of a backoff and a send, and at the end perhaps a
  backoff the deadline cut short.\<close>

definition retries :: "nat \<Rightarrow> send_request \<Rightarrow> int list \<Rightarrow> action list" where
  "retries client req bs = concat (map (\<lambda>b. [Pause b, Call client (SendMessage req)]) bs)"

definition retryable :: "reply \<Rightarrow> bool" where
  "retryable r \<longleftrightarrow> rp_err r = None \<and> (rp_send r = SEND_FAILURE_2 \<or> rp_send r = SEND_FAILURE_3)"

definition verdict :: "reply \<Rightarrow> go_error option" where
  "verdict r = (case rp_err r of
     Some e \<Rightarrow> Some e
   | None \<Rightarrow> if rp_send r = SEND_SUCCESS then None else Some [ErrOther])"

text \<open>The relay answers the sends one after the other with \<open>ans 0\<close>, \<open>ans 1\<close>, and so on, and the waits
  end as \<open>wk 0\<close>, \<open>wk 1\<close>, \dots; what else happens to the session meanwhile is open.\<close>

definition sends :: "nat \<Rightarrow> send_request \<Rightarrow> session \<Rightarrow> nat" where
  "sends client req s = length (filter (\<lambda>a. a = Call client (SendMessage req)) (actions s))"

definition pauses :: "session \<Rightarrow> nat" where
  "pauses s = length (filter (\<lambda>a. \<exists>d. a = Pause d) (actions s))"

definition in_turn :: "env \<Rightarrow> nat \<Rightarrow> send_request \<Rightarrow> (nat \<Rightarrow> reply) \<Rightarrow> (nat \<Rightarrow> wake) \<Rightarrow> bool" where
  "in_turn env client req ans wk \<longleftrightarrow>
     (\<forall>u. fst (e_relay env client (SendMessage req) u) = ans (sends client req u))
     \<and> (\<forall>d u. fst (e_wait env d u) = wk (pauses u))"

lemma in_turnD:
  "in_turn env client req ans wk \<Longrightarrow> e_relay env client (SendMessage req) u = (r, u1) \<Longrightarrow> r = ans (sends client req u)"
  "in_turn env client req ans wk \<Longrightarrow> e_wait env d u = (w, u2) \<Longrightarrow> w = wk (pauses u)"
  unfolding in_turn_def by (metis fst_conv)+

lemma count_actions:
  "actions t = actions s @ as \<Longrightarrow>
     sends client req t = sends client req s + length (filter (\<lambda>a. a = Call client (SendMessage req)) as)
     \<and> pauses t = pauses s + length (filter (\<lambda>a. \<exists>d. a = Pause d) as)"
  by (simp add: sends_def pauses_def)

definition retry_outcome ::
  "nat \<Rightarrow> send_request \<Rightarrow> (nat \<Rightarrow> reply) \<Rightarrow> (nat \<Rightarrow> wake) \<Rightarrow> int list \<Rightarrow> nat \<Rightarrow> nat \<Rightarrow> action list \<Rightarrow> go_error option \<Rightarrow> bool"
  where
  "retry_outcome client req ans wk bs n k as e \<longleftrightarrow>
     k \<le> length bs \<and> (\<forall>i < k. retryable (ans (n + i)) \<and> wk (n + i) = Woke_Timer)
     \<and> (if k < length bs \<and> retryable (ans (n + k))
        then wk (n + k) = Woke_Done \<and> as = retries client req (take k bs) @ [Pause (bs ! k)] \<and> e = Some [ErrContextCanceled]
        else as = retries client req (take k bs) \<and> e = verdict (ans (n + k)))"

definition retry_error :: "go_error + reply \<Rightarrow> go_error option" where
  "retry_error r = (case r of Inl e \<Rightarrow> Some e | Inr resp \<Rightarrow> verdict (resp\<lparr>rp_err := None\<rparr>))"

lemma outcome_step:
  assumes "retry_outcome client req ans wk bs (Suc n) k as e" and "retryable (ans n)" and "wk n = Woke_Timer"
  shows "retry_outcome client req ans wk (b # bs) n (Suc k) (Pause b # Call client (SendMessage req) # as) e"
proof -
  have "retryable (ans (n + i)) \<and> wk (n + i) = Woke_Timer" if "i < Suc k" for i
    using that assms by (cases i) (auto simp: retry_outcome_def)
  with assms show ?thesis by (auto simp: retry_outcome_def retries_def split: if_splits)
qed

lemma send_retry_trace:
  assumes "in_turn env client req ans wk" and "sends client req s = Suc n" and "pauses s = n" and "resp = ans n"
  shows "wp (send_retry env client req bs resp)
     (\<lambda>r t. \<exists>k as. actions t = actions s @ as \<and> retry_outcome client req ans wk bs n k as (retry_error r)) s"
  using assms(2-4)
proof (induction bs arbitrary: resp s n)
  case Nil
  then show ?case
    by (auto simp: wp_simps retry_outcome_def retries_def retry_error_def verdict_def split: option.split)
next
  case (Cons b bs)
  show ?case
  proof (cases "retryable resp")
    case False
    then have "retry_outcome client req ans wk (b # bs) n 0 []
        (retry_error (case rp_err resp of Some e \<Rightarrow> Inl e | None \<Rightarrow> Inr resp))"
      using Cons.prems by (auto simp: retry_outcome_def retries_def retry_error_def verdict_def split: option.split)
    then show ?thesis using False
      by (auto simp: wp_simps retryable_def split: option.splits intro!: exI [of _ "0::nat"])
  next
    case True
    obtain w t1 where w: "e_wait env b s = (w, t1)" by (rule prod.exhaust)
    define s1 where "s1 = t1\<lparr>s_trace := s_trace s @ [stamp s (Pause b)]\<rparr>"
    obtain r2 t2 where r2: "e_relay env client (SendMessage req) s1 = (r2, t2)" by (rule prod.exhaust)
    define s2 where "s2 = t2\<lparr>s_trace :=
      s_trace s @ [stamp s (Pause b), stamp s1 (Call client (SendMessage req))]\<rparr>"
    have a1: "actions s1 = actions s @ [Pause b]" by (simp add: s1_def actions_def stamp_def)
    have a2: "actions s2 = actions s @ [Pause b, Call client (SendMessage req)]"
      using a1 by (simp add: s2_def actions_def stamp_def)
    have wv: "w = wk n" using in_turnD(2) [OF assms(1) w] Cons.prems(2) by simp
    have rv: "r2 = ans (Suc n)"
      using in_turnD(1) [OF assms(1) r2] count_actions [OF a1] Cons.prems(1) by simp
    have go: "wp (send_retry env client req (b # bs) resp) Q s
        = (if w = Woke_Done then Q (Inl [ErrContextCanceled]) s1
           else wp (send_retry env client req bs r2) Q s2)" for Q
      using True w r2
      by (auto simp: wp_simps retryable_def s1_def [symmetric] s2_def [symmetric])
    show ?thesis
    proof (cases w)
      case Woke_Done
      then have "retry_outcome client req ans wk (b # bs) n 0 [Pause b] (retry_error (Inl [ErrContextCanceled]))"
        using True wv Cons.prems(3) by (auto simp: retry_outcome_def retries_def retry_error_def)
      with Woke_Done show ?thesis unfolding go using a1 by auto
    next
      case Woke_Timer
      have "wp (send_retry env client req bs r2)
         (\<lambda>r t. \<exists>k as. actions t = actions s2 @ as \<and> retry_outcome client req ans wk bs (Suc n) k as (retry_error r)) s2"
        by (rule Cons.IH) (use count_actions [OF a2] Cons.prems rv in simp_all)
      moreover have "\<exists>k as'. actions t = actions s @ as' \<and> retry_outcome client req ans wk (b # bs) n k as' (retry_error r)"
        if "actions t = actions s2 @ as" "retry_outcome client req ans wk bs (Suc n) k as (retry_error r)" for t as k r
        using outcome_step [OF that(2), of b] that(1) True Woke_Timer wv Cons.prems(3) a2 by auto
      ultimately show ?thesis using Woke_Timer unfolding go by (auto elim!: wp_mono)
    qed
  qed
qed

text \<open>C17: the retry schedule of a send. Let the relay answer the sends of one request, one after the
  other, in any way. \<open>sendToRelay\<close> sends, and sends again, after waits of 3, 8 and 20 seconds in that
  order, exactly as long as the answers so far were all retryable (a reply with one of the two
  retryable statuses): it makes one more send than there were such answers, and never a fifth. So a
  success, an error or any other status is never followed by another send, and a retryable answer
  always is, unless the schedule is used up or the deadline passes during the wait. The result is
  the verdict on the last answer, or the deadline's error.\<close>

theorem send_retry_schedule:
  assumes "in_turn env client req ans wk" and "s_trace s = []" and "run_state (sendToRelay env client req) s = (r, t)"
  shows "\<exists>k \<le> 3. (\<forall>i < k. retryable (ans i) \<and> wk i = Woke_Timer)
    \<and> (if k < 3 \<and> retryable (ans k)
       then wk k = Woke_Done \<and> r = Some [ErrContextCanceled]
         \<and> actions t = Call client (SendMessage req)
             # retries client req (take k [3 * second, 8 * second, 20 * second])
             @ [Pause ([3 * second, 8 * second, 20 * second] ! k)]
       else r = verdict (ans k)
         \<and> actions t = Call client (SendMessage req)
             # retries client req (take k [3 * second, 8 * second, 20 * second]))"
proof -
  obtain r0 t0 where r0: "e_relay env client (SendMessage req) s = (r0, t0)" by (rule prod.exhaust)
  define s0 where "s0 = t0\<lparr>s_trace := [stamp s (Call client (SendMessage req))]\<rparr>"
  obtain v u where v: "run_state (send_retry env client req sendRetryBackoff r0) s0 = (v, u)"
    by (rule prod.exhaust)
  have a0: "actions s0 = [Call client (SendMessage req)]" by (simp add: s0_def actions_def stamp_def)
  have rt: "r = (case v of Inl e \<Rightarrow> Some e
      | Inr resp \<Rightarrow> if rp_send resp \<noteq> SEND_SUCCESS then Some [ErrOther] else None)" "t = u"
    using assms(2,3) r0 v by (auto simp: sendToRelay_def rpc_call_def s0_def)
  have r: "r = retry_error v"
    unfolding rt(1) by (simp add: retry_error_def verdict_def split: sum.split)
  have "actions s = []" using assms(2) by (simp add: actions_def)
  then have "r0 = ans 0" using in_turnD(1) [OF assms(1) r0] by (simp add: sends_def)
  then obtain k as where k: "actions u = actions s0 @ as"
    "retry_outcome client req ans wk sendRetryBackoff 0 k as (retry_error v)"
    using wp_run [OF send_retry_trace [OF assms(1), of s0 0 r0 sendRetryBackoff] v] a0
    by (auto simp: sends_def pauses_def)
  have "length sendRetryBackoff = 3" by (simp add: sendRetryBackoff_def)
  note k2 = k(2) [unfolded retry_outcome_def this, unfolded sendRetryBackoff_def]
  from k(1) k2 show ?thesis unfolding rt(2) r a0
    by (intro exI [of _ k]) (auto split: if_splits)
qed

definition w_request :: send_request where
  "w_request = outgoing_request ''t'' ''x'' (\<lparr>cm_outgoingID = [], cm_convType = CT_RCS, cm_sendMode = 0,
     cm_isGroup = False\<rparr>) [Info_Message ''hi''] [] w_session"

text \<open>A relay that refuses the first send and accepts the second.\<close>

definition w_second_accepted :: "nat \<Rightarrow> reply" where
  "w_second_accepted n = empty_reply\<lparr>rp_send := if n = 0 then SEND_FAILURE_2 else SEND_SUCCESS\<rparr>"

lemma send_retry_schedule_witness:
  "\<exists>env. actions (snd (run_state (sendToRelay env 7 w_request) w_session))
     = [Call 7 (SendMessage w_request), Pause (3 * second), Call 7 (SendMessage w_request)]"
proof -
  define env where "env = (test_env (\<lambda>q. empty_reply))\<lparr>e_relay := \<lambda>c q u. (w_second_accepted (sends 7 w_request u), u)\<rparr>"
  have turn: "in_turn env 7 w_request w_second_accepted (\<lambda>n. Woke_Timer)"
    by (simp add: in_turn_def env_def test_env_def)
  obtain r t where run: "run_state (sendToRelay env 7 w_request) w_session = (r, t)" by (rule prod.exhaust)
  have "s_trace w_session = []" by (simp add: NewSession_def)
  note schedule = send_retry_schedule [OF turn this run]
  have "retryable (w_second_accepted i) \<longleftrightarrow> i = 0" for i
    by (simp add: retryable_def w_second_accepted_def empty_reply_def)
  with schedule obtain k where k: "\<forall>i < k. i = 0" "k = 3 \<or> k \<noteq> 0"
    "actions t = Call 7 (SendMessage w_request)
             # retries 7 w_request (take k [3 * second, 8 * second, 20 * second])"
    by (auto split: if_splits)
  then have "k = 1" by (metis One_nat_def less_one linorder_neqE_nat zero_neq_one zero_neq_numeral)
  with k(3) run show ?thesis by (intro exI [of _ env]) (simp add: retries_def)
qed

subsection \<open>Commands against a scripted relay\<close>

text \<open>A relay that answers each request the same way every time, with nothing else going on.\<close>

definition scripted :: "env \<Rightarrow> (rpc \<Rightarrow> reply) \<Rightarrow> bool" where
  "scripted env answer \<longleftrightarrow>
     (\<forall>c q s. e_relay env c q s = (answer q, s)) \<and> (\<forall>d s. e_wait env d s = (Woke_Timer, s))"

lemma scripted_test [simp]: "scripted (test_env answer) answer"
  by (simp add: scripted_def test_env_def)

lemma scriptedD:
  "scripted env answer \<Longrightarrow> e_relay env c q s = (answer q, s)"
  "scripted env answer \<Longrightarrow> e_wait env d s = (Woke_Timer, s)"
  by (simp_all add: scripted_def)

definition emitted_of :: "entry \<Rightarrow> event list" where
  "emitted_of e = (case te_action e of Emit evt \<Rightarrow> [evt] | _ \<Rightarrow> [])"

definition emitted :: "session \<Rightarrow> event list" where
  "emitted s = concat (map emitted_of (s_trace s))"

lemma emitted_of_stamp [simp]:
  "\<not> emits a \<Longrightarrow> emitted_of (stamp s a) = []"
  "emitted_of (stamp s (Emit e)) = [e]"
  by (cases a) (simp_all add: emitted_of_def stamp_def)

lemma send_scripted:
  assumes "scripted env answer"
  shows "wp (sendToRelay env c req)
     (\<lambda>r t. r = verdict (answer (SendMessage req)) \<and> emitted t = emitted s \<and> t = s\<lparr>s_trace := s_trace t\<rparr>) s"
proof -
  let ?a = "answer (SendMessage req)"
  have retry: "wp (send_retry env c req bs ?a)
      (\<lambda>r t. r = (case rp_err ?a of Some e \<Rightarrow> Inl e | None \<Rightarrow> Inr ?a)
         \<and> emitted t = emitted s \<and> t = s\<lparr>s_trace := s_trace t\<rparr>) s" for bs s
  proof (induction bs arbitrary: s)
    case (Cons b bs)
    let ?s = "s\<lparr>s_trace := s_trace s @ [stamp s (Pause b), stamp (s\<lparr>s_trace := s_trace s @ [stamp s (Pause b)]\<rparr>)
        (Call c (SendMessage req))]\<rparr>"
    from Cons.IH [of ?s] show ?case
      by (auto simp: wp_simps scriptedD [OF assms] emitted_def split: option.split elim!: wp_mono)
  qed (simp add: wp_simps)
  let ?s = "s\<lparr>s_trace := s_trace s @ [stamp s (Call c (SendMessage req))]\<rparr>"
  have e: "emitted ?s = emitted s" by (simp add: emitted_def)
  show ?thesis
    unfolding sendToRelay_def wp_bind wp_rpc_call scriptedD [OF assms] prod.case
    by (rule wp_mono [OF retry])
       (auto simp: wp_simps verdict_def e split: option.splits)
qed

text \<open>C12: what a text send reports and remembers. With a client, known thread metadata and a text of
  1 to 8000 characters, the adapter first accepts the command (result, then the status \<open>accepted\<close>
  for the transaction id), and only then calls the relay. If the relay takes the send, or the phone
  merely does not respond, the transaction stays pending for a later echo and nothing more is
  said; any other outcome drops it and reports \<open>failed:transport\<close>.\<close>

theorem send_text_outcome:
  assumes "scripted env answer" and "\<not> s_closed s" and "s_trace s = []"
    and "0 < length (runes txt)" and "length (runes txt) \<le> MaxTextChars"
    and "map_of (s_metas s) conv = Some meta" and "s_client s = Some c"
    and "run_state (SendText env rid conv txt reply) s = (u, t)"
  defines "txn \<equiv> e_tmpID env s"
  defines "lost \<equiv> (case verdict (answer (SendMessage
      (outgoing_request conv txn meta [Info_Message txt] reply s))) of
        None \<Rightarrow> False | Some e \<Rightarrow> \<not> errors_Is e ErrPhoneNotResponding)"
  shows "(emitted t = result_event rid True [] # status_event (s_account s) conv txn ''accepted''
      # (if lost then [status_event (s_account s) conv txn ''failed:transport''] else []))
    \<and> (map_of (s_pending t) txn
      = (if lost then None else Some \<lparr>ps_requestID = rid, ps_convID = conv, ps_at = s_now s\<rparr>))"
proof (intro conjI)
  let ?req = "outgoing_request conv txn meta [Info_Message txt] reply s"
  let ?v = "verdict (answer (SendMessage ?req))"
  define P where "P = AList.update txn \<lparr>ps_requestID = rid, ps_convID = conv, ps_at = s_now s\<rparr>
      (filter (\<lambda>(txn, send). \<not> ps_at send < s_now s - pendingTTL) (s_pending s))"
  define s1 where "s1 = s\<lparr>s_pending := P\<rparr>"
  define s2 where "s2 = s1\<lparr>s_trace := [stamp s1 (Emit (result_event rid True []))]\<rparr>"
  define s3 where "s3 = s1\<lparr>s_trace := [stamp s1 (Emit (result_event rid True [])),
      stamp s2 (Emit (status_event (s_account s) conv txn ''accepted''))]\<rparr>"
  have fields: "\<not> s_closed s1" "\<not> s_closed s2" "s_account s2 = s_account s" "s_closed s3 = s_closed s"
    "s_account s3 = s_account s" "s_pending s3 = P"
    using assms(2) by (simp_all add: s1_def s2_def s3_def)
  have e3: "emitted s3 = [result_event rid True [], status_event (s_account s) conv txn ''accepted'']"
    by (simp add: s3_def s2_def emitted_def)
  have start: "wp (SendText env rid conv txt reply) Q s
      = wp (sendToRelay env c ?req) (\<lambda>err. wp (case err of
          None \<Rightarrow> State_Monad.return ()
        | Some e \<Rightarrow> if errors_Is e ErrPhoneNotResponding then State_Monad.return ()
            else do { State_Monad.update (\<lambda>s. s\<lparr>s_pending := AList.delete txn (s_pending s)\<rparr>);
                      relayFailure conv txn }) Q) s3" for Q
    using assms(2-7) unfolding s3_def s2_def s1_def P_def txn_def
    by (simp add: SendText_def threadMeta_def queue_and_send_def sweepPending_def send_result_def
        wp_simps Let_def)
  have "wp (SendText env rid conv txt reply) (\<lambda>_ t.
      emitted t = emitted s3 @ (if lost then [status_event (s_account s) conv txn ''failed:transport''] else [])
      \<and> s_pending t = (if lost then AList.delete txn P else P)) s"
    unfolding start
  proof (rule wp_mono [OF send_scripted [OF assms(1)]])
    fix r t assume rt: "r = ?v \<and> emitted t = emitted s3 \<and> t = s3\<lparr>s_trace := s_trace t\<rparr>"
    then have eq: "t = s3\<lparr>s_trace := s_trace t\<rparr>" by blast
    have "s_closed t = s_closed s3" "s_account t = s_account s3" "s_pending t = s_pending s3"
      by (subst eq, simp)+
    moreover have "r = ?v" "emitted t = emitted s3" using rt by blast+
    ultimately show "wp (case r of
          None \<Rightarrow> State_Monad.return ()
        | Some e \<Rightarrow> if errors_Is e ErrPhoneNotResponding then State_Monad.return ()
            else do { State_Monad.update (\<lambda>s. s\<lparr>s_pending := AList.delete txn (s_pending s)\<rparr>);
                      relayFailure conv txn })
        (\<lambda>_ t. emitted t = emitted s3 @ (if lost then [status_event (s_account s) conv txn ''failed:transport''] else [])
          \<and> s_pending t = (if lost then AList.delete txn P else P)) t"
      using fields assms(2)
      by (auto simp: wp_simps lost_def relayFailure_def emitted_def split: option.split)
  qed
  from wp_run [OF this assms(8)]
  have "emitted t = emitted s3 @ (if lost then [status_event (s_account s) conv txn ''failed:transport''] else [])"
    "s_pending t = (if lost then AList.delete txn P else P)" by simp_all
  then show "emitted t = result_event rid True [] # status_event (s_account s) conv txn ''accepted''
      # (if lost then [status_event (s_account s) conv txn ''failed:transport''] else [])"
    and "map_of (s_pending t) txn
      = (if lost then None else Some \<lparr>ps_requestID = rid, ps_convID = conv, ps_at = s_now s\<rparr>)"
    by (simp_all add: e3 P_def)
qed

definition w_meta :: convMeta where
  "w_meta = \<lparr>cm_outgoingID = ''me'', cm_convType = CT_RCS, cm_sendMode = 0, cm_isGroup = False\<rparr>"

definition w_online :: session where
  "w_online = w_session\<lparr>s_client := Some 7, s_metas := [(''t'', w_meta)]\<rparr>"

lemma w_online_fields [simp]:
  "s_closed w_online = False" "s_trace w_online = []" "s_client w_online = Some 7"
  "s_metas w_online = [(''t'', w_meta)]" "s_now w_online = 0" "s_account w_online = ''a''"
  "s_selfIDs w_online = {}" "s_sims w_online = []"
  by (simp_all add: w_online_def NewSession_def)

lemma send_text_outcome_witness:
  "emitted (snd (run_state (SendText (test_env (\<lambda>q. empty_reply\<lparr>rp_err := Some [ErrPhoneNotResponding]\<rparr>))
      ''r1'' ''t'' ''hi'' []) w_online))
     = [result_event ''r1'' True [], status_event ''a'' ''t'' ''tmp'' ''accepted'']
   \<and> map_of (s_pending (snd (run_state (SendText (test_env (\<lambda>q. empty_reply\<lparr>rp_err := Some [ErrPhoneNotResponding]\<rparr>))
      ''r1'' ''t'' ''hi'' []) w_online))) ''tmp''
     = Some \<lparr>ps_requestID = ''r1'', ps_convID = ''t'', ps_at = 0\<rparr>"
proof -
  let ?env = "test_env (\<lambda>q. empty_reply\<lparr>rp_err := Some [ErrPhoneNotResponding]\<rparr>)"
  obtain u t where run: "run_state (SendText ?env ''r1'' ''t'' ''hi'' []) w_online = (u, t)"
    by (rule prod.exhaust)
  have len: "0 < length (runes ''hi'')" "length (runes ''hi'') \<le> MaxTextChars" by code_simp+
  have txn: "e_tmpID ?env w_online = ''tmp''" by (simp add: test_env_def)
  note out = send_text_outcome [OF scripted_test w_online_fields(1) [unfolded eq_False] w_online_fields(2)
      len _ w_online_fields(3) run, of w_meta]
  have "map_of (s_metas w_online) ''t'' = Some w_meta" by simp
  note out [OF this]
  then show ?thesis
    using run by (simp add: txn verdict_def errors_Is_def)
qed

subsection \<open>Reactions\<close>

text \<open>Whether the local user reacted to a message, or to the message of an id, with an emoji in \<open>P\<close>.\<close>

definition self_on :: "session \<Rightarrow> pb_message \<Rightarrow> (go_string \<Rightarrow> bool) \<Rightarrow> bool" where
  "self_on s m P \<longleftrightarrow>
     (\<exists>e \<in> set (pm_Reactions m). P (re_Unicode e) \<and> (\<exists>i \<in> set (re_ParticipantIDs e). isSelfID i s))"

definition self_reacted :: "go_string \<Rightarrow> session \<Rightarrow> pb_message option list \<Rightarrow> (go_string \<Rightarrow> bool) \<Rightarrow> bool" where
  "self_reacted msgID s msgs P \<longleftrightarrow>
     (\<exists>m. Some m \<in> set msgs \<and> pm_MessageID m = msgID \<and> self_on s m P)"

lemma react_entries:
  "rs_present (fold (react_entry emoji s) (pm_Reactions m) st)
     \<longleftrightarrow> rs_present st \<or> self_on s m (\<lambda>x. x = emoji)"
  "rs_other (fold (react_entry emoji s) (pm_Reactions m) st)
     \<longleftrightarrow> rs_other st \<or> self_on s m (\<lambda>x. x \<noteq> emoji)"
proof -
  have "(rs_present (fold (react_entry emoji s) es st)
      \<longleftrightarrow> rs_present st \<or> (\<exists>e \<in> set es. re_Unicode e = emoji \<and> (\<exists>i \<in> set (re_ParticipantIDs e). isSelfID i s)))
    \<and> (rs_other (fold (react_entry emoji s) es st)
      \<longleftrightarrow> rs_other st \<or> (\<exists>e \<in> set es. re_Unicode e \<noteq> emoji \<and> (\<exists>i \<in> set (re_ParticipantIDs e). isSelfID i s)))"
    for es
    by (induction es arbitrary: st) (auto simp: react_entry_def)
  then show "rs_present (fold (react_entry emoji s) (pm_Reactions m) st)
     \<longleftrightarrow> rs_present st \<or> self_on s m (\<lambda>x. x = emoji)"
    and "rs_other (fold (react_entry emoji s) (pm_Reactions m) st)
     \<longleftrightarrow> rs_other st \<or> self_on s m (\<lambda>x. x \<noteq> emoji)"
    by (simp_all add: self_on_def)
qed

lemma roster_fold:
  "rs_present (fold (\<lambda>m st. case m of None \<Rightarrow> st | Some m \<Rightarrow> fold (react_entry emoji s) (pm_Reactions m) st) ms st)
     \<longleftrightarrow> rs_present st \<or> (\<exists>m. Some m \<in> set ms \<and> self_on s m (\<lambda>x. x = emoji))"
  "rs_other (fold (\<lambda>m st. case m of None \<Rightarrow> st | Some m \<Rightarrow> fold (react_entry emoji s) (pm_Reactions m) st) ms st)
     \<longleftrightarrow> rs_other st \<or> (\<exists>m. Some m \<in> set ms \<and> self_on s m (\<lambda>x. x \<noteq> emoji))"
proof (induction ms arbitrary: st)
  case (Cons x ms)
  { case 1 show ?case using Cons.IH(1) by (cases x) (auto simp: react_entries) }
  { case 2 show ?case using Cons.IH(2) by (cases x) (auto simp: react_entries) }
qed simp_all

lemma roster_state_spec:
  assumes "msgID \<noteq> []"
  shows "roster_state msgID emoji s msgs =
     (if \<exists>m. Some m \<in> set msgs \<and> pm_MessageID m = msgID
      then Some \<lparr>rs_present = self_reacted msgID s msgs (\<lambda>x. x = emoji),
                 rs_other = self_reacted msgID s msgs (\<lambda>x. x \<noteq> emoji)\<rparr>
      else None)"
proof -
  let ?hits = "filter (\<lambda>m. (case m of None \<Rightarrow> [] | Some m \<Rightarrow> pm_MessageID m) = msgID) msgs"
  have hit: "x \<in> set ?hits \<longleftrightarrow> (\<exists>m. x = Some m \<and> Some m \<in> set msgs \<and> pm_MessageID m = msgID)" for x
    using assms by (cases x) auto
  have none: "?hits = [] \<longleftrightarrow> \<not> (\<exists>m. Some m \<in> set msgs \<and> pm_MessageID m = msgID)"
    using hit by (metis empty_iff list.set(1) set_empty2 equals0I)
  show ?thesis
  proof (cases "?hits = []")
    case True
    then show ?thesis using none by (simp add: roster_state_def)
  next
    case False
    let ?st = "fold (\<lambda>m st. case m of None \<Rightarrow> st | Some m \<Rightarrow> fold (react_entry emoji s) (pm_Reactions m) st)
      ?hits \<lparr>rs_present = False, rs_other = False\<rparr>"
    have "rs_present ?st = self_reacted msgID s msgs (\<lambda>x. x = emoji)"
      "rs_other ?st = self_reacted msgID s msgs (\<lambda>x. x \<noteq> emoji)"
      unfolding roster_fold self_reacted_def hit by auto
    then have "?st = \<lparr>rs_present = self_reacted msgID s msgs (\<lambda>x. x = emoji),
        rs_other = self_reacted msgID s msgs (\<lambda>x. x \<noteq> emoji)\<rparr>" by simp
    with False none show ?thesis by (simp add: roster_state_def Let_def)
  qed
qed

text \<open>C18: a reaction is idempotent and never stacks. Against a relay whose window holds the message,
  \<open>React\<close> asks the relay to change something exactly when the roster does not already show what
  was asked for: adding when the user has no reaction with this emoji (a switch when the user
  reacted with another, an add when not), removing when the user has it. Otherwise the command
  succeeds without a request.\<close>

theorem react_idempotent:
  assumes "scripted env answer" and "\<not> s_closed s" and "s_trace s = []" and "s_client s = Some c"
    and "emoji \<noteq> []" and "msgID \<noteq> []"
    and "rp_err (answer (FetchMessages conv 200 None)) = None"
    and "Some m \<in> set (rp_msgs (answer (FetchMessages conv 200 None)))" and "pm_MessageID m = msgID"
    and "run_state (React env rid conv msgID emoji add) s = (u, t)"
  defines "mine \<equiv> self_reacted msgID s (rp_msgs (answer (FetchMessages conv 200 None)))"
  defines "sim \<equiv> simPayload (outgoing_of conv s) s"
  defines "kind \<equiv> (if \<not> add then REACT_REMOVE
      else if mine (\<lambda>x. x \<noteq> emoji) then REACT_SWITCH else REACT_ADD)"
  defines "req \<equiv> SendReaction msgID emoji kind sim"
  shows "actions t = Call c (FetchMessages conv 200 None) #
     (if mine (\<lambda>x. x = emoji) = add then [Emit (result_event rid True [])]
      else [Call c req,
            Emit (if rp_err (answer req) = None \<and> rp_success (answer req) then result_event rid True []
                  else result_event rid False ''reaction failed'')])"
proof -
  have page: "(of_nat cachePerConv :: u32) = 200" by (simp add: cachePerConv_def)
  let ?s = "s\<lparr>s_trace := [stamp s (Call c (FetchMessages conv 200 None))]\<rparr>"
  have self: "isSelfID i ?s = isSelfID i s" "simPayload o1 ?s = simPayload o1 s"
    "outgoing_of conv ?s = outgoing_of conv s" for i o1
    by (simp_all add: isSelfID_def simPayload_def outgoing_of_def)
  have roster: "roster_state msgID emoji ?s (rp_msgs (answer (FetchMessages conv 200 None)))
      = Some \<lparr>rs_present = mine (\<lambda>x. x = emoji), rs_other = mine (\<lambda>x. x \<noteq> emoji)\<rparr>"
    unfolding roster_state_spec [OF assms(6)] mine_def self_reacted_def self_on_def self using assms(8,9) by auto
  have fetch: "wp (selfReactionState env conv msgID emoji) Q s
      = Q (Some \<lparr>rs_present = mine (\<lambda>x. x = emoji), rs_other = mine (\<lambda>x. x \<noteq> emoji)\<rparr>) ?s" for Q
    using assms(3,4,7) roster
    by (simp add: selfReactionState_def wp_simps scriptedD [OF assms(1)] page)
  have chosen: "react_action add \<lparr>rs_present = mine (\<lambda>x. x = emoji), rs_other = mine (\<lambda>x. x \<noteq> emoji)\<rparr>
      = (if mine (\<lambda>x. x = emoji) = add then None else Some kind)"
    by (auto simp: react_action_def kind_def)
  have same: "simPayload o1 (s\<lparr>s_trace := x\<rparr>) = simPayload o1 s"
    "outgoing_of conv (s\<lparr>s_trace := x\<rparr>) = outgoing_of conv s" for o1 x
    by (simp_all add: simPayload_def outgoing_of_def)
  have "wp (React env rid conv msgID emoji add) (\<lambda>_ t. actions t =
     Call c (FetchMessages conv 200 None) #
     (if mine (\<lambda>x. x = emoji) = add then [Emit (result_event rid True [])]
      else [Call c req,
            Emit (if rp_err (answer req) = None \<and> rp_success (answer req) then result_event rid True []
                  else result_event rid False ''reaction failed'')])) s"
    using assms(2,4,5)
    by (simp add: React_def wp_bind fetch wp_option chosen wp_get wp_rpc_call scriptedD [OF assms(1)]
        wp_if failure_def send_result_def wp_fire same sim_def [symmetric] req_def [symmetric] actions_def
        stamp_def)
  from wp_run [OF this assms(10)] show ?thesis .
qed

definition w_reacted :: pb_message where
  "w_reacted = \<lparr>pm_MessageID = ''m'', pm_ConversationID = ''t'', pm_ParticipantID = ''p'',
     pm_SenderParticipant = None, pm_Status = INCOMING_COMPLETE, pm_Timestamp = 0, pm_TmpID = [],
     pm_Type = 4, pm_MessageInfo = [], pm_ReplyMessage = None,
     pm_Reactions = [\<lparr>re_Unicode = ''x'', re_ParticipantIDs = [''1'']\<rparr>]\<rparr>"

lemma react_idempotent_witness:
  "actions (snd (run_state (React (test_env (\<lambda>q. empty_reply\<lparr>rp_msgs := [Some w_reacted]\<rparr>))
      ''r'' ''t'' ''m'' ''x'' True) w_online))
   = [Call 7 (FetchMessages ''t'' 200 None), Emit (result_event ''r'' True [])]"
proof -
  let ?a = "\<lambda>q :: rpc. empty_reply\<lparr>rp_msgs := [Some w_reacted]\<rparr>"
  obtain u t where run: "run_state (React (test_env ?a) ''r'' ''t'' ''m'' ''x'' True) w_online = (u, t)"
    by (rule prod.exhaust)
  have mine: "self_reacted ''m'' w_online [Some w_reacted] (\<lambda>x. x = ''x'')"
    by (simp add: self_reacted_def self_on_def w_reacted_def isSelfID_def selfSentinel_def)
  have "rp_err (?a (FetchMessages ''t'' 200 None)) = None"
    "Some w_reacted \<in> set (rp_msgs (?a (FetchMessages ''t'' 200 None)))"
    "pm_MessageID w_reacted = ''m''" by (simp_all add: empty_reply_def w_reacted_def)
  from react_idempotent [OF scripted_test _ w_online_fields(2,3) _ _ this run] mine
  show ?thesis using run by simp
qed

subsection \<open>Logout\<close>

lemma bump_twice: "next_lifecycle (next_lifecycle v) \<noteq> v"
proof -
  have two: "v + 2 \<noteq> v" by simp
  consider "v + 1 = 0" | "v + 1 \<noteq> 0" "v + 2 = 0" | "v + 1 \<noteq> 0" "v + 2 \<noteq> 0" by blast
  then show ?thesis
  proof cases
    case 1
    then have "v = - 1" by (simp add: eq_neg_iff_add_eq_0)
    then show ?thesis by (simp add: next_lifecycle_def)
  next
    case 2
    then have "v = - 2" by (simp add: eq_neg_iff_add_eq_0)
    then show ?thesis by (simp add: next_lifecycle_def)
  next
    case 3
    then have "v + 1 + 1 \<noteq> 0" by (simp add: add.assoc)
    with 3 two show ?thesis by (simp add: next_lifecycle_def Let_def add.assoc)
  qed
qed

text \<open>C13: logout tells the truth. It reports success exactly when there was no client or the remote
  revoke succeeded, and the session file was deleted. A failed revoke keeps the client, the auth
  and the file and says so; after a successful revoke the live session is gone and offline even if
  the deletion fails. Success leaves no session file for the account. No other file of the
  store changes, and the lifecycle moves in every case.\<close>

theorem logout_outcome:
  assumes "scripted env answer" and "\<not> s_closed s" and "s_trace s = []"
    and "accountFile (s_account s) = Some p"
    and "run_state (Logout env) s = (ok, t)"
  defines "revoked \<equiv> s_client s = None \<or> rp_err (answer Unpair) = None"
  defines "deleted \<equiv> fst (DeleteAuth (e_faults env) (s_account s) (s_store s)) = None"
  shows "(ok \<longleftrightarrow> revoked \<and> deleted)
    \<and> (\<not> revoked \<longrightarrow> s_store t = s_store s \<and> s_client t = s_client s \<and> s_auth t = s_auth s
      \<and> emitted t = [error_event (s_account s) ''remote revoke failed, session kept''])
    \<and> (revoked \<longrightarrow> s_client t = None \<and> s_auth t = None \<and> \<not> s_connected t \<and> \<not> s_authenticated t)
    \<and> (ok \<longrightarrow> map_of (s_store t) p = None
      \<and> emitted t = [(mk_event ''account_removed'')\<lparr>ev_Account := s_account s\<rparr>])
    \<and> (revoked \<and> \<not> deleted \<longrightarrow> emitted t = [account_event (s_account s) False False,
        error_event (s_account s) ''deleting session failed''])
    \<and> (n \<noteq> p \<longrightarrow> map_of (s_store t) n = map_of (s_store s) n)
    \<and> (s_lifecycle t \<noteq> s_lifecycle s)"
proof (intro conjI)
  obtain err d where del: "DeleteAuth (e_faults env) (s_account s) (s_store s) = (err, d)"
    by (rule prod.exhaust)
  have d: "n \<noteq> p \<Longrightarrow> map_of d n = map_of (s_store s) n" "err = None \<Longrightarrow> map_of d p = None" for n
    using del assms(4) by (auto simp: DeleteAuth_def Let_def split: if_splits)
  have move: "next_lifecycle v \<noteq> v" for v by (rule lifecycle.moves)
  let ?post = "\<lambda>ok t. (ok \<longleftrightarrow> revoked \<and> err = None)
    \<and> (\<not> revoked \<longrightarrow> s_store t = s_store s \<and> s_client t = s_client s \<and> s_auth t = s_auth s
        \<and> emitted t = [error_event (s_account s) ''remote revoke failed, session kept''])
    \<and> (revoked \<longrightarrow> s_client t = None \<and> s_auth t = None \<and> \<not> s_connected t \<and> \<not> s_authenticated t
        \<and> s_store t = d)
    \<and> (revoked \<and> err = None \<longrightarrow> emitted t = [(mk_event ''account_removed'')\<lparr>ev_Account := s_account s\<rparr>])
    \<and> (revoked \<and> err \<noteq> None \<longrightarrow> emitted t = [account_event (s_account s) False False,
        error_event (s_account s) ''deleting session failed''])
    \<and> s_lifecycle t \<noteq> s_lifecycle s"
  have "wp (Logout env) ?post s"
  proof (cases "s_pairCancel s")
    case None
    with assms(2,3) del show ?thesis
      by (cases "s_client s"; cases err)
         (auto simp: Logout_def forget_session_def remove_session_def stop_pairing_def teardown_def
           fire_error_def wp_simps scriptedD [OF assms(1)] revoked_def emitted_def move bump_twice)
  next
    case (Some k)
    with assms(2,3) del show ?thesis
      by (cases "s_client s"; cases err)
         (auto simp: Logout_def forget_session_def remove_session_def stop_pairing_def teardown_def
           fire_error_def wp_simps scriptedD [OF assms(1)] revoked_def emitted_def move bump_twice)
  qed
  note post = wp_run [OF this assms(5)]
  have del': "deleted \<longleftrightarrow> err = None" by (simp add: deleted_def del)
  show "ok \<longleftrightarrow> revoked \<and> deleted"
    and "\<not> revoked \<longrightarrow> s_store t = s_store s \<and> s_client t = s_client s \<and> s_auth t = s_auth s
      \<and> emitted t = [error_event (s_account s) ''remote revoke failed, session kept'']"
    and "revoked \<longrightarrow> s_client t = None \<and> s_auth t = None \<and> \<not> s_connected t \<and> \<not> s_authenticated t"
    and "revoked \<and> \<not> deleted \<longrightarrow> emitted t = [account_event (s_account s) False False,
        error_event (s_account s) ''deleting session failed'']"
    and "s_lifecycle t \<noteq> s_lifecycle s"
    using post unfolding del' by blast+
  show "ok \<longrightarrow> map_of (s_store t) p = None
      \<and> emitted t = [(mk_event ''account_removed'')\<lparr>ev_Account := s_account s\<rparr>]"
    using post d(2) by blast
  show "n \<noteq> p \<longrightarrow> map_of (s_store t) n = map_of (s_store s) n"
    using post d(1) by (cases revoked) auto
qed

lemma logout_outcome_witness:
  "fst (run_state (Logout (test_env (\<lambda>q. empty_reply))) w_online)
   \<and> s_client (snd (run_state (Logout (test_env (\<lambda>q. empty_reply))) w_online)) = None"
proof -
  let ?env = "test_env (\<lambda>q. empty_reply)"
  obtain ok t where run: "run_state (Logout ?env) w_online = (ok, t)" by (rule prod.exhaust)
  have p_file: "accountFile (s_account w_online) = Some ''a.session.json''"
    unfolding w_online_fields by code_simp
  have "fst (DeleteAuth (e_faults ?env) (s_account w_online) (s_store w_online)) = None"
    using p_file by (simp add: DeleteAuth_def test_env_def no_faults_def Let_def)
  then show ?thesis
    using logout_outcome [OF scripted_test _ w_online_fields(2) p_file run] run
    by (simp add: empty_reply_def)
qed

subsection \<open>Pairing\<close>

text \<open>C20: a failed pairing is never reported. When the phone rejects, cancels or times out a pairing,
  \<open>finishPairing\<close> emits nothing at all if the session's cancel function is the one of this pairing,
  which is what \<open>Login\<close> installs: it cancels its own context before it asks whether the context was
  cancelled. The error texts of \<open>classifyPairError\<close> after \<open>FinishGaiaPairing\<close> are unreachable
  there.\<close>

theorem pairing_failure_unreported:
  assumes "e_relay env client (FinishGaiaPairing ps) s = (r, s1)" and "rp_err r \<noteq> None"
    and "s_pairCancel s1 = Some ctx" and "s_trace s = []"
    and "run_state (finishPairing env ps ctx client auth lc) s = (u, t)"
  shows "emitted t = []"
proof -
  have "wp (finishPairing env ps ctx client auth lc) (\<lambda>_ t. emitted t = []) s"
    using assms(1-4)
    by (auto simp: finishPairing_def stop_pairing_def wp_simps ctx_done_def emitted_def)
  from wp_run [OF this assms(5)] show ?thesis .
qed

definition w_auth :: auth_data where
  "w_auth = \<lparr>au_ref = 1, au_data = ''auth''\<rparr>"

definition w_pairing :: session where
  "w_pairing = w_session\<lparr>s_client := Some 2, s_auth := Some w_auth, s_ps := Some 5, s_pairCancel := Some 3\<rparr>"

lemma pairing_failure_unreported_witness:
  "emitted (snd (run_state (finishPairing
      (test_env (\<lambda>q. empty_reply\<lparr>rp_err := Some [ErrIncorrectEmoji]\<rparr>)) 5 3 2 w_auth 0) w_pairing)) = []
   \<and> \<not> pairing_stale 5 2 w_auth 0 w_pairing"
proof -
  let ?env = "test_env (\<lambda>q. empty_reply\<lparr>rp_err := Some [ErrIncorrectEmoji]\<rparr>)"
  obtain u t where run: "run_state (finishPairing ?env 5 3 2 w_auth 0) w_pairing = (u, t)"
    by (rule prod.exhaust)
  have "e_relay ?env 2 (FinishGaiaPairing 5) w_pairing
      = (empty_reply\<lparr>rp_err := Some [ErrIncorrectEmoji]\<rparr>, w_pairing)" by (simp add: test_env_def)
  from pairing_failure_unreported [OF this _ _ _ run] run show ?thesis
    by (simp add: w_pairing_def NewSession_def pairing_stale_def)
qed

text \<open>Two logins can lose both pairings. \<open>Login\<close> does not look at the lifecycle after its relay
  calls: if a newer login has taken over while it waited in \<open>StartGaiaPairing\<close>, it still installs its
  own pairing. Then the newer login's completion, and its own, are both stale, and completing
  either does nothing but the staleness test.\<close>

lemma relogin_loses_pairing:
  assumes "decodeBundle bundle = Some cookies" and "cookies \<noteq> []"
    and "\<forall>k \<in> set requiredCookies. cookie cookies k \<noteq> []"
    and "\<And>c s. e_relay env c FetchConfig s = (empty_reply, s)"
    and "\<And>c s. e_relay env c StartGaiaPairing s = (empty_reply\<lparr>rp_ps := ps\<rparr>, takeover s)"
    and "\<And>s. s_lifecycle (takeover s) = newer"
    and "newer \<noteq> next_lifecycle (s_lifecycle s)" and "ps \<noteq> ps'"
    and "run_state (Login env bundle) s = (u, t)"
  shows "(s_ps t = Some ps)
    \<and> (s_lifecycle t = newer)
    \<and> (\<forall>client auth lc. pairing_stale ps' client auth lc t)
    \<and> (\<forall>client auth. pairing_stale ps client auth (next_lifecycle (s_lifecycle s)) t)"
proof (intro conjI)
  have missing: "filter (\<lambda>k. cookie cookies k = []) requiredCookies = []"
    using assms(3) by (simp add: filter_empty_conv)
  have ok: "rp_err empty_reply = None" "rp_err (empty_reply\<lparr>rp_ps := ps\<rparr>) = None"
    by (simp_all add: empty_reply_def)
  have start: "wp (start_pairing env client auth lc) (\<lambda>_ t. s_ps t = Some ps \<and> s_lifecycle t = newer) s'"
    for client auth lc s'
    using assms(6) by (simp add: start_pairing_def wp_simps assms(4,5) ok runEventLoop_def)
  have "wp (Login env bundle) (\<lambda>_ t. s_ps t = Some ps \<and> s_lifecycle t = newer) s"
    using assms(2) missing
    by (auto simp: Login_def assms(1) wp_bumpLifecycle wp_bind wp_prod intro!: wp_all start split: prod.split)
  from wp_run [OF this assms(9)]
  show ps: "s_ps t = Some ps" and lc: "s_lifecycle t = newer" by simp_all
  show "\<forall>client auth lc. pairing_stale ps' client auth lc t"
    using ps assms(8) by (simp add: pairing_stale_def)
  show "\<forall>client auth. pairing_stale ps client auth (next_lifecycle (s_lifecycle s)) t"
    using lc assms(7) by (simp add: pairing_stale_def)
qed

end
