(* ===== verification/JsonProps.thy ===== *)
theory JsonProps
  imports Json
begin

text \<open>
  What is written is read back. \<open>enc_json\<close> followed by \<open>parse_json\<close> gives the value the text was
  written from, with the malformed UTF-8 of its strings replaced: first for strings, where every
  escape has its decoding, then for the token list, then for the machine that puts the tokens
  together. From this follow the round trips of event lines, command lines and login bundles.
\<close>

definition to_utf8 :: "go_string \<Rightarrow> go_string" where
  "to_utf8 s = encode_runes (runes s)"

fun value_of :: "json \<Rightarrow> jvalue" where
  "value_of (JStr s) = V_str (to_utf8 s)"
| "value_of (JInt i) = V_num (format_int i)"
| "value_of (JBool b) = V_bool b"
| "value_of (JArr vs) = V_arr (map value_of vs)"
| "value_of (JObj ms) = V_obj (map (\<lambda>(k, v). (to_utf8 k, value_of v)) ms)"

fun comma_tokens :: "token list list \<Rightarrow> token list" where
  "comma_tokens [] = []"
| "comma_tokens [ts] = ts"
| "comma_tokens (ts # tss) = ts @ T_comma # comma_tokens tss"

fun tokens :: "jvalue \<Rightarrow> token list" where
  "tokens V_null = [T_null]"
| "tokens (V_bool b) = [T_bool b]"
| "tokens (V_num n) = [T_num n]"
| "tokens (V_str s) = [T_str s]"
| "tokens (V_arr vs) = T_open_bracket # comma_tokens (map tokens vs) @ [T_close_bracket]"
| "tokens (V_obj ms) =
     T_open_brace # comma_tokens (map (\<lambda>(k, v). T_str k # T_colon # tokens v) ms) @ [T_close_brace]"

fun nesting :: "jvalue \<Rightarrow> nat" where
  "nesting (V_arr vs) = Suc (foldr max (map nesting vs) 0)"
| "nesting (V_obj ms) = Suc (foldr max (map (\<lambda>(k, v). nesting v) ms) 0)"
| "nesting _ = 0"

subsection \<open>Strings are read back\<close>

lemma hex_value_digit: "hex_value (hex_digit n) = Some (n mod 16)"
proof -
  have "list_all (\<lambda>d. hex_value (hex_digit d) = Some d) [0..<16]" by code_simp
  then have "hex_value (hex_digit (n mod 16)) = Some (n mod 16)" by (simp add: list_all_iff)
  then show ?thesis by (simp add: hex_digit_def)
qed

lemma hex4_byte: "byte c < 0x80 \<Longrightarrow>
  hex4 (CHR ''0'' # CHR ''0'' # hex_digit (byte c div 16) # hex_digit (byte c) # s) = Some (byte c)"
proof -
  assume "byte c < 0x80"
  then have "byte c div 16 mod 16 = byte c div 16" by simp
  moreover have "hex_value (CHR ''0'') = Some 0" by (simp add: hex_value_def)
  ultimately show ?thesis by (simp add: hex_value_digit del: mod_less)
qed

lemma lex_escaped_ascii:
  assumes "byte c < 0x80"
  shows "lex_piece (escape_ascii c @ s) = Some ([c], s)"
proof -
  have lit: "lex_piece (c # s) = Some ([c], s)" if "0x20 \<le> byte c" "c \<noteq> CHR 0x5C"
    using that assms by (simp add: lex_piece_def)
  have esc: "lex_piece (CHR 0x5C # e # s) = Some ([c], s)" if "simple_escape e = Some c" "e \<noteq> CHR ''u''" for e
    using that by (simp add: lex_piece_def lex_escape_def)
  have hex: "lex_piece (CHR 0x5C # ''u00'' @ hex_digit (byte c div 16) # hex_digit (byte c) # s) = Some ([c], s)"
  proof -
    have "encode_rune (byte c) = [c]" using assms by (simp add: encode_rune_def encode_raw_def valid_rune_def)
    with hex4_byte [OF assms] assms show ?thesis by (simp add: lex_piece_def lex_escape_def)
  qed
  show ?thesis
  proof (cases "c \<in> {CHR 0x22, CHR 0x5C, CHR 0x08, CHR 0x0C, CHR 0x0A, CHR 0x0D, CHR 0x09}")
    case True
    then show ?thesis by (elim insertE emptyE) (simp_all add: escape_ascii_def lex_piece_def lex_escape_def simple_escape_def)
  next
    case False
    show ?thesis
    proof (cases "byte c < 0x20 \<or> c = CHR ''<'' \<or> c = CHR ''>'' \<or> c = CHR ''&''")
      case True
      with False hex show ?thesis by (simp add: escape_ascii_def)
    next
      case False2: False
      with False lit show ?thesis by (simp add: escape_ascii_def)
    qed
  qed
qed

text \<open>A well-formed rune is decoded the same whatever follows it.\<close>

lemma decode_rune_prefix:
  assumes "decode_rune s = (r, n)" and "\<not> (r = RuneError \<and> n = 1)" and "s \<noteq> []"
  shows "decode_rune (take n s @ u) = (r, n)"
proof -
  obtain c cs where s: "s = c # cs" using assms(3) by (cases s) auto
  show ?thesis
    using assms(1,2) unfolding s decode_rune.simps(2) Let_def
    by (auto split: if_splits list.splits simp: decode_rune.simps(2) Let_def)
qed

lemma take_rune:
  assumes "decode_rune s = (r, n)" and "\<not> (r = RuneError \<and> n = 1)" and "s \<noteq> []" and "\<not> byte (hd s) < 0x80"
  shows "lex_piece (take n s @ u) = Some (encode_rune r, u)"
proof -
  have n: "0 < n" "n \<le> length s" using decode_rune_size_pos [OF assms(3)] decode_rune_size_le [of s] assms(1) by simp_all
  then obtain c cs where c: "take n s = c # cs" "c = hd s" using assms(3) by (cases s; cases n) auto
  have "decode_rune (c # cs @ u) = (r, n)" using decode_rune_prefix [OF assms(1-3), of u] c(1) by simp
  moreover have "drop n (c # cs @ u) = u" using c(1) n(2) by (metis append_Cons append_eq_conv_conj length_take min.absorb2)
  moreover have "c \<noteq> CHR 0x5C" using assms(4) c(2) by auto
  ultimately show ?thesis using assms(4) c by (simp add: lex_piece_def)
qed

lemma lex_string_piece:
  assumes "lex_piece s = Some (p, u)" and "hd s \<noteq> CHR 0x22"
  shows "lex_string s = map_option (apfst (append p)) (lex_string u)"
  using assms by (subst lex_string.simps) simp

lemma hd_escape: "hd (escape_ascii c @ s) \<noteq> CHR 0x22"
  by (simp add: escape_ascii_def)

lemma lex_fffd: "lex_piece (CHR 0x5C # ''ufffd'' @ s) = Some (encode_rune RuneError, s)"
  by (simp add: lex_piece_def lex_escape_def hex_value_def RuneError_def)

lemma lex_u202: "r = 0x2028 \<or> r = 0x2029 \<Longrightarrow>
  lex_piece (CHR 0x5C # ''u202'' @ hex_digit r # s) = Some (encode_rune r, s)"
  by (auto simp: lex_piece_def lex_escape_def hex_value_def hex_digit_def)

lemma lex_escaped_string: "lex_string (json_escape t @ CHR 0x22 # s) = Some (to_utf8 t, s)"
proof (induction t rule: json_escape.induct)
  case (1 t)
  show ?case
  proof (cases t)
    case Nil
    then show ?thesis by (simp add: json_escape.simps lex_string.simps to_utf8_def)
  next
    case (Cons c cs)
    show ?thesis
    proof (cases "byte c < 0x80")
      case True
      have "encode_rune (byte c) = [c]" using True by (simp add: encode_rune_def encode_raw_def valid_rune_def)
      moreover have "lex_string (json_escape cs @ CHR 0x22 # s) = Some (to_utf8 cs, s)"
        by (rule "1.IH"(1) [OF Cons True])
      ultimately show ?thesis
        using lex_string_piece [OF lex_escaped_ascii [OF True] hd_escape] True Cons
        by (subst json_escape.simps) (simp add: to_utf8_def runes_ascii_Cons)
    next
      case False
      obtain r n where rn: "decode_rune t = (r, n)" by (rule prod.exhaust)
      note IH = "1.IH"(2-4) [OF Cons False rn [symmetric] refl]
      have goal: "lex_string (p @ json_escape (drop n t) @ CHR 0x22 # s) = Some (to_utf8 t, s)"
        if "lex_piece (p @ json_escape (drop n t) @ CHR 0x22 # s) = Some (encode_rune r, json_escape (drop n t) @ CHR 0x22 # s)"
          and "hd (p @ json_escape (drop n t) @ CHR 0x22 # s) \<noteq> CHR 0x22"
          and "lex_string (json_escape (drop n t) @ CHR 0x22 # s) = Some (to_utf8 (drop n t), s)" for p
        using lex_string_piece [OF that(1,2)] that(3) rn Cons
        by (simp add: to_utf8_def) (subst (2) runes.simps, simp)
      consider "r = RuneError \<and> n = 1" | "\<not> (r = RuneError \<and> n = 1)" "r = 0x2028 \<or> r = 0x2029"
        | "\<not> (r = RuneError \<and> n = 1)" "\<not> (r = 0x2028 \<or> r = 0x2029)" by blast
      then show ?thesis
      proof cases
        case 1
        then show ?thesis
          using goal [of "CHR 0x5C # ''ufffd''"] "1.IH"(2) [OF Cons False rn [symmetric] refl] lex_fffd False Cons rn
          by (subst json_escape.simps) simp
      next
        case 2
        then show ?thesis
          using goal [of "CHR 0x5C # ''u202'' @ [hex_digit r]"] IH lex_u202 False Cons rn
          by (subst json_escape.simps) auto
      next
        case 3
        have "hd (take n t @ u) \<noteq> CHR 0x22" for u
          using Cons False rn decode_rune_size_pos [of t] by (cases n) auto
        with 3 show ?thesis
          using goal [of "take n t"] IH take_rune [OF rn 3(1)] False Cons rn
          by (subst json_escape.simps) auto
      qed
    qed
  qed
qed

subsection \<open>Every written value is tokenised\<close>

lemma hd_format_nat_pos: "0 < n \<Longrightarrow> hd (format_nat n) \<noteq> CHR ''0''"
proof (induction n rule: format_nat.induct)
  case (1 n)
  show ?case
  proof (cases "n < 10")
    case True
    then have "format_nat n = [chr (48 + n)]" by (simp add: format_nat.simps)
    moreover have "byte (chr (48 + n)) \<noteq> byte CHR ''0''" using True "1.prems" by simp
    ultimately show ?thesis by (metis list.sel(1))
  next
    case False
    then have "hd (format_nat n) = hd (format_nat (n div 10))" by (subst format_nat.simps) simp
    with "1.IH" False show ?thesis by simp
  qed
qed

text \<open>What may follow a value.\<close>

definition value_end :: "bytes \<Rightarrow> bool" where
  "value_end s \<longleftrightarrow> s = [] \<or> hd s \<in> {CHR '','', CHR '']'', CHR 0x7D}"

lemma takeWhile_digits:
  assumes "list_all is_digit ds" and "value_end s"
  shows "takeWhile is_digit (ds @ s) = ds" and "dropWhile is_digit (ds @ s) = s"
proof -
  have "\<not> is_digit (hd s)" if "s \<noteq> []" using assms(2) that by (auto simp: value_end_def is_digit_def)
  then have "takeWhile is_digit s = []" "dropWhile is_digit s = s" by (cases s; simp)+
  with assms(1) show "takeWhile is_digit (ds @ s) = ds" "dropWhile is_digit (ds @ s) = s"
    by (simp_all add: list_all_iff takeWhile_append2 dropWhile_append2)
qed

lemma lex_number_end: "value_end s \<Longrightarrow> lex_frac s = Some ([], s) \<and> lex_exp s = Some ([], s)"
  by (auto simp: value_end_def lex_frac_def lex_exp_def)

lemma lex_int_nat:
  assumes "value_end s"
  shows "lex_int (format_nat n @ s) = Some (format_nat n, s)"
proof (cases "n = 0")
  case True
  then have "format_nat n = ''0''" by (simp add: format_nat.simps) code_simp
  then show ?thesis by (simp add: lex_int_def)
next
  case False
  obtain c cs where c: "format_nat n = c # cs" using format_nat_nonempty [of n] by (cases "format_nat n") auto
  have "c \<noteq> CHR ''0''" "is_digit c" using hd_format_nat_pos [of n] False c format_nat_digits [of n] by auto
  then show ?thesis
    using takeWhile_digits [OF format_nat_digits assms, of n] c by (simp add: lex_int_def lex_digits_def)
qed

lemma lex_number_int:
  assumes "value_end s"
  shows "lex_number (format_int i @ s) = Some (format_int i, s)"
proof (cases "i < 0")
  case True
  then show ?thesis
    using lex_int_nat [OF assms] lex_number_end [OF assms] by (simp add: lex_number_def format_int_def)
next
  case False
  obtain c cs where c: "format_nat (nat i) = c # cs" using format_nat_nonempty by (cases "format_nat (nat i)") auto
  then have "hd (format_nat (nat i) @ s) \<noteq> CHR ''-''" using hd_format_nat [OF c] by simp
  with False show ?thesis
    using lex_int_nat [OF assms, of "nat i"] lex_number_end [OF assms] by (simp add: lex_number_def format_int_def)
qed

lemma hd_format_int:
  obtains c cs where "format_int i = c # cs" and "is_digit c \<or> c = CHR ''-''"
proof (cases "i < 0")
  case False
  obtain c cs where c: "format_nat (nat i) = c # cs" using format_nat_nonempty by (cases "format_nat (nat i)") auto
  with False format_nat_digits [of "nat i"] show ?thesis by (intro that) (auto simp: format_int_def)
qed (simp add: format_int_def that)

lemma lex_token_int:
  assumes "value_end s"
  shows "lex_token (format_int i @ s) = Some (T_num (format_int i), s)"
proof -
  obtain c cs where c: "format_int i = c # cs" "is_digit c \<or> c = CHR ''-''" by (rule hd_format_int)
  then have "c \<notin> {CHR 0x7B, CHR 0x7D, CHR ''['', CHR '']'', CHR '':'', CHR '','', CHR 0x22, CHR ''t'', CHR ''f'', CHR ''n''}"
    by (auto simp: is_digit_def)
  with c(1) show ?thesis using lex_number_int [OF assms, of i] by (simp add: lex_token_def)
qed

lemma lex_Cons: "lex_token s = Some (t, rest) \<Longrightarrow> \<not> json_space (hd s) \<Longrightarrow> tokenize s = map_option (Cons t) (tokenize rest)"
  by (subst tokenize.simps) (auto simp: lex_token_def)

lemma lex_punctuation [simp]:
  "tokenize (CHR '','' # s) = map_option (Cons T_comma) (tokenize s)"
  "tokenize (CHR '':'' # s) = map_option (Cons T_colon) (tokenize s)"
  "tokenize (CHR ''['' # s) = map_option (Cons T_open_bracket) (tokenize s)"
  "tokenize (CHR '']'' # s) = map_option (Cons T_close_bracket) (tokenize s)"
  "tokenize (CHR 0x7B # s) = map_option (Cons T_open_brace) (tokenize s)"
  "tokenize (CHR 0x7D # s) = map_option (Cons T_close_brace) (tokenize s)"
  by (rule lex_Cons, simp add: lex_token_def, simp add: json_space_def)+

lemma lex_json_string: "tokenize (json_string t @ s) = map_option (Cons (T_str (to_utf8 t))) (tokenize s)"
  using lex_escaped_string [of t s]
  by (intro lex_Cons) (simp_all add: json_string_def lex_token_def json_space_def)

text \<open>The tokens \<open>ts\<close> before those of the rest.\<close>

definition put_before :: "token list \<Rightarrow> token list option \<Rightarrow> token list option" where
  "put_before ts x = map_option (append ts) x"

lemma put_before_simps [simp]:
  "put_before [] x = x"
  "put_before (t # ts) x = map_option (Cons t) (put_before ts x)"
  "put_before (ts @ us) x = put_before ts (put_before us x)"
  by (cases x; simp add: put_before_def)+

lemma lex_comma_sep:
  assumes "\<And>x s. x \<in> set xs \<Longrightarrow> value_end s \<Longrightarrow> tokenize (f x @ s) = put_before (g x) (tokenize s)"
    and "value_end s"
  shows "tokenize (comma_sep (map f xs) @ s) = put_before (comma_tokens (map g xs)) (tokenize s)"
  using assms
proof (induction xs rule: induct_list012)
  case (3 x y zs)
  have "tokenize (f x @ CHR '','' # comma_sep (map f (y # zs)) @ s)
    = put_before (g x) (tokenize (CHR '','' # comma_sep (map f (y # zs)) @ s))"
    by (rule "3.prems"(1)) (simp_all add: value_end_def)
  with "3.IH"(2) "3.prems" show ?case by simp
qed simp_all

lemma lex_enc_json: "value_end s \<Longrightarrow> tokenize (enc_json j @ s) = put_before (tokens (value_of j)) (tokenize s)"
proof (induction j arbitrary: s)
  case (JStr t)
  then show ?case by (simp add: lex_json_string)
next
  case (JInt i)
  obtain c cs where c: "format_int i = c # cs" "is_digit c \<or> c = CHR ''-''" by (rule hd_format_int)
  have "tokenize (format_int i @ s) = map_option (Cons (T_num (format_int i))) (tokenize s)"
    by (rule lex_Cons [OF lex_token_int [OF JInt]]) (use c in \<open>auto simp: json_space_def is_digit_def\<close>)
  then show ?case by simp
next
  case (JBool b)
  then show ?case
    by (cases b) (simp_all add: lex_Cons [of _ "T_bool _"] lex_token_def lex_word_def json_space_def)
next
  case (JArr vs)
  have "tokenize (comma_sep (map enc_json vs) @ CHR '']'' # s)
    = put_before (comma_tokens (map (\<lambda>v. tokens (value_of v)) vs)) (tokenize (CHR '']'' # s))"
    by (rule lex_comma_sep) (use JArr.IH in \<open>simp_all add: value_end_def\<close>)
  then show ?case by (simp add: o_def)
next
  case (JObj ms)
  have item: "tokenize ((case x of (k, v) \<Rightarrow> json_string k @ CHR '':'' # enc_json v) @ u)
      = put_before (case x of (k, v) \<Rightarrow> T_str (to_utf8 k) # T_colon # tokens (value_of v)) (tokenize u)"
    if x: "x \<in> set ms" and u: "value_end u" for x u
  proof -
    obtain k v where kv: "x = (k, v)" by (rule prod.exhaust)
    have "tokenize (enc_json v @ u) = put_before (tokens (value_of v)) (tokenize u)"
      by (rule JObj.IH [OF x _ u]) (simp add: kv)
    then show ?thesis by (simp add: kv lex_json_string)
  qed
  have "tokenize (comma_sep (map (\<lambda>(k, v). json_string k @ CHR '':'' # enc_json v) ms) @ CHR 0x7D # s)
    = put_before (comma_tokens (map (\<lambda>(k, v). T_str (to_utf8 k) # T_colon # tokens (value_of v)) ms))
        (tokenize (CHR 0x7D # s))"
    by (rule lex_comma_sep [OF item]) (simp_all add: value_end_def)
  then show ?case by (simp add: o_def split_def)
qed

subsection \<open>The machine puts the tokens together\<close>

lemma scan_run_append: "scan_run (ts @ us) st = Option.bind (scan_run ts st) (scan_run us)"
  by (induction ts arbitrary: st) (auto split: bind_splits)

lemma scan_begin: "scan_step t (Begin_value, fs) = begin_value t fs"
  by (cases t) simp_all

lemma scan_values:
  assumes "\<And>v us fs. v \<in> set vs \<Longrightarrow> length fs + nesting v \<le> maxNestingDepth \<Longrightarrow>
      scan_run (tokens v @ us) (Begin_value, fs) = scan_run us (End_value v, fs)"
    and "\<forall>v \<in> set vs. Suc (length fs) + nesting v \<le> maxNestingDepth" and "vs \<noteq> []"
  shows "scan_run (comma_tokens (map tokens vs) @ T_close_bracket # us) (Begin_value, Array_value ws # fs)
    = scan_run us (End_value (V_arr (ws @ vs)), fs)"
  using assms
proof (induction vs arbitrary: ws rule: induct_list012)
  case (2 v)
  show ?case using "2.prems"(1) [of v "Array_value ws # fs"] "2.prems"(2) by simp
next
  case (3 v w vs)
  have "scan_run (comma_tokens (map tokens (w # vs)) @ T_close_bracket # us) (Begin_value, Array_value (ws @ [v]) # fs)
    = scan_run us (End_value (V_arr ((ws @ [v]) @ w # vs)), fs)"
    by (rule "3.IH"(2)) (use "3.prems" in auto)
  then show ?case using "3.prems"(1) [of v "Array_value ws # fs"] "3.prems"(2) by simp
qed simp

lemma scan_members:
  assumes "\<And>k v us fs. (k, v) \<in> set ms \<Longrightarrow> length fs + nesting v \<le> maxNestingDepth \<Longrightarrow>
      scan_run (tokens v @ us) (Begin_value, fs) = scan_run us (End_value v, fs)"
    and "\<forall>(k, v) \<in> set ms. Suc (length fs) + nesting v \<le> maxNestingDepth" and "ms \<noteq> []"
  shows "scan_run (comma_tokens (map (\<lambda>(k, v). T_str k # T_colon # tokens v) ms) @ T_close_brace # us)
      (Begin_string, Object_key ns # fs)
    = scan_run us (End_value (V_obj (ns @ ms)), fs)"
  using assms
proof (induction ms arbitrary: ns rule: induct_list012)
  case (2 m)
  obtain k v where m: "m = (k, v)" by (rule prod.exhaust)
  show ?case using "2.prems"(1) [of k v "Object_value ns k # fs"] "2.prems"(2) by (simp add: m begin_string_def)
next
  case (3 m n ms)
  obtain k v where m: "m = (k, v)" by (rule prod.exhaust)
  have "scan_run (comma_tokens (map (\<lambda>(k, v). T_str k # T_colon # tokens v) (n # ms)) @ T_close_brace # us)
      (Begin_string, Object_key (ns @ [m]) # fs)
    = scan_run us (End_value (V_obj ((ns @ [m]) @ n # ms)), fs)"
    by (rule "3.IH"(2)) (use "3.prems" in auto)
  then show ?case using "3.prems"(1) [of k v "Object_value ns k # fs"] "3.prems"(2) by (simp add: m begin_string_def)
qed simp

lemma scan_first:
  "t \<noteq> T_close_bracket \<Longrightarrow> scan_step t (Begin_value_or_empty, fs) = scan_step t (Begin_value, fs)"
  "t \<noteq> T_close_brace \<Longrightarrow> scan_step t (Begin_string_or_empty, fs) = scan_step t (Begin_string, fs)"
  by (cases t; simp)+

lemma hd_tokens: "\<exists>t ts. tokens v = t # ts \<and> t \<noteq> T_close_bracket"
  by (cases v) auto

lemma hd_values: "vs \<noteq> [] \<Longrightarrow> \<exists>t ts. comma_tokens (map tokens vs) = t # ts \<and> t \<noteq> T_close_bracket"
  using hd_tokens [of "hd vs"] by (cases vs; cases "tl vs") auto

lemma hd_members: "ms \<noteq> [] \<Longrightarrow>
    \<exists>k ts. comma_tokens (map (\<lambda>(k, v). T_str k # T_colon # tokens v) ms) = T_str k # ts"
  by (cases ms; cases "tl ms") auto

lemma nesting_bound: "x \<in> set xs \<Longrightarrow> f x \<le> foldr max (map f xs) (0 :: nat)"
  by (induction xs) auto

lemma scan_value:
  "length fs + nesting v \<le> maxNestingDepth \<Longrightarrow>
    scan_run (tokens v @ us) (Begin_value, fs) = scan_run us (End_value v, fs)"
proof (induction v arbitrary: fs us)
  case (V_arr vs)
  have room: "length fs < maxNestingDepth" using V_arr.prems by simp
  show ?case
  proof (cases "vs = []")
    case True
    with room show ?thesis by (simp add: begin_value_def push_frame_def)
  next
    case False
    have fit: "\<forall>v \<in> set vs. Suc (length fs) + nesting v \<le> maxNestingDepth"
      using V_arr.prems nesting_bound [of _ vs nesting] by fastforce
    from hd_values [OF False] obtain t ts
      where t: "comma_tokens (map tokens vs) = t # ts" "t \<noteq> T_close_bracket" by blast
    from scan_values [where us = us and ws = "[]", OF V_arr.IH fit False] room t show ?thesis
      by (simp add: begin_value_def push_frame_def scan_first)
  qed
next
  case (V_obj ms)
  have room: "length fs < maxNestingDepth" using V_obj.prems by simp
  show ?case
  proof (cases "ms = []")
    case True
    with room show ?thesis by (simp add: begin_value_def push_frame_def)
  next
    case False
    have "nesting v \<le> foldr max (map (\<lambda>(k, v). nesting v) ms) 0" if "(k, v) \<in> set ms" for k v
      using nesting_bound [OF that, of "\<lambda>(k, v). nesting v"] by simp
    then have fit: "\<forall>(k, v) \<in> set ms. Suc (length fs) + nesting v \<le> maxNestingDepth"
      using V_obj.prems by fastforce
    have IH: "scan_run (tokens v @ us) (Begin_value, fs) = scan_run us (End_value v, fs)"
      if "(k, v) \<in> set ms" "length fs + nesting v \<le> maxNestingDepth" for k v us fs
      using V_obj.IH [OF that(1) _ that(2)] by simp
    from hd_members [OF False] obtain k ts
      where t: "comma_tokens (map (\<lambda>(k, v). T_str k # T_colon # tokens v) ms) = T_str k # ts" by blast
    from scan_members [where us = us and ns = "[]", OF IH fit False] room t show ?thesis
      by (simp add: begin_value_def push_frame_def scan_first)
  qed
qed (simp_all add: begin_value_def)

lemma parse_enc_json:
  assumes "nesting (value_of j) \<le> maxNestingDepth"
  shows "parse_json (enc_json j) = Some (value_of j)"
proof -
  have "tokenize (enc_json j) = Some (tokens (value_of j))"
    using lex_enc_json [of "[]" j] by (simp add: value_end_def tokenize.simps [of "[]"] put_before_def)
  with scan_value [of "[]" "value_of j" "[]"] assms show ?thesis by (simp add: parse_json_def)
qed


subsection \<open>A command is read back\<close>

text \<open>The members \<open>json.Marshal\<close> writes of a command, by the tags of the struct.\<close>

definition opt_uint :: "go_string \<Rightarrow> 'w :: len word \<Rightarrow> (go_string \<times> json) list" where
  "opt_uint k w = (if w \<noteq> 0 then [(k, JInt (uint w))] else [])"

definition command_members :: "command \<Rightarrow> (go_string \<times> json) list" where
  "command_members c =
     [(''type'', JStr (cmd_Type c))]
     @ opt_str ''account'' (cmd_Account c)
     @ opt_str ''bundle_b64'' (cmd_BundleB64 c)
     @ opt_str ''conversation'' (cmd_Conversation c)
     @ opt_str ''message'' (cmd_Message c)
     @ opt_str ''text'' (cmd_Text c)
     @ opt_str ''reply_to'' (cmd_ReplyTo c)
     @ opt_str ''caption'' (cmd_Caption c)
     @ opt_str ''path'' (cmd_Path c)
     @ opt_str ''emoji'' (cmd_Emoji c)
     @ opt_bool ''add'' (cmd_Add c)
     @ opt_arr ''addresses'' (map JStr (cmd_Addresses c))
     @ opt_uint ''limit'' (cmd_Limit c)
     @ opt_str ''cursor'' (cmd_Cursor c)
     @ opt_str ''request_id'' (cmd_RequestID c)
     @ opt_uint ''fetch_id'' (cmd_FetchID c)"

definition encodeCommand :: "command \<Rightarrow> bytes" where
  "encodeCommand c = enc_json (JObj (command_members c))"

definition valid_command :: "command \<Rightarrow> bool" where
  "valid_command c \<longleftrightarrow>
     list_all valid_utf8 [cmd_Type c, cmd_Account c, cmd_BundleB64 c, cmd_Conversation c, cmd_Message c,
       cmd_Text c, cmd_ReplyTo c, cmd_Caption c, cmd_Path c, cmd_Emoji c, cmd_Cursor c, cmd_RequestID c]
     \<and> list_all valid_utf8 (cmd_Addresses c)"

text \<open>The members as the parser returns them.\<close>

abbreviation read_members :: "(go_string \<times> json) list \<Rightarrow> (go_string \<times> jvalue) list" where
  "read_members ms \<equiv> map (\<lambda>(k, v). (to_utf8 k, value_of v)) ms"

lemma to_utf8_id: "valid_utf8 s \<Longrightarrow> to_utf8 s = s"
  by (simp add: to_utf8_def valid_utf8_def)

lemma valid_utf8_ascii: "list_all (\<lambda>c. byte c < 0x80) s \<Longrightarrow> valid_utf8 s"
proof (induction s)
  case (Cons c s)
  then have "encode_rune (byte c) = [c]" by (simp add: encode_rune_def encode_raw_def valid_rune_def)
  with Cons show ?case by (simp add: valid_utf8_def runes_ascii_Cons)
qed simp

lemma store_members_append:
  "store_members fds (ms @ ns) r = Option.bind (store_members fds ms r) (store_members fds ns)"
  by (induction ms arbitrary: r) (auto split: option.splits bind_splits)

lemma store_one:
  assumes "find_field fds k = Some f" and "to_utf8 k = k"
  shows "store_members fds (read_members [(k, v)]) r = f (value_of v) r"
  using assms by (cases "f (value_of v) r") simp_all

lemma store_opt_str:
  assumes "find_field fds k = Some (store_string upd)" and "to_utf8 k = k" and "valid_utf8 v" and "upd [] r = r"
  shows "store_members fds (read_members (opt_str k v)) r = Some (upd v r)"
  using assms by (simp add: opt_str_def store_string_def to_utf8_id)

lemma store_opt_bool:
  assumes "find_field fds k = Some (store_bool upd)" and "to_utf8 k = k" and "upd False r = r"
  shows "store_members fds (read_members (opt_bool k v)) r = Some (upd v r)"
  using assms by (simp add: opt_bool_def store_bool_def)

lemma store_opt_uint:
  fixes v :: "'w :: len word"
  assumes "find_field fds k = Some (store_uint upd)" and "to_utf8 k = k" and "upd 0 r = r"
  shows "store_members fds (read_members (opt_uint k v)) r = Some (upd v r)"
proof -
  have "parse_nat (format_int (uint v)) = Some (unat v)" "unat v < 2 ^ LENGTH('w)"
    using unsigned_less [of v] by (simp_all add: format_int_def)
  with assms show ?thesis by (simp add: opt_uint_def store_uint_def)
qed

lemma store_items_fresh:
  assumes "list_all valid_utf8 as" and "length b = i"
  shows "store_items (map (value_of \<circ> JStr) as) i b = Some (b @ as)"
  using assms
proof (induction as arbitrary: i b)
  case (Cons a as)
  have "(b @ [''''])[i := a] = b @ [a]" using Cons.prems(2) [symmetric] by simp
  with Cons.prems Cons.IH [of "b @ [a]" "Suc i"] show ?case
    by (simp add: store_string_def to_utf8_id Let_def)
qed simp

lemma store_opt_addresses:
  assumes "list_all valid_utf8 as"
  shows "store_members command_fields (read_members (opt_arr ''addresses'' (map JStr as))) (c, [], 0)
    = Some (c, as, length as)"
  using store_items_fresh [OF assms, of "[]" 0]
  by (simp add: opt_arr_def find_field_def command_fields_def store_slice_def to_utf8_id valid_utf8_ascii)

lemma find_command_field:
  "find_field command_fields ''type'' = Some (store_string (\<lambda>s. apfst (cmd_Type_update (\<lambda>_. s))))"
  "find_field command_fields ''account'' = Some (store_string (\<lambda>s. apfst (cmd_Account_update (\<lambda>_. s))))"
  "find_field command_fields ''bundle_b64'' = Some (store_string (\<lambda>s. apfst (cmd_BundleB64_update (\<lambda>_. s))))"
  "find_field command_fields ''conversation'' = Some (store_string (\<lambda>s. apfst (cmd_Conversation_update (\<lambda>_. s))))"
  "find_field command_fields ''message'' = Some (store_string (\<lambda>s. apfst (cmd_Message_update (\<lambda>_. s))))"
  "find_field command_fields ''text'' = Some (store_string (\<lambda>s. apfst (cmd_Text_update (\<lambda>_. s))))"
  "find_field command_fields ''reply_to'' = Some (store_string (\<lambda>s. apfst (cmd_ReplyTo_update (\<lambda>_. s))))"
  "find_field command_fields ''caption'' = Some (store_string (\<lambda>s. apfst (cmd_Caption_update (\<lambda>_. s))))"
  "find_field command_fields ''path'' = Some (store_string (\<lambda>s. apfst (cmd_Path_update (\<lambda>_. s))))"
  "find_field command_fields ''emoji'' = Some (store_string (\<lambda>s. apfst (cmd_Emoji_update (\<lambda>_. s))))"
  "find_field command_fields ''add'' = Some (store_bool (\<lambda>b. apfst (cmd_Add_update (\<lambda>_. b))))"
  "find_field command_fields ''limit'' = Some (store_uint (\<lambda>w. apfst (cmd_Limit_update (\<lambda>_. w))))"
  "find_field command_fields ''cursor'' = Some (store_string (\<lambda>s. apfst (cmd_Cursor_update (\<lambda>_. s))))"
  "find_field command_fields ''request_id'' = Some (store_string (\<lambda>s. apfst (cmd_RequestID_update (\<lambda>_. s))))"
  "find_field command_fields ''fetch_id'' = Some (store_uint (\<lambda>w. apfst (cmd_FetchID_update (\<lambda>_. w))))"
  by (simp_all add: find_field_def command_fields_def)

lemma nesting_members:
  assumes "list_all (\<lambda>(k, v). nesting (value_of v) \<le> n) ms"
  shows "nesting (value_of (JObj ms)) \<le> Suc n"
proof -
  have "foldr max (map (\<lambda>(k, v). nesting v) (read_members ms)) 0 \<le> n"
    using assms by (induction ms) (auto simp: split_def)
  then show ?thesis by simp
qed

lemma nesting_arr:
  assumes "list_all (\<lambda>v. nesting (value_of v) \<le> n) vs"
  shows "nesting (value_of (JArr vs)) \<le> Suc n"
proof -
  have "foldr max (map nesting (map value_of vs)) 0 \<le> n"
    using assms by (induction vs) auto
  then show ?thesis by simp
qed

lemma list_all_opt:
  "P (k, JStr v) \<Longrightarrow> list_all P (opt_str k v)"
  "P (k, JBool True) \<Longrightarrow> list_all P (opt_bool k b)"
  "P (k, JArr vs) \<Longrightarrow> list_all P (opt_arr k vs)"
  "(\<And>i. P (k, JInt i)) \<Longrightarrow> list_all P (opt_ptr k x)"
  "(\<And>i. P (k, JInt i)) \<Longrightarrow> list_all P (opt_uint k w)"
  "(\<And>i. P (k, JInt i)) \<Longrightarrow> list_all P (opt_u64 k u)"
  by (simp_all add: opt_defs opt_uint_def split: option.split)

lemma nesting_command_members: "list_all (\<lambda>(k, v). nesting (value_of v) \<le> Suc 0) (command_members c)"
proof -
  have "nesting (value_of (JArr (map JStr (cmd_Addresses c)))) \<le> Suc 0"
    by (rule nesting_arr) (simp add: list_all_iff)
  then show ?thesis
    unfolding command_members_def list_all_append
    by (intro conjI list_all_opt) simp_all
qed

lemma store_command:
  assumes "valid_command c"
  shows "store_members command_fields (read_members (command_members c)) (zero_command, [], 0)
      = Some (c\<lparr>cmd_Addresses := []\<rparr>, cmd_Addresses c, length (cmd_Addresses c))"
proof -
  have ok: "valid_utf8 (cmd_Type c)" "valid_utf8 (cmd_Account c)" "valid_utf8 (cmd_BundleB64 c)"
    "valid_utf8 (cmd_Conversation c)" "valid_utf8 (cmd_Message c)" "valid_utf8 (cmd_Text c)"
    "valid_utf8 (cmd_ReplyTo c)" "valid_utf8 (cmd_Caption c)" "valid_utf8 (cmd_Path c)"
    "valid_utf8 (cmd_Emoji c)" "valid_utf8 (cmd_Cursor c)" "valid_utf8 (cmd_RequestID c)"
    "list_all valid_utf8 (cmd_Addresses c)"
    using assms by (simp_all add: valid_command_def)
  have ty: "store_members command_fields (read_members [(''type'', JStr (cmd_Type c))]) r
      = Some (apfst (cmd_Type_update (\<lambda>_. cmd_Type c)) r)" for r
    using ok(1) by (simp add: find_command_field store_string_def to_utf8_id valid_utf8_ascii)
  show ?thesis
    unfolding command_members_def map_append store_members_append zero_command_def ty
    by (simp add: store_opt_str find_command_field to_utf8_id valid_utf8_ascii ok store_opt_bool store_opt_uint
        store_opt_addresses del: list.map(2))
qed

text \<open>A member the struct has no field for is skipped.\<close>

lemma store_unknown:
  "list_all (\<lambda>(k, v). find_field fds (to_utf8 k) = None) ms \<Longrightarrow> store_members fds (read_members ms) r = Some r"
  by (induction ms) auto

lemma decode_members:
  assumes "valid_command c"
    and "list_all (\<lambda>(k, v). find_field command_fields (to_utf8 k) = None) (pre @ post)"
    and "list_all (\<lambda>(k, v). nesting (value_of v) < maxNestingDepth) (pre @ post)"
  shows "decodeCommand (enc_json (JObj (pre @ command_members c @ post))) = Some c"
proof -
  let ?fits = "\<lambda>(k :: go_string, v). nesting (value_of v) \<le> maxNestingDepth - 1"
  have "list_all ?fits (pre @ post)"
    by (rule list.pred_mono_strong [OF assms(3)]) auto
  moreover have "list_all ?fits (command_members c)"
    by (rule list.pred_mono_strong [OF nesting_command_members]) (auto simp: maxNestingDepth_def)
  ultimately have "list_all ?fits (pre @ command_members c @ post)" by simp
  from nesting_members [OF this] have "nesting (value_of (JObj (pre @ command_members c @ post))) \<le> maxNestingDepth"
    by (simp add: maxNestingDepth_def del: nesting.simps)
  note parsed = parse_enc_json [OF this]
  show ?thesis
    unfolding decodeCommand_def parsed
    using store_command [OF assms(1)] store_unknown [of command_fields] assms(2)
    by (simp add: store_struct_def store_members_append)
qed

lemma decode_encode_command: "valid_command c \<Longrightarrow> decodeCommand (encodeCommand c) = Some c"
  using decode_members [of c "[]" "[]"] by (simp add: encodeCommand_def)

text \<open>C19: a command line is read back as the command it was written from. Whatever the fields of the
  command, as long as their texts are valid UTF-8, decoding the JSON object of its non-zero fields under
  the names of the struct tags gives the command back, also when members with other names, of any value
  within the nesting bound, come before and after them: a newer daemon can add fields.\<close>

theorem command_roundtrip:
  assumes "valid_command c"
    and "list_all (\<lambda>(k, v). find_field command_fields (to_utf8 k) = None) (pre @ post)"
    and "list_all (\<lambda>(k, v). nesting (value_of v) < maxNestingDepth) (pre @ post)"
  shows "decodeCommand (enc_json (JObj (pre @ command_members c @ post))) = Some c"
  by (rule decode_members [OF assms])

definition w_fetch :: command where
  "w_fetch = zero_command\<lparr>cmd_Type := ''fetch_history'', cmd_Account := ''a'', cmd_Conversation := ''t'',
     cmd_Addresses := [''x'', ''y''], cmd_Limit := 50, cmd_FetchID := 7\<rparr>"

lemma command_roundtrip_witness:
  "decodeCommand (enc_json (JObj ([(''x'', JArr [JObj []])] @ command_members w_fetch @ []))) = Some w_fetch"
proof (rule command_roundtrip)
  show "valid_command w_fetch" by (simp add: valid_command_def w_fetch_def zero_command_def valid_utf8_ascii)
  have "find_field command_fields ''x'' = None" by code_simp
  then show "list_all (\<lambda>(k, v). find_field command_fields (to_utf8 k) = None) ([(''x'', JArr [JObj []])] @ [])"
    by (simp add: to_utf8_id valid_utf8_ascii)
qed (simp add: maxNestingDepth_def)

subsection \<open>An event line is read back\<close>

lemma nesting_participant: "nesting (value_of (json_participant p)) \<le> Suc 0"
  unfolding json_participant_def
  by (rule nesting_members) (simp add: list_all_opt)

lemma nesting_attachment: "nesting (value_of (json_attachment a)) \<le> Suc 0"
  unfolding json_attachment_def
  by (rule nesting_members) (simp add: list_all_opt)

lemma nesting_strings: "nesting (value_of (JArr (map JStr ss))) \<le> Suc 0"
  by (rule nesting_arr) (simp add: list_all_iff)

lemma nesting_reaction: "nesting (value_of (json_reaction r)) \<le> 2"
proof -
  have "list_all (\<lambda>(k, v). nesting (value_of v) \<le> Suc 0)
      ([(''emoji'', JStr (r_Emoji r))] @ opt_arr ''participant_ids'' (map JStr (r_ParticipantIDs r)))"
    unfolding list_all_append by (intro conjI list_all_opt) (use nesting_strings in simp_all)
  from nesting_members [OF this] show ?thesis by (simp only: json_reaction_def numeral_2_eq_2)
qed

lemma nesting_conversation: "nesting (value_of (json_conversation c)) \<le> 3"
proof -
  have "nesting (value_of (JArr (map json_participant ps))) \<le> 2" for ps
    unfolding numeral_2_eq_2 by (rule nesting_arr) (simp add: list_all_iff nesting_participant del: One_nat_def)
  moreover have "nesting (value_of (JArr (map JStr ss))) \<le> 2" for ss
    using nesting_strings [of ss] by linarith
  ultimately have "list_all (\<lambda>(k, v). nesting (value_of v) \<le> 2)
     ([(''local_id'', JStr (c_LocalID c)), (''kind'', JStr (c_Kind c)),
       (''transport'', JStr (c_Transport c))]
      @ opt_str ''title'' (c_Title c)
      @ opt_arr ''participants'' (map json_participant (c_Participants c))
      @ opt_str ''latest_message'' (c_LatestMessage c)
      @ (if c_LastActivityAt c \<noteq> 0 then [(''last_activity_at'', JInt (c_LastActivityAt c))] else [])
      @ opt_ptr ''unread_count'' (map_option int (c_UnreadCount c))
      @ opt_str ''cursor'' (c_Cursor c)
      @ opt_arr ''capabilities'' (map JStr (c_Capabilities c)))"
    unfolding list_all_append
    by (intro conjI list_all_opt) (simp_all del: value_of.simps(4,5) nesting.simps(1,2))
  from nesting_members [OF this] show ?thesis by (simp only: json_conversation_def numeral_3_eq_3 numeral_2_eq_2)
qed

lemma nesting_message: "nesting (value_of (json_message m)) \<le> 4"
proof -
  have "nesting (value_of (JArr (map json_attachment as))) \<le> 3" for as
    using nesting_arr [of 1 "map json_attachment as"] nesting_attachment by (simp add: list_all_iff)
  moreover have "nesting (value_of (JArr (map json_reaction rs))) \<le> 3" for rs
    using nesting_arr [of 2 "map json_reaction rs"] nesting_reaction by (simp add: list_all_iff)
  ultimately have "list_all (\<lambda>(k, v). nesting (value_of v) \<le> 3)
     ([(''local_id'', JStr (m_LocalID m)), (''sender'', JStr (m_Sender m))]
      @ opt_str ''transport'' (m_Transport m)
      @ opt_ptr ''sent_at'' (m_SentAt m)
      @ opt_str ''text'' (m_Text m)
      @ opt_arr ''attachments'' (map json_attachment (m_Attachments m))
      @ opt_str ''reply_to'' (m_ReplyTo m)
      @ opt_arr ''reactions'' (map json_reaction (m_Reactions m))
      @ opt_bool ''deleted'' (m_Deleted m))"
    unfolding list_all_append
    by (intro conjI list_all_opt) (simp_all del: value_of.simps(4,5) nesting.simps(1,2))
  from nesting_members [OF this] show ?thesis by (simp only: json_message_def)
qed

lemma nesting_event: "list_all (\<lambda>(k, v). nesting (value_of v) \<le> 5) (event_members e)"
proof -
  have c: "nesting (value_of (JArr (map json_conversation cs))) \<le> 5" for cs
    using nesting_arr [of 3 "map json_conversation cs"] nesting_conversation by (simp add: list_all_iff)
  have m: "nesting (value_of (JArr (map json_message ms))) \<le> 5" for ms
    using nesting_arr [of 4 "map json_message ms"] nesting_message by (simp add: list_all_iff)
  have s: "nesting (value_of (JArr (map JStr ss))) \<le> 5" for ss
    using nesting_strings [of ss] by linarith
  have n: "nesting (value_of (JInt i)) \<le> 5" "nesting (value_of (JStr t)) \<le> 5" "nesting (value_of (JBool b)) \<le> 5"
    for i t b by simp_all
  show ?thesis
    unfolding event_members_def
    by (simp add: list_all_opt c m s n del: value_of.simps nesting.simps)
qed

text \<open>What the marshaller writes for an event parses to the object with the event's members under sorted
  keys, each string with its malformed UTF-8 replaced, each integer as its decimal literal.\<close>

lemma event_line_parses:
  "parse_json (marshal_event e) = Some (V_obj (read_members (sort_key fst (event_members e))))"
proof -
  have "list_all (\<lambda>(k, v). nesting (value_of v) \<le> 5) (sort_key fst (event_members e))"
    using nesting_event [of e] by (simp add: list_all_iff)
  from nesting_members [OF this] have "nesting (value_of (JObj (sort_key fst (event_members e)))) \<le> maxNestingDepth"
    by (simp add: maxNestingDepth_def del: nesting.simps)
  from parse_enc_json [OF this] show ?thesis by (simp add: marshal_event_def)
qed

subsection \<open>A login bundle is read back\<close>

definition encodeBundle :: "cookies \<Rightarrow> bytes" where
  "encodeBundle cs = enc_json (JObj [(''cookies'', JObj (map (\<lambda>(k, v). (k, JStr v)) cs))])"

lemma store_entries_fresh:
  assumes "distinct (map fst (m @ cs))" and "list_all (\<lambda>(k, v). valid_utf8 k \<and> valid_utf8 v) cs"
  shows "store_entries (read_members (map (\<lambda>(k, v). (k, JStr v)) cs)) m = Some (m @ cs)"
  using assms
proof (induction cs arbitrary: m)
  case (Cons x cs)
  obtain k v where x: "x = (k, v)" by (rule prod.exhaust)
  have "k \<notin> fst ` set m" using Cons.prems(1) x by auto
  then have "AList.update k v m = m @ [(k, v)]" by (induction m) auto
  with Cons.prems Cons.IH [of "m @ [(k, v)]"] x show ?case
    by (simp add: store_string_def to_utf8_id)
qed simp

lemma decode_encode_bundle:
  assumes "distinct (map fst cs)" and "list_all (\<lambda>(k, v). valid_utf8 k \<and> valid_utf8 v) cs"
  shows "decodeBundle (encodeBundle cs) = Some cs"
proof -
  have "nesting (value_of (JObj (map (\<lambda>(k, v). (k, JStr v)) cs))) \<le> Suc 0"
    by (rule nesting_members) (auto simp: list_all_iff)
  then have "nesting (value_of (JObj [(''cookies'', JObj (map (\<lambda>(k, v). (k, JStr v)) cs))])) \<le> maxNestingDepth"
    using nesting_members [of 1 "[(''cookies'', JObj (map (\<lambda>(k, v). (k, JStr v)) cs))]"]
    by (simp add: maxNestingDepth_def del: nesting.simps)
  from parse_enc_json [OF this] store_entries_fresh [of "[]" cs] assms show ?thesis
    by (simp add: decodeBundle_def encodeBundle_def store_struct_def bundle_fields_def find_field_def to_utf8_id
        valid_utf8_ascii)
qed

end
