(* ===== verification/Connection.thy ===== *)
theory Connection
  imports Requests JsonProps
begin

text \<open>Connecting and reconnecting: a concrete session that loses a pairing to a concurrent re-login, the
  fatal branch of the reconnect loop, and the schedule of its backoff.\<close>

subsection \<open>The lost pairing on a concrete session\<close>

definition w_takeover :: "session \<Rightarrow> session" where
  "w_takeover s = s\<lparr>s_lifecycle := 2, s_client := Some 20, s_auth := Some w_auth, s_ps := Some 9\<rparr>"

definition w_relogin_env :: env where
  "w_relogin_env = (test_env (\<lambda>q. empty_reply))\<lparr>e_relay := (\<lambda>c q s.
     if q = StartGaiaPairing then (empty_reply\<lparr>rp_ps := 5\<rparr>, w_takeover s) else (empty_reply, s))\<rparr>"

definition w_bundle :: bytes where
  "w_bundle = encodeBundle (map (\<lambda>k. (k, ''c'')) requiredCookies)"

lemma relogin_loses_pairing_witness:
  "pairing_stale 9 20 w_auth 2 (snd (run_state (Login w_relogin_env w_bundle) w_session))
   \<and> s_lifecycle (snd (run_state (Login w_relogin_env w_bundle) w_session)) = 2"
proof -
  obtain u t where run: "run_state (Login w_relogin_env w_bundle) w_session = (u, t)" by (rule prod.exhaust)
  have parse: "decodeBundle w_bundle = Some (map (\<lambda>k. (k, ''c'')) requiredCookies)"
    unfolding w_bundle_def by (rule decode_encode_bundle) (simp_all add: requiredCookies_def valid_utf8_ascii)
  have some: "map (\<lambda>k. (k, ''c'')) requiredCookies \<noteq> []" by (simp add: requiredCookies_def)
  have all: "\<forall>k \<in> set requiredCookies. cookie (map (\<lambda>k. (k, ''c'')) requiredCookies) k \<noteq> []"
    by (simp add: cookie_def requiredCookies_def)
  have config: "e_relay w_relogin_env c FetchConfig s = (empty_reply, s)" for c s
    by (simp add: w_relogin_env_def)
  have start: "e_relay w_relogin_env c StartGaiaPairing s = (empty_reply\<lparr>rp_ps := 5\<rparr>, w_takeover s)" for c s
    by (simp add: w_relogin_env_def)
  have newer: "s_lifecycle (w_takeover s) = 2" for s by (simp add: w_takeover_def)
  have "(2 :: u64) \<noteq> next_lifecycle (s_lifecycle w_session)"
    by (simp add: NewSession_def next_lifecycle_def)
  note lost = relogin_loses_pairing [OF parse some all config start newer this, of 9 u t]
  show ?thesis using lost run by simp
qed

subsection \<open>Reconnecting\<close>

text \<open>C21: a stale reconnect loop can take a newer login offline. When \<open>FetchConfig\<close> fails fatally
  and a newer login has started meanwhile, \<open>connectLoop\<close> marks the session unauthenticated and emits
  the offline and error events under the newer login's lifecycle: the fatal branch has none of the
  checks that \<open>connectOnce\<close> makes on success.\<close>

theorem stale_connect_not_fenced:
  assumes "s_client s = Some c" and "\<not> ctx_done ctx s" and "\<not> s_closed s" and "s_trace s = []"
    and "e_relay env c FetchConfig s = (r, s1)" and "rp_err r = Some e" and "isFatalAuth e"
    and "s_lifecycle s1 \<noteq> s_lifecycle s" and "\<not> s_closed s1"
    and "run_state (connect_round env ctx b) s = (x, t)"
  shows "(x = None)
    \<and> (\<not> s_authenticated t)
    \<and> (\<not> s_connected t)
    \<and> (s_lifecycle t = s_lifecycle s1)
    \<and> (emitted t = [account_event (s_account s1) False False,
      error_event (s_account s1) ''session expired, re-pair required''])"
proof (intro conjI)
  have "wp (connect_round env ctx b) (\<lambda>x t. x = None \<and> \<not> s_authenticated t \<and> \<not> s_connected t
      \<and> s_lifecycle t = s_lifecycle s1
      \<and> emitted t = [account_event (s_account s1) False False,
          error_event (s_account s1) ''session expired, re-pair required'']) s"
    using assms(1-9)
    by (simp add: connect_round_def connectOnce_def go_offline_def wp_simps Let_def emitted_def)
  from wp_run [OF this assms(10)]
  show "x = None" and "\<not> s_authenticated t" and "\<not> s_connected t"
    and "s_lifecycle t = s_lifecycle s1"
    and "emitted t = [account_event (s_account s1) False False,
      error_event (s_account s1) ''session expired, re-pair required'']" by simp_all
qed

definition w_fatal_env :: env where
  "w_fatal_env = (test_env (\<lambda>q. empty_reply))\<lparr>e_relay := (\<lambda>c q s.
     (empty_reply\<lparr>rp_err := Some [ErrInvalidCredentials]\<rparr>,
      s\<lparr>s_lifecycle := 2, s_authenticated := True\<rparr>))\<rparr>"

lemma stale_connect_not_fenced_witness:
  "\<not> s_authenticated (snd (run_state (connect_round w_fatal_env 1 initial_backoff) w_online))
   \<and> s_lifecycle (snd (run_state (connect_round w_fatal_env 1 initial_backoff) w_online)) = 2"
proof -
  obtain x t where run: "run_state (connect_round w_fatal_env 1 initial_backoff) w_online = (x, t)"
    by (rule prod.exhaust)
  let ?s1 = "w_online\<lparr>s_lifecycle := 2, s_authenticated := True\<rparr>"
  have call: "e_relay w_fatal_env 7 FetchConfig w_online
      = (empty_reply\<lparr>rp_err := Some [ErrInvalidCredentials]\<rparr>, ?s1)" by (simp add: w_fatal_env_def)
  have pre: "\<not> ctx_done 1 w_online" "\<not> s_closed w_online" "\<not> s_closed ?s1"
    "s_lifecycle ?s1 \<noteq> s_lifecycle w_online" "isFatalAuth [ErrInvalidCredentials]"
    by (simp_all add: ctx_done_def w_online_def NewSession_def isFatalAuth_def errors_Is_def)
  note stale = stale_connect_not_fenced [OF w_online_fields(3) pre(1,2) w_online_fields(2) call _ pre(5,4,3) run]
  show ?thesis using stale run by simp
qed

text \<open>Backoff. The waits of the loop start at 5 seconds and double while below a minute.\<close>

definition waits :: "session \<Rightarrow> int list" where
  "waits s = List.map_filter (\<lambda>e. case te_action e of Pause d \<Rightarrow> Some d | _ \<Rightarrow> None) (s_trace s)"

definition backoff_at :: "nat \<Rightarrow> int" where
  "backoff_at n = (next_backoff ^^ n) initial_backoff"

lemma backoff_values:
  "backoff_at 0 = 5 * second" "backoff_at 1 = 10 * second" "backoff_at 2 = 20 * second"
  "backoff_at 3 = 40 * second" "4 \<le> n \<Longrightarrow> backoff_at n = 80 * second"
proof -
  show "backoff_at 0 = 5 * second" "backoff_at 1 = 10 * second" "backoff_at 2 = 20 * second"
    "backoff_at 3 = 40 * second"
    by (simp_all add: backoff_at_def next_backoff_def initial_backoff_def minute_def second_def
        numeral_2_eq_2 numeral_3_eq_3)
  show "4 \<le> n \<Longrightarrow> backoff_at n = 80 * second"
  proof (induction n rule: nat_induct_at_least)
    case base
    show ?case by (simp add: backoff_at_def next_backoff_def initial_backoff_def minute_def second_def
        eval_nat_numeral)
  next
    case (Suc n)
    then show ?case by (simp add: backoff_at_def next_backoff_def minute_def second_def)
  qed
qed

lemma waits_add [simp]:
  "waits (s\<lparr>s_trace := tr @ [stamp u a]\<rparr>) = waits (s\<lparr>s_trace := tr\<rparr>) @ (case a of Pause d \<Rightarrow> [d] | _ \<Rightarrow> [])"
  by (cases a) (simp_all add: waits_def List.map_filter_def stamp_def)

lemma waits_cong: "s_trace s = s_trace t \<Longrightarrow> waits s = waits t"
  by (simp add: waits_def)

lemma connect_once_waits: "wp (connectOnce env) (\<lambda>_ t. waits t = waits s) s"
  by (auto simp: connectOnce_def wp_simps Let_def saveAuthIfCurrent_def write_session_def waits_def
      List.map_filter_def stamp_def split: prod.split option.split)

lemma connect_round_waits:
  "wp (connect_round env ctx b) (\<lambda>x t. (x = None \<and> (waits t = waits s \<or> waits t = waits s @ [b]))
     \<or> (x = Some (next_backoff b) \<and> waits t = waits s @ [b])) s"
proof -
  have trace: "waits (u\<lparr>s_trace := s_trace v @ [stamp v (Pause b)]\<rparr>) = waits v @ [b]"
    "waits (u\<lparr>s_trace := s_trace v @ [stamp v (Emit e)]\<rparr>) = waits v"
    "waits (v\<lparr>s_connected := p, s_authenticated := q\<rparr>) = waits v" for u v e p q
    by (simp_all add: waits_def List.map_filter_def stamp_def)
  show ?thesis
    unfolding connect_round_def wp_bind wp_get wp_if
    by (auto simp: wp_simps go_offline_def trace waits_def List.map_filter_def stamp_def
        intro!: wp_mono [OF connect_once_waits] split: option.split prod.split)
qed

lemma connect_rounds_waits:
  "wp (connect_rounds env ctx n b) (\<lambda>finished t. \<exists>k \<le> n.
     waits t = waits s @ map (\<lambda>i. (next_backoff ^^ i) b) [0..<k] \<and> (\<not> finished \<longrightarrow> k = n)) s"
proof (induction n arbitrary: b s)
  case (Suc n)
  show ?case
    unfolding connect_rounds.simps wp_bind
  proof (rule wp_mono [OF connect_round_waits])
    fix x t
    assume x: "(x = None \<and> (waits t = waits s \<or> waits t = waits s @ [b]))
      \<or> (x = Some (next_backoff b) \<and> waits t = waits s @ [b])"
    show "wp (case x of None \<Rightarrow> State_Monad.return True | Some b \<Rightarrow> connect_rounds env ctx n b)
        (\<lambda>finished t. \<exists>k \<le> Suc n. waits t = waits s @ map (\<lambda>i. (next_backoff ^^ i) b) [0..<k]
           \<and> (\<not> finished \<longrightarrow> k = Suc n)) t"
    proof (cases x)
      case None
      with x show ?thesis
        by (auto simp: wp_simps intro: exI [of _ 0] exI [of _ "Suc 0"])
    next
      case (Some b')
      with x have b': "b' = next_backoff b" "waits t = waits s @ [b]" by auto
      have shift: "map (\<lambda>i. (next_backoff ^^ i) b) [0..<Suc k] = b # map (\<lambda>i. (next_backoff ^^ i) b') [0..<k]" for k
        by (simp add: upt_conv_Cons map_Suc_upt [symmetric] b' funpow_swap1 comp_def del: upt_Suc)
      have "wp (connect_rounds env ctx n b') (\<lambda>finished u. \<exists>k \<le> Suc n.
          waits u = waits s @ map (\<lambda>i. (next_backoff ^^ i) b) [0..<k] \<and> (\<not> finished \<longrightarrow> k = Suc n)) t"
      proof (rule wp_mono [OF Suc.IH])
        fix finished u
        assume "\<exists>k \<le> n. waits u = waits t @ map (\<lambda>i. (next_backoff ^^ i) b') [0..<k]
          \<and> (\<not> finished \<longrightarrow> k = n)"
        then obtain k where "k \<le> n" "waits u = waits t @ map (\<lambda>i. (next_backoff ^^ i) b') [0..<k]"
          "\<not> finished \<longrightarrow> k = n" by blast
        then show "\<exists>k \<le> Suc n. waits u = waits s @ map (\<lambda>i. (next_backoff ^^ i) b) [0..<k]
          \<and> (\<not> finished \<longrightarrow> k = Suc n)"
          by (intro exI [of _ "Suc k"]) (simp add: b' shift [unfolded b'] del: upt_Suc)
      qed
      with Some show ?thesis by simp
    qed
  qed
qed (simp add: wp_simps)

lemma backoff_schedule: "(next_backoff ^^ i) initial_backoff = [5, 10, 20, 40, 80] ! min i 4 * second"
proof (cases "i < 4")
  case True
  then consider "i = 0" | "i = 1" | "i = 2" | "i = 3" by linarith
  then show ?thesis using backoff_values unfolding backoff_at_def by cases simp_all
next
  case False
  then show ?thesis using backoff_values(5) [of i] unfolding backoff_at_def by simp
qed

lemma loop_waits:
  assumes "run_state (connectLoop env n ctx) s = (finished, t)" and "waits s = []"
  shows "waits t = map (\<lambda>i. [5, 10, 20, 40, 80] ! min i 4 * second) [0..<length (waits t)]"
proof -
  have "\<exists>k \<le> n. waits t = waits s @ map (\<lambda>i. (next_backoff ^^ i) initial_backoff) [0..<k]
      \<and> (\<not> finished \<longrightarrow> k = n)"
    by (rule wp_run [OF connect_rounds_waits assms(1) [unfolded connectLoop_def]])
  then show ?thesis unfolding backoff_schedule assms(2) by fastforce
qed

subsection \<open>The relay comes back\<close>

text \<open>A relay that refuses every call until \<open>k\<close> waits have passed, and then accepts; nothing else happens
  meanwhile, and waits end by their timer.\<close>

definition recovers :: "env \<Rightarrow> nat \<Rightarrow> go_error \<Rightarrow> bool" where
  "recovers env k e \<longleftrightarrow>
     (\<forall>c q s. snd (e_relay env c q s) = s
        \<and> rp_err (fst (e_relay env c q s)) = (if length (waits s) < k then Some e else None))
     \<and> (\<forall>d s. e_wait env d s = (Woke_Timer, s))"

lemma recovers_rpc:
  assumes "recovers env k e"
    and "\<And>r. rp_err r = (if length (waits s) < k then Some e else None)
      \<Longrightarrow> Q r (s\<lparr>s_trace := s_trace s @ [stamp s (Call c q)]\<rparr>)"
  shows "wp (rpc_call env c q) Q s"
  using assms(1) assms(2) [of "fst (e_relay env c q s)"]
  by (simp add: wp_simps recovers_def split: prod.split) (metis fst_conv snd_conv)

lemma save_frame:
  "wp (saveAuthIfCurrent env lc) (\<lambda>_ t. s_connected t = s_connected s \<and> s_authenticated t = s_authenticated s
     \<and> s_lifecycle t = s_lifecycle s \<and> waits t = waits s \<and> emitted t = emitted s) s"
  by (auto simp: saveAuthIfCurrent_def write_session_def wp_simps waits_def emitted_def List.map_filter_def
      stamp_def emitted_of_def split: option.split prod.split)

lemma trace_frame [simp]:
  "waits (s\<lparr>s_connected := a, s_authenticated := b\<rparr>) = waits s"
  "emitted (s\<lparr>s_connected := a, s_authenticated := b\<rparr>) = emitted s"
  "emitted (u\<lparr>s_trace := s_trace s @ [stamp v a']\<rparr>) = emitted s @ emitted_of (stamp v a')"
  "waits (u\<lparr>s_trace := s_trace s @ [stamp v a']\<rparr>) = waits s @ (case a' of Pause d \<Rightarrow> [d] | _ \<Rightarrow> [])"
  by (simp_all add: waits_def emitted_def List.map_filter_def stamp_def split: action.split)

definition calm :: "session \<Rightarrow> session \<Rightarrow> bool" where
  "calm s t \<longleftrightarrow> s_closed t = s_closed s \<and> s_client t = s_client s \<and> s_account t = s_account s
     \<and> s_lifecycle t = s_lifecycle s \<and> (\<forall>ctx. ctx_done ctx t = ctx_done ctx s)"

lemma calm_trace [simp]: "calm s (t\<lparr>s_trace := tr\<rparr>) = calm s t" "calm s s"
  by (simp_all add: calm_def ctx_done_def)

lemma once_refused:
  assumes "recovers env k e" and "length (waits s) < k" and "s_client s = Some c"
  shows "wp (connectOnce env) (\<lambda>x t. x = Some e \<and> calm s t \<and> waits t = waits s
     \<and> emitted t = emitted s) s"
  unfolding connectOnce_def wp_bind wp_get Let_def assms(3) option.case
  by (rule recovers_rpc [OF assms(1)]) (use assms(2) in \<open>auto simp: wp_simps\<close>)

lemma once_accepted:
  assumes "recovers env k e" and "\<not> length (waits s) < k" and "s_client s = Some c" and "\<not> s_closed s"
  shows "wp (connectOnce env) (\<lambda>x t. x = None \<and> s_connected t \<and> s_authenticated t \<and> waits t = waits s
     \<and> emitted t = emitted s @ [account_event (s_account s) True True]
     \<and> last (actions t) = Spawn (Task_catchUp (s_lifecycle s))) s"
  unfolding connectOnce_def wp_bind wp_get Let_def assms(3) option.case
  apply (rule recovers_rpc [OF assms(1)])
  using assms(2-4)
  apply (simp add: wp_if wp_bind wp_get ownsClient_def alive_def wp_return)
  apply (rule recovers_rpc [OF assms(1)])
  apply (simp add: wp_if wp_bind wp_get ownsClient_def alive_def wp_return wp_update wp_fireIfCurrent)
  apply (rule wp_mono [OF save_frame])
  apply (simp add: wp_bind wp_act wp_return actions_def stamp_def waits_def emitted_def emitted_of_def List.map_filter_def)
  done

lemma round_refused:
  assumes "recovers env k e" and "\<not> isFatalAuth e" and "length (waits s) < k"
    and "\<not> s_closed s" and "\<not> ctx_done ctx s" and "s_client s = Some c"
  shows "wp (connect_round env ctx b) (\<lambda>x t. x = Some (next_backoff b) \<and> calm s t
    \<and> waits t = waits s @ [b] \<and> emitted t = emitted s) s"
proof -
  have pause: "wp (pause env b) (\<lambda>w t. w = Woke_Timer \<and> t = s\<lparr>s_trace := s_trace s @ [stamp s (Pause b)]\<rparr>) s" for s
    using assms(1) by (simp add: wp_simps recovers_def)
  show ?thesis
    unfolding connect_round_def wp_bind wp_get wp_if
    using assms(2,4,5)
    by (auto intro!: wp_mono [OF once_refused [OF assms(1,3,6)]] wp_mono [OF pause] simp: wp_bind wp_return emitted_def)
qed

lemma round_accepted:
  assumes "recovers env k e" and "\<not> length (waits s) < k"
    and "\<not> s_closed s" and "\<not> ctx_done ctx s" and "s_client s = Some c"
  shows "wp (connect_round env ctx b) (\<lambda>x t. x = None \<and> s_connected t \<and> s_authenticated t \<and> waits t = waits s
     \<and> emitted t = emitted s @ [account_event (s_account s) True True]
     \<and> last (actions t) = Spawn (Task_catchUp (s_lifecycle s))) s"
  unfolding connect_round_def wp_bind wp_get wp_if
  using assms(3,4)
  by (auto intro!: wp_mono [OF once_accepted [OF assms(1,2,5,3)]] simp: wp_return)

lemma rounds_recover:
  assumes "recovers env k e" and "\<not> isFatalAuth e" and "k - length (waits s) < n" and "length (waits s) \<le> k"
    and "\<not> s_closed s" and "\<not> ctx_done ctx s" and "s_client s = Some c"
  shows "wp (connect_rounds env ctx n b) (\<lambda>finished t. finished \<and> s_connected t \<and> s_authenticated t
     \<and> length (waits t) = k \<and> emitted t = emitted s @ [account_event (s_account s) True True]
     \<and> last (actions t) = Spawn (Task_catchUp (s_lifecycle s))) s"
  using assms(3-7)
proof (induction n arbitrary: s b)
  case (Suc n)
  show ?case
  proof (cases "length (waits s) < k")
    case True
    have next_round: "wp (connect_rounds env ctx n (next_backoff b)) (\<lambda>finished t. finished \<and> s_connected t
       \<and> s_authenticated t \<and> length (waits t) = k \<and> emitted t = emitted s @ [account_event (s_account s) True True]
       \<and> last (actions t) = Spawn (Task_catchUp (s_lifecycle s))) t"
      if t: "calm s t" "waits t = waits s @ [b]" "emitted t = emitted s" for t
    proof -
      have "k - length (waits t) < n" "length (waits t) \<le> k" "\<not> s_closed t" "\<not> ctx_done ctx t" "s_client t = Some c"
        using t(1,2) True Suc.prems by (auto simp: calm_def)
      from Suc.IH [OF this] show ?thesis using t(1,3) by (simp add: calm_def)
    qed
    show ?thesis
      unfolding connect_rounds.simps wp_bind
      by (rule wp_mono [OF round_refused [OF assms(1,2) True Suc.prems(3-5)]]) (auto intro: next_round)
  next
    case False
    with Suc.prems(2) have "length (waits s) = k" by simp
    then show ?thesis
      unfolding connect_rounds.simps wp_bind
      by (auto intro!: wp_mono [OF round_accepted [OF assms(1) False Suc.prems(3-5)]] simp: wp_return)
  qed
qed simp

text \<open>C27: the reconnect loop gets back online.  If the relay refuses \<open>k\<close> attempts with an error that is not
  fatal and then accepts, and the session is neither closed nor cancelled, the loop returns within
  \<open>k + 1\<close> rounds. Its waits are 5, 10, 20, 40 and then 80 seconds, one per refusal. The session is
  then connected and authenticated, the one event emitted says so, and the catch-up of the current
  lifecycle is started last.\<close>

theorem reconnects:
  assumes "recovers env k e" and "\<not> isFatalAuth e" and "k < n" and "s_trace s = []"
    and "\<not> s_closed s" and "\<not> ctx_done ctx s" and "s_client s = Some c"
  shows "\<exists>t. run_state (connectLoop env n ctx) s = (True, t) \<and> s_connected t \<and> s_authenticated t
    \<and> waits t = map (\<lambda>i. [5, 10, 20, 40, 80] ! min i 4 * second) [0..<k]
    \<and> emitted t = [account_event (s_account s) True True]
    \<and> last (actions t) = Spawn (Task_catchUp (s_lifecycle s))"
proof -
  have start: "waits s = []" "emitted s = []"
    using assms(4) by (simp_all add: waits_def emitted_def List.map_filter_def)
  obtain x t where run: "run_state (connectLoop env n ctx) s = (x, t)" by (rule prod.exhaust)
  from wp_run [OF rounds_recover [OF assms(1,2) _ _ assms(5-7)] run [unfolded connectLoop_def]] start assms(3) run
    loop_waits [OF run start(1)]
  show ?thesis by simp
qed

definition w_recovering :: env where
  "w_recovering = (test_env (\<lambda>q. empty_reply))\<lparr>e_relay := (\<lambda>c q s.
     (empty_reply\<lparr>rp_err := (if length (waits s) < 2 then Some [ErrOther] else None)\<rparr>, s))\<rparr>"

lemma reconnects_witness:
  "\<exists>t. run_state (connectLoop w_recovering 3 1) w_online = (True, t) \<and> s_connected t \<and> waits t = [5 * second, 10 * second]"
proof -
  have "recovers w_recovering 2 [ErrOther]"
    by (simp add: recovers_def w_recovering_def test_env_def empty_reply_def)
  moreover have "\<not> isFatalAuth [ErrOther]" by (simp add: isFatalAuth_def errors_Is_def)
  moreover have "\<not> ctx_done 1 w_online" by (simp add: ctx_done_def w_online_def NewSession_def)
  ultimately show ?thesis
    using reconnects [of w_recovering 2 "[ErrOther]" 3 w_online 1 7] w_online_fields
    by (auto simp: eval_nat_numeral)
qed

subsection \<open>The loop returns\<close>

text \<open>From the \<open>k\<close>th wait on, every wait is cut short, or the session is closed or the loop cancelled
  by its end; the relay may do anything.\<close>

definition gives_up :: "env \<Rightarrow> nat \<Rightarrow> nat \<Rightarrow> bool" where
  "gives_up env ctx k \<longleftrightarrow> (\<forall>d s w t. e_wait env d s = (w, t) \<and> k \<le> Suc (length (waits s)) \<longrightarrow>
     w = Woke_Done \<or> s_closed t \<or> ctx_done ctx t)"

lemma waits_of_trace [simp]: "waits (t\<lparr>s_trace := s_trace u\<rparr>) = waits u"
  by (rule waits_cong) simp

lemma round_ended: "s_closed s \<or> ctx_done ctx s \<Longrightarrow> wp (connect_round env ctx b) (\<lambda>x t. x = None \<and> t = s) s"
  by (auto simp: connect_round_def wp_simps)

lemma round_gives_up:
  assumes "gives_up env ctx k"
  shows "wp (connect_round env ctx b) (\<lambda>x t. x = None
    \<or> length (waits t) = Suc (length (waits s)) \<and> (k \<le> length (waits t) \<longrightarrow> s_closed t \<or> ctx_done ctx t)) s"
proof -
  have pause: "wp (pause env b) (\<lambda>w t. w = Woke_Done
      \<or> length (waits t) = Suc (length (waits u)) \<and> (k \<le> length (waits t) \<longrightarrow> s_closed t \<or> ctx_done ctx t)) u" for u
    using assms by (auto simp: wp_simps gives_up_def ctx_done_def split: prod.split)
  show ?thesis
    unfolding connect_round_def wp_bind wp_get wp_if
    by (auto simp: wp_bind wp_if wp_get wp_update wp_fire wp_return wp_option go_offline_def
        intro!: wp_mono [OF connect_once_waits] wp_mono [OF pause] split: option.split)
qed

lemma rounds_give_up:
  assumes "gives_up env ctx k" and "k - length (waits s) < n"
    and "k \<le> length (waits s) \<longrightarrow> s_closed s \<or> ctx_done ctx s"
  shows "wp (connect_rounds env ctx n b) (\<lambda>finished t. finished) s"
  using assms(2,3)
proof (induction n arbitrary: s b)
  case (Suc n)
  show ?case
  proof (cases "k \<le> length (waits s)")
    case True
    with Suc.prems(2) show ?thesis
      unfolding connect_rounds.simps wp_bind
      by (intro wp_mono [OF round_ended]) (auto simp: wp_return)
  next
    case False
    with Suc.prems(1) Suc.IH show ?thesis
      unfolding connect_rounds.simps wp_bind
      by (intro wp_mono [OF round_gives_up [OF assms(1)]]) (auto simp: wp_return split: option.split)
  qed
qed simp

text \<open>C28: the reconnect loop ends when its session does. Whatever the relay answers and whatever else
  happens, if by the end of the \<open>k\<close>th wait the loop is cancelled or the session closed, the loop
  returns within \<open>k + 1\<close> rounds; and a loop that is already cancelled, or whose session is closed,
  returns at once and changes nothing.\<close>

theorem connect_loop_ends:
  assumes "gives_up env ctx k" and "0 < k" and "k < n" and "s_trace s = []"
  shows "fst (run_state (connectLoop env n ctx) s)
    \<and> (s_closed s \<or> ctx_done ctx s \<longrightarrow> run_state (connectLoop env n ctx) s = (True, s))"
proof -
  obtain x t where run: "run_state (connectLoop env n ctx) s = (x, t)" by (rule prod.exhaust)
  have "waits s = []" using assms(4) by (simp add: waits_def List.map_filter_def)
  with wp_run [OF rounds_give_up [OF assms(1)] run [unfolded connectLoop_def]] assms(2,3) have "x" by simp
  moreover have "(x, t) = (True, s)" if ended: "s_closed s \<or> ctx_done ctx s"
  proof -
    obtain m where "n = Suc m" using assms(3) by (cases n) auto
    then have "wp (connectLoop env n ctx) (\<lambda>x t. x \<and> t = s) s"
      unfolding connectLoop_def
      by (simp only: connect_rounds.simps wp_bind) (rule wp_mono [OF round_ended [OF ended]], simp add: wp_return)
    from wp_run [OF this run] show ?thesis by simp
  qed
  ultimately show ?thesis using run by simp
qed

definition w_giving_up :: env where
  "w_giving_up = (test_env (\<lambda>q. empty_reply\<lparr>rp_err := Some [ErrOther]\<rparr>))\<lparr>e_wait := (\<lambda>d s.
     if Suc (length (waits s)) < 2 then (Woke_Timer, s) else (Woke_Done, s))\<rparr>"

lemma connect_loop_ends_witness:
  "fst (run_state (connectLoop w_giving_up 3 1) w_online)
   \<and> run_state (connectLoop w_giving_up 3 1) (w_online\<lparr>s_closed := True\<rparr>) = (True, w_online\<lparr>s_closed := True\<rparr>)"
proof -
  have "gives_up w_giving_up 1 2" by (auto simp: gives_up_def w_giving_up_def split: if_splits)
  note ends = connect_loop_ends [OF this, of 3]
  show ?thesis
    using ends [of w_online] ends [of "w_online\<lparr>s_closed := True\<rparr>"] w_online_fields by simp
qed

end
