(* ===== verification/Hub.thy ===== *)
theory Hub
  imports Connection
begin

text \<open>
  \<open>main.go\<close>: the loop over command lines, the hub that owns one session per account, and the worker
  pool. Go maps are association lists; a session is a position in \<open>h_heap\<close>, because two parts of the
  program can hold the same session while the map moves on. \<open>h_jobs\<close> are the goroutines \<open>spawn\<close>
  started and that have not returned, one slot of \<open>commandSem\<close> each. The machine (directories, the
  daemon's files, the clock) is shared by all sessions. \<open>h_out\<close> is what standard output has got, line
  by line.
\<close>

subsection \<open>The gates\<close>

definition adapterName :: go_string where
  "adapterName = ''handover-gmessages/libgm''"

definition trimSpace :: "bytes \<Rightarrow> bytes" where
  "trimSpace b = dropWhile (\<lambda>c. c = CHR '' '' \<or> c = CHR 0x09 \<or> c = CHR 0x0D \<or> c = CHR 0x0A) b"

definition validAccount :: "go_string \<Rightarrow> bool" where
  "validAccount account \<longleftrightarrow>
     \<not> (account = [] \<or> length account > 128)
     \<and> (\<forall>r \<in> set (runes account). \<not> (r = byte CHR ''/'' \<or> r = 0x5C \<or> r = byte CHR ''.'' \<or> r = 0 \<or> r < 0x20))"

text \<open>\<open>encoding/base64\<close>, standard alphabet with padding; line breaks are skipped, and the bits a final
  group leaves over are not checked.\<close>

definition b64_value :: "char \<Rightarrow> nat option" where
  "b64_value c =
     (let n = byte c in
      if 65 \<le> n \<and> n \<le> 90 then Some (n - 65)
      else if 97 \<le> n \<and> n \<le> 122 then Some (n - 71)
      else if 48 \<le> n \<and> n \<le> 57 then Some (n + 4)
      else if c = CHR ''+'' then Some 62
      else if c = CHR ''/'' then Some 63
      else None)"

definition b64_bytes :: "nat \<Rightarrow> nat \<Rightarrow> nat \<Rightarrow> nat \<Rightarrow> bytes" where
  "b64_bytes a b c d =
     [chr (a * 4 + b div 16), chr ((b mod 16) * 16 + c div 4), chr ((c mod 4) * 64 + d)]"

fun b64_groups :: "bytes \<Rightarrow> bytes option" where
  "b64_groups [] = Some []"
| "b64_groups (a # b # c # d # rest) =
     (case (b64_value a, b64_value b) of
        (Some va, Some vb) \<Rightarrow>
          if c = CHR ''='' then
            (if d = CHR ''='' \<and> rest = [] then Some (take 1 (b64_bytes va vb 0 0)) else None)
          else (case b64_value c of
              None \<Rightarrow> None
            | Some vc \<Rightarrow>
                if d = CHR ''='' then (if rest = [] then Some (take 2 (b64_bytes va vb vc 0)) else None)
                else (case b64_value d of
                    None \<Rightarrow> None
                  | Some vd \<Rightarrow> map_option (\<lambda>out. b64_bytes va vb vc vd @ out) (b64_groups rest)))
      | _ \<Rightarrow> None)"
| "b64_groups _ = None"

definition b64_decode :: "bytes \<Rightarrow> bytes option" where
  "b64_decode s = b64_groups (filter (\<lambda>c. c \<noteq> CHR 0x0A \<and> c \<noteq> CHR 0x0D) s)"

subsection \<open>The state directory\<close>

text \<open>\<open>NewStore\<close>: the directory it settles on, or \<open>None\<close> for an error. \<open>cwd\<close> is \<open>None\<close> when the working
  directory is unknown, which is the only way \<open>filepath.Abs\<close> fails; its error is ignored and the
  empty path joins to a relative one.\<close>

definition NewStore :: "go_string option \<Rightarrow> go_string \<Rightarrow> go_string option \<Rightarrow> go_string option" where
  "NewStore cwd xdg home =
     (case (if xdg = [] then map_option (\<lambda>h. h @ ''/.local/state'') home else Some xdg) of
        None \<Rightarrow> None
      | Some base \<Rightarrow>
          if is_abs base then Some (join_path (clean_abs base @ [''handover'', ''gmessages'']))
          else (case cwd of
              None \<Rightarrow> Some ''handover/gmessages''
            | Some d \<Rightarrow> Some (join_path (abs_path d base @ [''handover'', ''gmessages'']))))"

subsection \<open>The hub\<close>

record machine =
  mn_store :: dir
  mn_staged :: dir
  mn_sweep :: sweep_state
  mn_files :: file_tree
  mn_now :: int

definition on_machine :: "machine \<Rightarrow> session \<Rightarrow> session" where
  "on_machine m s = s\<lparr>s_store := mn_store m, s_staged := mn_staged m, s_sweep := mn_sweep m,
     s_files := mn_files m, s_now := mn_now m, s_trace := []\<rparr>"

definition machine_of :: "session \<Rightarrow> machine" where
  "machine_of s = \<lparr>mn_store = s_store s, mn_staged = s_staged s, mn_sweep = s_sweep s,
     mn_files = s_files s, mn_now = s_now s\<rparr>"

text \<open>A worker runs a command of a session. A logout that succeeded goes on to forget the session, which
  takes two more steps: the map entry goes under the lock, and the session is closed after it.\<close>

datatype job = Job nat session_op | Job_logout nat go_string | Job_forget go_string | Job_close nat

text \<open>\<open>h_closing\<close> is \<open>None\<close> while the main goroutine reads commands; from \<open>shutdown\<close> on it holds the
  sessions of the snapshot that are still to be closed.\<close>

record hub =
  h_sessions :: "(go_string \<times> nat) list"
  h_heap :: "session list"
  h_jobs :: "job list"
  h_machine :: machine
  h_out :: "go_string list"
  h_closing :: "nat list option"
  h_exited :: bool

definition hub_write :: "event \<Rightarrow> hub \<Rightarrow> hub" where
  "hub_write evt h = h\<lparr>h_out := h_out h @ [marshal_event evt]\<rparr>"

text \<open>A program of session \<open>p\<close> runs on the machine; \<open>emitEvent\<close> writes what it emits. The ghost trace
  starts empty, so afterwards it holds the actions of this run.\<close>

definition run_on :: "nat \<Rightarrow> 'a prog \<Rightarrow> hub \<Rightarrow> 'a \<times> hub" where
  "run_on p m h =
     (case run_state m (on_machine (h_machine h) (h_heap h ! p)) of
        (x, t) \<Rightarrow> (x, h\<lparr>h_heap := (h_heap h)[p := t], h_machine := machine_of t,
                        h_out := h_out h @ map marshal_event (emitted t)\<rparr>))"

definition hub_session :: "go_string \<Rightarrow> hub \<Rightarrow> nat \<times> hub" where
  "hub_session account h =
     (case map_of (h_sessions h) account of
        Some p \<Rightarrow> (p, h)
      | None \<Rightarrow>
          (length (h_heap h),
           h\<lparr>h_heap := h_heap h @ [NewSession account (mn_store (h_machine h)) (mn_staged (h_machine h))
                                    (mn_sweep (h_machine h)) (mn_now (h_machine h))],
             h_sessions := (account, length (h_heap h)) # h_sessions h\<rparr>))"

definition close_session :: "nat \<Rightarrow> hub \<Rightarrow> hub" where
  "close_session p h = snd (run_on p Close h)"

text \<open>\<open>forget\<close>: the step under the lock, and the two steps run without interruption.\<close>

definition forget_entry :: "go_string \<Rightarrow> hub \<Rightarrow> nat option \<times> hub" where
  "forget_entry account h =
     (case map_of (h_sessions h) account of
        None \<Rightarrow> (None, h)
      | Some p \<Rightarrow> (Some p, h\<lparr>h_sessions := AList.delete account (h_sessions h)\<rparr>))"

definition forget :: "go_string \<Rightarrow> hub \<Rightarrow> hub" where
  "forget account h =
     (case forget_entry account h of (None, h) \<Rightarrow> h | (Some p, h) \<Rightarrow> close_session p h)"

text \<open>\<open>shutdown\<close> copies the map under the lock; the steps of the main goroutine below close the copies.\<close>

definition shutdown :: "hub \<Rightarrow> hub" where
  "shutdown h = h\<lparr>h_closing := Some (map snd (h_sessions h))\<rparr>"

definition maxCommandWorkers :: nat where "maxCommandWorkers = 16"

definition spawn :: "job \<Rightarrow> hub \<Rightarrow> bool \<times> hub" where
  "spawn j h =
     (if length (h_jobs h) < maxCommandWorkers then (True, h\<lparr>h_jobs := h_jobs h @ [j]\<rparr>) else (False, h))"

definition hub_error :: "go_string \<Rightarrow> go_string \<Rightarrow> hub \<Rightarrow> hub" where
  "hub_error account msg h = hub_write (error_event account msg) h"

definition dispatchAsync :: "go_string \<Rightarrow> go_string \<Rightarrow> (nat \<Rightarrow> job) \<Rightarrow> hub \<Rightarrow> hub" where
  "dispatchAsync account requestID fn h =
     (let (p, h) = hub_session account h; (ok, h) = spawn (fn p) h in
      if ok then h
      else if requestID \<noteq> [] then snd (run_on p (SendResult requestID False ''busy'') h)
      else hub_error account ''busy'' h)"

text \<open>Announcing the stored sessions; an error of \<open>Restore\<close> is only logged.\<close>

definition restore :: "env \<Rightarrow> hub \<Rightarrow> hub" where
  "restore env h =
     fold (\<lambda>account h.
         if \<not> validAccount account then h
         else case hub_session account h of (p, h) \<Rightarrow> snd (run_on p (Restore env) h))
       (Accounts (e_faults env) (mn_store (h_machine h))) h"

subsection \<open>Dispatch\<close>

text \<open>What one case of the switch does after its guards.\<close>

datatype plan =
    Plan_hello
  | Plan_nothing
  | Plan_error go_string go_string
  | Plan_result go_string go_string go_string
  | Plan_async go_string go_string "nat \<Rightarrow> job"

definition login_plan :: "command \<Rightarrow> plan" where
  "login_plan cmd =
     (if \<not> validAccount (cmd_Account cmd) \<or> cmd_BundleB64 cmd = []
      then Plan_error (cmd_Account cmd) ''login rejected''
      else (case b64_decode (cmd_BundleB64 cmd) of
          None \<Rightarrow> Plan_error (cmd_Account cmd) ''login bundle rejected''
        | Some bundle \<Rightarrow>
            if length bundle = 0 \<or> length bundle > MaxBundleBytes
            then Plan_error (cmd_Account cmd) ''login bundle rejected''
            else Plan_async (cmd_Account cmd) [] (\<lambda>p. Job p (OpLogin bundle))))"

definition history_limit :: "u32 \<Rightarrow> u32" where
  "history_limit l = (if l < 1 \<or> l > 100 then 20 else l)"

definition command_plan :: "command \<Rightarrow> plan" where
  "command_plan cmd =
     (let ty = cmd_Type cmd; account = cmd_Account cmd; conv = cmd_Conversation cmd;
          rid = cmd_RequestID cmd in
      if ty = ''hello'' then Plan_hello
      else if ty = ''login'' then login_plan cmd
      else if ty = ''logout'' then
        (if \<not> validAccount account then Plan_nothing
         else Plan_async account [] (\<lambda>p. Job_logout p account))
      else if ty = ''list_conversations'' \<or> ty = ''sync'' then
        (if \<not> validAccount account then Plan_nothing
         else Plan_async account [] (\<lambda>p. Job p OpSync))
      else if ty = ''fetch_history'' then
        (if \<not> validAccount account \<or> conv = [] then Plan_nothing
         else Plan_async account [] (\<lambda>p. Job p (OpFetchHistory conv (history_limit (cmd_Limit cmd))
                (if cmd_Cursor cmd \<noteq> [] then Some (cmd_Cursor cmd) else None) (cmd_FetchID cmd))))
      else if ty = ''send_text'' then
        (if \<not> validAccount account \<or> conv = [] \<or> rid = [] then Plan_nothing
         else Plan_async account rid (\<lambda>p. Job p (OpSendText rid conv (cmd_Text cmd) (cmd_ReplyTo cmd))))
      else if ty = ''send_media'' then
        (if \<not> validAccount account \<or> conv = [] \<or> rid = [] \<or> cmd_Path cmd = []
         then Plan_result account rid ''unreadable file''
         else Plan_async account rid (\<lambda>p. Job p (OpSendMedia rid conv (cmd_Path cmd) (cmd_Caption cmd))))
      else if ty = ''react'' then
        (if \<not> validAccount account \<or> rid = [] then Plan_nothing
         else Plan_async account rid
           (\<lambda>p. Job p (OpReact rid conv (cmd_Message cmd) (cmd_Emoji cmd) (cmd_Add cmd))))
      else if ty = ''mark_read'' then
        (if \<not> validAccount account \<or> conv = [] then Plan_nothing
         else Plan_async account [] (\<lambda>p. Job p (OpMarkRead conv (cmd_Message cmd))))
      else if ty = ''typing'' then
        (if \<not> validAccount account \<or> conv = [] then Plan_nothing
         else Plan_async account [] (\<lambda>p. Job p (OpTyping conv)))
      else if ty = ''delete_message'' then
        (if \<not> validAccount account \<or> rid = [] then Plan_nothing
         else Plan_async account rid (\<lambda>p. Job p (OpDeleteMessage rid (cmd_Message cmd))))
      else if ty = ''open_conversation'' then
        (if \<not> validAccount account \<or> rid = [] then Plan_nothing
         else Plan_async account rid (\<lambda>p. Job p (OpOpen rid (cmd_Addresses cmd))))
      else Plan_error [] ''unknown command'')"

definition hello_event :: event where
  "hello_event = (mk_event ''hello'')\<lparr>ev_HelperProtocol := HelperProtocol, ev_Name := adapterName\<rparr>"

definition dispatch :: "env \<Rightarrow> command \<Rightarrow> hub \<Rightarrow> hub" where
  "dispatch env cmd h =
     (case command_plan cmd of
        Plan_hello \<Rightarrow> restore env (hub_write hello_event h)
      | Plan_nothing \<Rightarrow> h
      | Plan_error account msg \<Rightarrow> hub_error account msg h
      | Plan_result account rid msg \<Rightarrow>
          (case hub_session account h of (p, h) \<Rightarrow> snd (run_on p (SendResult rid False msg) h))
      | Plan_async account rid fn \<Rightarrow> dispatchAsync account rid fn h)"

subsection \<open>The command loop\<close>

text \<open>The scanner's buffer: a longer line ends the input.\<close>

definition maxLine :: nat where "maxLine = 2 * 1024 * 1024"

definition serve_line :: "env \<Rightarrow> bytes \<Rightarrow> hub \<Rightarrow> hub" where
  "serve_line env line h =
     (if length line \<ge> maxLine then shutdown h
      else if trimSpace line = [] then h
      else (case decodeCommand line of
          None \<Rightarrow> hub_error [] ''malformed command'' h
        | Some cmd \<Rightarrow>
            if cmd_Type cmd = ''shutdown'' then shutdown h
            else dispatch env cmd h))"

definition drop_job :: "nat \<Rightarrow> 'j list \<Rightarrow> 'j list" where
  "drop_job i js = take i js @ drop (Suc i) js"

text \<open>The operations the goroutines of a session run outside the worker pool.\<close>

fun background :: "session_op \<Rightarrow> bool" where
  "background (OpFinishPairing ps ctx client auth lc) = True"
| "background (OpConnectLoop n ctx) = True"
| "background (OpCatchUp lc delays) = True"
| "background (OpSignal gen evt) = True"
| "background OpEventTurn = True"
| "background OpResync = True"
| "background (OpResumeTick previous now) = True"
| "background _ = False"

definition serving :: "hub \<Rightarrow> bool" where
  "serving h \<longleftrightarrow> \<not> h_exited h \<and> h_closing h = None"

text \<open>The steps. The main goroutine reads a line, or reaches the end of the input, only while it serves;
  then it closes the copied sessions one by one, in the order of a map range, which is any order, and
  exits. The workers and the goroutines of the sessions run until then.\<close>

inductive hub_step :: "env \<Rightarrow> hub \<Rightarrow> hub \<Rightarrow> bool" for env where
  step_line: "serving h \<Longrightarrow> hub_step env h (serve_line env line h)"
| step_eof: "serving h \<Longrightarrow> hub_step env h (shutdown h)"
| step_close: "\<not> h_exited h \<Longrightarrow> h_closing h = Some ps \<Longrightarrow> i < length ps \<Longrightarrow>
    hub_step env h ((close_session (ps ! i) h)\<lparr>h_closing := Some (drop_job i ps)\<rparr>)"
| step_exit: "h_closing h = Some [] \<Longrightarrow> hub_step env h (h\<lparr>h_exited := True\<rparr>)"
| step_job: "\<not> h_exited h \<Longrightarrow> i < length (h_jobs h) \<Longrightarrow> h_jobs h ! i = Job p op \<Longrightarrow>
    run_on p (run_op env op) h = (u, h') \<Longrightarrow>
    hub_step env h (h'\<lparr>h_jobs := drop_job i (h_jobs h)\<rparr>)"
| step_logout: "\<not> h_exited h \<Longrightarrow> i < length (h_jobs h) \<Longrightarrow> h_jobs h ! i = Job_logout p account \<Longrightarrow>
    run_on p (Logout env) h = (ok, h') \<Longrightarrow>
    hub_step env h
      (h'\<lparr>h_jobs := if ok then (h_jobs h)[i := Job_forget account] else drop_job i (h_jobs h)\<rparr>)"
| step_forget: "\<not> h_exited h \<Longrightarrow> i < length (h_jobs h) \<Longrightarrow> h_jobs h ! i = Job_forget account \<Longrightarrow>
    forget_entry account h = (sess, h') \<Longrightarrow>
    hub_step env h (h'\<lparr>h_jobs := case sess of None \<Rightarrow> drop_job i (h_jobs h) | Some p \<Rightarrow> (h_jobs h)[i := Job_close p]\<rparr>)"
| step_forgotten: "\<not> h_exited h \<Longrightarrow> i < length (h_jobs h) \<Longrightarrow> h_jobs h ! i = Job_close p \<Longrightarrow>
    hub_step env h ((close_session p h)\<lparr>h_jobs := drop_job i (h_jobs h)\<rparr>)"
| step_background: "\<not> h_exited h \<Longrightarrow> p < length (h_heap h) \<Longrightarrow> background op \<Longrightarrow>
    run_on p (run_op env op) h = (u, h') \<Longrightarrow> hub_step env h h'"
| step_machine: "\<not> h_exited h \<Longrightarrow>
    hub_step env h (h\<lparr>h_machine := (h_machine h)\<lparr>mn_files := files, mn_now := now\<rparr>\<rparr>)"

definition new_hub :: "machine \<Rightarrow> hub" where
  "new_hub m = \<lparr>h_sessions = [], h_heap = [], h_jobs = [], h_machine = m, h_out = [],
     h_closing = None, h_exited = False\<rparr>"

text \<open>The program starts with a sweep of the staging directory; its outcome is only logged.\<close>

definition start_hub :: "env \<Rightarrow> machine \<Rightarrow> hub" where
  "start_hub env m =
     (case SweepStaged (e_sorter env) (e_faults env) (mn_now m) (mn_staged m) (mn_store m) of
        (res, staged, d) \<Rightarrow> new_hub (m\<lparr>mn_staged := staged, mn_store := d\<rparr>))"

definition hub_reachable :: "env \<Rightarrow> hub \<Rightarrow> bool" where
  "hub_reachable env h \<longleftrightarrow> (\<exists>m. (hub_step env)\<^sup>*\<^sup>* (start_hub env m) h)"

end
