(* ===== verification/HubProps.thy ===== *)
theory HubProps
  imports Hub
begin

text \<open>
  What the hub of \<open>main.go\<close> keeps: a program of a session neither opens nor closes it (except \<open>Close\<close>)
  and is silent on a closed one, so every open session is in the map or about to be closed.
  The invariant is preserved by every step of the hub; the properties are the two account gates, the
  pool and the ownership of sessions, the framing of the output, one answer per request across the
  hub, and the places where the gates and the logout fall short.
\<close>

subsection \<open>A closed session stays closed and says nothing\<close>

text \<open>Blocking calls never reopen a session.\<close>

definition env_shut :: "env \<Rightarrow> bool" where
  "env_shut env \<longleftrightarrow>
     (\<forall>c q s. s_closed s \<longrightarrow> s_closed (snd (e_relay env c q s)))
     \<and> (\<forall>d s. s_closed s \<longrightarrow> s_closed (snd (e_wait env d s)))"

definition shut :: "session \<Rightarrow> bool" where
  "shut s \<longleftrightarrow> s_closed s \<and> emitted s = []"

lemma env_shut_relay: "env_shut env \<Longrightarrow> e_relay env c q s = (r, t) \<Longrightarrow> s_closed s \<Longrightarrow> s_closed t"
  unfolding env_shut_def by (metis snd_conv)

lemma env_shut_wait: "env_shut env \<Longrightarrow> e_wait env d s = (w, t) \<Longrightarrow> s_closed s \<Longrightarrow> s_closed t"
  unfolding env_shut_def by (metis snd_conv)

interpretation shut: command_invariant "\<lambda>s. env_shut env \<longrightarrow> shut s" env for env
proof
  fix c q s r t assume "e_relay env c q s = (r, t)" "env_shut env \<longrightarrow> shut s"
  then show "env_shut env \<longrightarrow> shut (t\<lparr>s_trace := s_trace s @ [stamp s (Call c q)]\<rparr>)"
    using env_shut_relay by (auto simp: shut_def emitted_def)
next
  fix d s w t assume "e_wait env d s = (w, t)" "env_shut env \<longrightarrow> shut s"
  then show "env_shut env \<longrightarrow> shut (t\<lparr>s_trace := s_trace s @ [stamp s (Pause d)]\<rparr>)"
    using env_shut_wait by (auto simp: shut_def emitted_def)
qed (auto simp: shut_def emitted_def core_def)

lemma signal_keeps_shut: "keeps (\<lambda>s. env_shut env \<longrightarrow> shut s) (relay_signal gen evt)"
  unfolding relay_signal_def requestResync_def markDirty_def Let_def
  by (intro keeps_rules shut.act_keeps keeps_update)
     (auto simp: shut_def emitted_def mark_dirty_def Let_def)

lemmas op_keeps_shut = shut.op_keeps [OF signal_keeps_shut]

subsection \<open>A session says only well-formed events\<close>

definition spoken :: "session \<Rightarrow> bool" where
  "spoken s \<longleftrightarrow> list_all wf_event (emitted s)"

interpretation speech: command_invariant spoken env for env
  by unfold_locales (auto simp: spoken_def emitted_def core_def wire_eventD wf_result_event)

lemma signal_keeps_spoken: "keeps spoken (relay_signal gen evt)"
  unfolding relay_signal_def requestResync_def markDirty_def Let_def
  by (intro keeps_rules speech.act_keeps keeps_update)
     (auto simp: spoken_def emitted_def mark_dirty_def Let_def)

subsection \<open>What a run changes in the hub\<close>

lemma run_on_frame:
  assumes "run_on p m h = (x, h')"
  shows "h_sessions h' = h_sessions h" "h_jobs h' = h_jobs h" "h_exited h' = h_exited h"
    "length (h_heap h') = length (h_heap h)" "q \<noteq> p \<Longrightarrow> h_heap h' ! q = h_heap h ! q"
    "h_closing h' = h_closing h"
  using assms by (auto simp: run_on_def split: prod.splits)

text \<open>A program that says only well-formed events and, as long as blocking calls do not reopen a session,
  is silent on a closed one and leaves it closed, and, as long as blocking calls do not close it,
  leaves an open one open.\<close>

definition stable :: "env \<Rightarrow> 'a prog \<Rightarrow> bool" where
  "stable env m \<longleftrightarrow> keeps spoken m \<and> (env_shut env \<longrightarrow> hoare shut m (\<lambda>_. shut))
     \<and> (env_open env \<longrightarrow> hoare (\<lambda>s. \<not> s_closed s) m (\<lambda>_ s. \<not> s_closed s))"

lemma stableI:
  assumes "keeps spoken m" and "keeps (\<lambda>s. env_shut env \<longrightarrow> shut s) m"
    and "says_nothing env m \<or> (\<exists>rid. answers env rid m)"
  shows "stable env m"
proof -
  have "env_shut env \<longrightarrow> hoare shut m (\<lambda>_. shut)" using assms(2) by (auto simp: hoare_def)
  moreover have "wp m (\<lambda>_ t. \<not> s_closed t) s" if s: "\<not> s_closed s" and env: "env_open env" for s
  proof -
    have "env_open env \<and> has_results (results s) s" using s env by (simp add: has_results_def)
    then show ?thesis
      using assms(3) unfolding says_nothing_def answers_def hoare_def
      by (blast intro: wp_mono dest: has_results_def [THEN iffD1])
  qed
  ultimately show ?thesis using assms(1) by (simp add: stable_def hoare_def)
qed

lemma stable_progs:
  shows "op \<noteq> OpClose \<Longrightarrow> stable env (run_op env op)" and "stable env (Logout env)" and "stable env (Restore env)"
    and "stable env (send_result rid ok msg)"
proof -
  have op: "says_nothing env (run_op env op) \<or> (\<exists>rid. answers env rid (run_op env op))" if "op \<noteq> OpClose"
  proof (cases "op_request op")
    case None
    with quiet_ops that show ?thesis by blast
  next
    case (Some rid)
    then have "answers env rid (run_op env op)" by (cases op) (auto intro: answers_commands)
    then show ?thesis by blast
  qed
  show "op \<noteq> OpClose \<Longrightarrow> stable env (run_op env op)" by (rule stableI [OF speech.op_keeps [OF signal_keeps_spoken] op_keeps_shut op])
  show "stable env (Logout env)"
    by (rule stableI [OF speech.logout_keeps shut.logout_keeps]) (blast intro: quietI count.logout_keeps)
  show "stable env (Restore env)"
    by (rule stableI [OF speech.restore_keeps shut.restore_keeps]) (blast intro: quietI count.restore_keeps)
  show "stable env (send_result rid ok msg)"
    by (rule stableI [OF speech.result_keeps shut.result_keeps]) (blast intro: answers_result)
qed

lemma run_on_stable:
  assumes "stable env m" and "run_on p m h = (x, h')" and "p < length (h_heap h)"
  shows "env_shut env \<Longrightarrow> s_closed (h_heap h ! p) \<Longrightarrow> s_closed (h_heap h' ! p)"
    and "env_open env \<Longrightarrow> \<not> s_closed (h_heap h ! p) \<Longrightarrow> \<not> s_closed (h_heap h' ! p)"
    and "env_shut env \<Longrightarrow> s_closed (h_heap h ! p) \<Longrightarrow> h_out h' = h_out h"
proof -
  let ?s = "on_machine (h_machine h) (h_heap h ! p)"
  obtain t where t: "run_state m ?s = (x, t)"
    "h' = h\<lparr>h_heap := (h_heap h)[p := t], h_machine := machine_of t,
            h_out := h_out h @ map marshal_event (emitted t)\<rparr>"
    using assms(2) by (auto simp: run_on_def split: prod.splits)
  have same: "s_closed ?s = s_closed (h_heap h ! p)" "shut ?s = s_closed (h_heap h ! p)"
    by (simp_all add: shut_def on_machine_def emitted_def)
  have "shut t" if "env_shut env" "s_closed (h_heap h ! p)"
    using hoare_run [OF _ _ t(1)] assms(1) same that unfolding stable_def by blast
  then show "env_shut env \<Longrightarrow> s_closed (h_heap h ! p) \<Longrightarrow> s_closed (h_heap h' ! p)"
    and "env_shut env \<Longrightarrow> s_closed (h_heap h ! p) \<Longrightarrow> h_out h' = h_out h"
    using t(2) assms(3) by (auto simp: shut_def)
  have "\<not> s_closed t" if "env_open env" "\<not> s_closed (h_heap h ! p)"
    using hoare_run [OF _ _ t(1)] assms(1) same that unfolding stable_def by blast
  then show "env_open env \<Longrightarrow> \<not> s_closed (h_heap h ! p) \<Longrightarrow> \<not> s_closed (h_heap h' ! p)"
    using t(2) assms(3) by auto
qed

definition event_line :: "go_string \<Rightarrow> bool" where
  "event_line line \<longleftrightarrow> (\<exists>e. wf_event e \<and> line = marshal_event e)"

lemma run_on_lines:
  assumes "stable env m" and "run_on p m h = (x, h')" and "list_all event_line (h_out h)"
  shows "list_all event_line (h_out h')"
proof -
  let ?s = "on_machine (h_machine h) (h_heap h ! p)"
  obtain t where t: "run_state m ?s = (x, t)" "h_out h' = h_out h @ map marshal_event (emitted t)"
    using assms(2) by (auto simp: run_on_def split: prod.splits)
  have "spoken ?s" by (simp add: spoken_def on_machine_def emitted_def)
  then have "spoken t" using hoare_run [OF _ _ t(1)] assms(1) unfolding stable_def by blast
  with assms(3) t(2) show ?thesis by (auto simp: spoken_def list_all_iff event_line_def)
qed

lemma close_closes: "wp Close (\<lambda>_ t. s_closed t \<and> emitted t = emitted s) s"
  by (auto simp: Close_def stop_pairing_def stop_connecting_def wp_simps emitted_def split: option.split)

lemma run_on_close:
  assumes "run_on p Close h = (x, h')" and "p < length (h_heap h)"
  shows "s_closed (h_heap h' ! p)" and "h_out h' = h_out h"
  using assms wp_run [OF close_closes]
  by (fastforce simp: run_on_def on_machine_def emitted_def split: prod.splits)+

lemma close_session_effect:
  assumes "p < length (h_heap h)"
  shows "s_closed (h_heap (close_session p h) ! p)" and "h_out (close_session p h) = h_out h"
    and "q \<noteq> p \<Longrightarrow> h_heap (close_session p h) ! q = h_heap h ! q"
    and "length (h_heap (close_session p h)) = length (h_heap h)"
    and "h_sessions (close_session p h) = h_sessions h" and "h_jobs (close_session p h) = h_jobs h"
    and "h_closing (close_session p h) = h_closing h" and "h_exited (close_session p h) = h_exited h"
proof -
  obtain x h' where run: "run_on p Close h = (x, h')" by (rule prod.exhaust)
  then have h': "close_session p h = h'" by (simp add: close_session_def)
  show "s_closed (h_heap (close_session p h) ! p)" "h_out (close_session p h) = h_out h"
    "q \<noteq> p \<Longrightarrow> h_heap (close_session p h) ! q = h_heap h ! q"
    "length (h_heap (close_session p h)) = length (h_heap h)"
    "h_sessions (close_session p h) = h_sessions h" "h_jobs (close_session p h) = h_jobs h"
    "h_closing (close_session p h) = h_closing h" "h_exited (close_session p h) = h_exited h"
    using run_on_close [OF run assms] run_on_frame [OF run] unfolding h' by auto
qed

subsection \<open>The invariant of the hub\<close>

fun job_ok :: "nat \<Rightarrow> job \<Rightarrow> bool" where
  "job_ok n (Job p op) \<longleftrightarrow> p < n \<and> op \<noteq> OpClose"
| "job_ok n (Job_logout p account) \<longleftrightarrow> p < n"
| "job_ok n (Job_forget account) \<longleftrightarrow> True"
| "job_ok n (Job_close p) \<longleftrightarrow> p < n"

definition mapped :: "hub \<Rightarrow> nat set" where
  "mapped h = snd ` set (h_sessions h)"

text \<open>Who owns an open session: a worker that has taken it from the map and is about to close it, or the
  map, and then, during a shutdown, also the main goroutine.\<close>

definition owned :: "env \<Rightarrow> hub \<Rightarrow> bool" where
  "owned env h \<longleftrightarrow>
     distinct (map fst (h_sessions h)) \<and> distinct (map snd (h_sessions h))
     \<and> (\<forall>p \<in> mapped h. p < length (h_heap h) \<and> Job_close p \<notin> set (h_jobs h))
     \<and> (\<forall>ps. h_closing h = Some ps \<longrightarrow> (\<forall>p \<in> set ps. p < length (h_heap h)))
     \<and> (env_shut env \<longrightarrow> (\<forall>p < length (h_heap h). \<not> s_closed (h_heap h ! p) \<longrightarrow>
          Job_close p \<in> set (h_jobs h) \<or> p \<in> mapped h \<and> (\<forall>ps. h_closing h = Some ps \<longrightarrow> p \<in> set ps)))
     \<and> (env_open env \<and> h_closing h = None \<longrightarrow> (\<forall>p \<in> mapped h. \<not> s_closed (h_heap h ! p)))"

definition hub_inv :: "env \<Rightarrow> hub \<Rightarrow> bool" where
  "hub_inv env h \<longleftrightarrow> owned env h
     \<and> length (h_jobs h) \<le> maxCommandWorkers
     \<and> list_all (job_ok (length (h_heap h))) (h_jobs h)
     \<and> list_all event_line (h_out h)"

lemma job_ok_mono: "job_ok m j \<Longrightarrow> m \<le> n \<Longrightarrow> job_ok n j"
  by (cases j) auto

lemma hub_frame [simp]:
  "hub_inv env (h\<lparr>h_machine := m\<rparr>) = hub_inv env h"
  by (simp add: owned_def hub_inv_def mapped_def)

lemma serving_frame [simp]:
  "serving (h\<lparr>h_jobs := js\<rparr>) = serving h" "serving (hub_write evt h) = serving h"
  by (simp_all add: serving_def hub_write_def)

lemma session_effect:
  assumes "hub_session account h = (p, h')" and "hub_inv env h" and "serving h"
  shows "hub_inv env h' \<and> map_of (h_sessions h') account = Some p \<and> p < length (h_heap h')
    \<and> h_jobs h' = h_jobs h \<and> h_out h' = h_out h \<and> serving h'
    \<and> (env_open env \<longrightarrow> \<not> s_closed (h_heap h' ! p))"
proof (cases "map_of (h_sessions h) account")
  case None
  then have new: "account \<notin> fst ` set (h_sessions h)" by (simp add: map_of_eq_None_iff)
  have bound: "length (h_heap h) \<notin> mapped h" "Job_close (length (h_heap h)) \<notin> set (h_jobs h)"
    using assms(2) by (auto simp: hub_inv_def owned_def list_all_iff)
  have jobs: "list_all (job_ok (Suc (length (h_heap h)))) (h_jobs h)"
    using assms(2) job_ok_mono unfolding hub_inv_def list_all_iff by (metis le_SucI order_refl)
  let ?new = "NewSession account (mn_store (h_machine h)) (mn_staged (h_machine h))
    (mn_sweep (h_machine h)) (mn_now (h_machine h))"
  have h': "p = length (h_heap h)" "h' = h\<lparr>h_heap := h_heap h @ [?new],
      h_sessions := (account, length (h_heap h)) # h_sessions h\<rparr>"
    using assms(1) None by (auto simp: hub_session_def)
  have open_new: "\<not> s_closed ?new" by (simp add: NewSession_def)
  have "owned env h'"
    using assms(2,3) new bound open_new
    by (auto simp: h' hub_inv_def owned_def mapped_def serving_def nth_append less_Suc_eq)
  with assms(2,3) jobs open_new show ?thesis by (simp add: h' hub_inv_def serving_def)
next
  case (Some q)
  then have "q \<in> mapped h" unfolding mapped_def by (auto dest: map_of_SomeD intro: rev_image_eqI)
  with Some assms show ?thesis by (auto simp: hub_session_def hub_inv_def owned_def serving_def)
qed

lemma inv_run:
  assumes "stable env m" and "run_on p m h = (x, h')" and "p < length (h_heap h)" and "hub_inv env h"
  shows "hub_inv env h'"
proof -
  note fr = run_on_frame [OF assms(2)]
  have closed: "env_shut env \<Longrightarrow> s_closed (h_heap h ! q) \<Longrightarrow> s_closed (h_heap h' ! q)"
    "env_open env \<Longrightarrow> \<not> s_closed (h_heap h ! q) \<Longrightarrow> \<not> s_closed (h_heap h' ! q)" for q
    using run_on_stable(1,2) [OF assms(1-3)] fr(5) [of q] by (cases "q = p"; auto)+
  have "mapped h' = mapped h" by (simp add: mapped_def fr)
  then have "owned env h'" using assms(4) fr(1-4,6) closed unfolding hub_inv_def owned_def by simp blast
  with assms(4) fr run_on_lines [OF assms(1,2)] show ?thesis by (simp add: hub_inv_def)
qed

lemma inv_write [simp]: "wf_event evt \<Longrightarrow> hub_inv env (hub_write evt h) = hub_inv env h"
proof -
  assume "wf_event evt"
  then have "event_line (marshal_event evt)" by (auto simp: event_line_def)
  moreover have "owned env (hub_write evt h) = owned env h" by (simp add: owned_def mapped_def hub_write_def)
  ultimately show ?thesis by (simp add: hub_inv_def hub_write_def)
qed

lemma hub_events [simp]: "wf_event hello_event" "wf_event (error_event account msg)"
  by (simp_all add: hello_event_def wf_event_def event_defs event_tokens_def nonNilConversations_def
      nonNilMessages_def)

lemma owned_jobs:
  "owned env h \<Longrightarrow> (\<And>p. Job_close p \<in> set js \<longleftrightarrow> Job_close p \<in> set (h_jobs h)) \<Longrightarrow> owned env (h\<lparr>h_jobs := js\<rparr>)"
  by (simp add: owned_def mapped_def)

lemma inv_spawn:
  assumes "spawn j h = (ok, h')" and "job_ok (length (h_heap h)) j" and "\<And>p. j \<noteq> Job_close p" and "hub_inv env h"
  shows "hub_inv env h'"
proof -
  have "Job_close p \<in> set (h_jobs h @ [j]) \<longleftrightarrow> Job_close p \<in> set (h_jobs h)" for p
    using assms(3) [of p] by auto
  then show ?thesis
    using assms(1,2,4) owned_jobs [of env h "h_jobs h @ [j]"] by (auto simp: spawn_def hub_inv_def split: if_splits)
qed

lemma inv_result:
  assumes "hub_inv env h" and "p < length (h_heap h)"
  shows "hub_inv env (snd (run_on p (send_result rid ok msg) h))"
  using inv_run [OF stable_progs(4) _ assms(2,1)] by (metis prod.collapse)

lemma inv_async:
  assumes "hub_inv env h" and "serving h" and "\<And>p n. p < n \<Longrightarrow> job_ok n (fn p)" and "\<And>p q. fn p \<noteq> Job_close q"
  shows "hub_inv env (dispatchAsync account rid fn h)"
proof -
  obtain p h1 where ses: "hub_session account h = (p, h1)" by (rule prod.exhaust)
  obtain ok h2 where sp: "spawn (fn p) h1 = (ok, h2)" by (rule prod.exhaust)
  note one = session_effect [OF ses assms(1,2)]
  have two: "hub_inv env h2" by (rule inv_spawn [OF sp]) (use one assms(3,4) in blast)+
  have "p < length (h_heap h2)" using one sp by (auto simp: spawn_def split: if_splits)
  with two inv_result show ?thesis
    by (simp add: dispatchAsync_def ses sp hub_error_def)
qed

lemma inv_restore:
  assumes "hub_inv env h" and "serving h"
  shows "hub_inv env (restore env h) \<and> serving (restore env h)"
proof -
  let ?step = "\<lambda>account h. if \<not> validAccount account then h
    else case hub_session account h of (p, h) \<Rightarrow> snd (run_on p (Restore env) h)"
  have one: "hub_inv env (?step account h) \<and> serving (?step account h)"
    if "hub_inv env h" "serving h" for account h
  proof -
    obtain p h1 where ses: "hub_session account h = (p, h1)" by (rule prod.exhaust)
    obtain x h2 where run: "run_on p (Restore env) h1 = (x, h2)" by (rule prod.exhaust)
    note i = session_effect [OF ses that]
    from i inv_run [OF stable_progs(3) run, of] run_on_frame(3,6) [OF run] ses run that
    show ?thesis by (simp add: serving_def)
  qed
  have "hub_inv env (fold ?step accounts h) \<and> serving (fold ?step accounts h)" for accounts
    using assms by (induction accounts arbitrary: h) (use one in auto)
  then show ?thesis unfolding restore_def by blast
qed

lemma plan_jobs:
  assumes "command_plan cmd = Plan_async account rid fn"
  shows "p < n \<Longrightarrow> job_ok n (fn p)" and "fn p \<noteq> Job_close q"
  using assms by (auto simp: command_plan_def login_plan_def Let_def split: if_splits option.splits)

lemma inv_dispatch:
  assumes "hub_inv env h" and "serving h"
  shows "hub_inv env (dispatch env cmd h)"
proof (cases "command_plan cmd")
  case Plan_hello
  have "hub_inv env (hub_write hello_event h)" using assms by simp
  moreover have "serving (hub_write hello_event h)" using assms by simp
  ultimately show ?thesis using Plan_hello inv_restore by (simp add: dispatch_def)
next
  case (Plan_result account rid msg)
  obtain p h1 where ses: "hub_session account h = (p, h1)" by (rule prod.exhaust)
  with session_effect [OF ses assms] inv_result Plan_result show ?thesis
    by (simp add: dispatch_def)
next
  case (Plan_async account rid fn)
  with inv_async [OF assms plan_jobs [OF this]] show ?thesis by (simp add: dispatch_def)
qed (use assms in \<open>simp_all add: dispatch_def hub_error_def\<close>)

subsection \<open>Closing\<close>

lemma set_drop_job: "i < length js \<Longrightarrow> set js = insert (js ! i) (set (drop_job i js))"
  by (metis drop_job_def id_take_nth_drop list.simps(15) set_append Un_insert_right)

lemma length_drop_job: "length (drop_job i js) \<le> length js"
  by (simp add: drop_job_def)

lemma inv_jobs:
  assumes "hub_inv env h" and "length js \<le> length (h_jobs h)"
    and "\<And>j. j \<in> set js \<Longrightarrow> j \<in> set (h_jobs h) \<or> (\<exists>a. j = Job_forget a)"
    and "\<And>p. Job_close p \<in> set (h_jobs h) \<Longrightarrow> Job_close p \<in> set js"
  shows "hub_inv env (h\<lparr>h_jobs := js\<rparr>)"
proof -
  have "Job_close p \<in> set js \<longleftrightarrow> Job_close p \<in> set (h_jobs h)" for p using assms(3,4) by blast
  then have "owned env (h\<lparr>h_jobs := js\<rparr>)" using owned_jobs assms(1) by (simp add: hub_inv_def)
  moreover have "list_all (job_ok (length (h_heap h))) js"
    using assms(1,3) unfolding hub_inv_def list_all_iff by (metis job_ok.simps(3))
  ultimately show ?thesis using assms(1,2) by (simp add: hub_inv_def)
qed

lemma inv_drop:
  assumes "hub_inv env h" and "i < length (h_jobs h)" and "\<And>p. h_jobs h ! i \<noteq> Job_close p"
  shows "hub_inv env (h\<lparr>h_jobs := drop_job i (h_jobs h)\<rparr>)"
proof (rule inv_jobs [OF assms(1) length_drop_job])
  note js = set_drop_job [OF assms(2)]
  show "j \<in> set (h_jobs h) \<or> (\<exists>a. j = Job_forget a)" if "j \<in> set (drop_job i (h_jobs h))" for j
    using that js by simp
  show "Job_close p \<in> set (drop_job i (h_jobs h))" if "Job_close p \<in> set (h_jobs h)" for p
    using that js assms(3) [of p, symmetric] by simp
qed

lemma delete_mapped:
  assumes "distinct (map fst S)" and "distinct (map snd S)" and "map_of S account = Some p"
  shows "q \<in> snd ` set (AList.delete account S) \<longleftrightarrow> q \<in> snd ` set S \<and> q \<noteq> p"
    and "distinct (map fst (AList.delete account S))" and "distinct (map snd (AList.delete account S))"
proof -
  have mem: "(account, p) \<in> set S" using assms(3) by (rule map_of_SomeD)
  have "b = p \<longleftrightarrow> a = account" if "(a, b) \<in> set S" for a b
    using that mem assms(1,2) by (metis distinct_map inj_onD fst_conv snd_conv)
  then show "q \<in> snd ` set (AList.delete account S) \<longleftrightarrow> q \<in> snd ` set S \<and> q \<noteq> p"
    by (fastforce simp: AList.delete_eq)
  show "distinct (map fst (AList.delete account S))" "distinct (map snd (AList.delete account S))"
    using assms(1,2) by (auto simp: distinct_delete AList.delete_eq distinct_map_filter)
qed

text \<open>The worker of a logout takes the session over from the map, and closes it in a second step.\<close>

lemma inv_forget_entry:
  assumes "hub_inv env h" and "i < length (h_jobs h)" and "h_jobs h ! i = Job_forget account"
    and "forget_entry account h = (sess, h')"
  shows "hub_inv env (h'\<lparr>h_jobs := case sess of None \<Rightarrow> drop_job i (h_jobs h) | Some p \<Rightarrow> (h_jobs h)[i := Job_close p]\<rparr>)"
proof (cases "map_of (h_sessions h) account")
  case None
  then show ?thesis using assms inv_drop [OF assms(1,2)] by (auto simp: forget_entry_def)
next
  case (Some p)
  define g where "g = h\<lparr>h_sessions := AList.delete account (h_sessions h), h_jobs := (h_jobs h)[i := Job_close p]\<rparr>"
  have own: "owned env h" using assms(1) by (simp add: hub_inv_def)
  have keys: "distinct (map fst (h_sessions h))" "distinct (map snd (h_sessions h))" using own by (simp_all add: owned_def)
  note del = delete_mapped [OF keys Some]
  have "q \<in> mapped g \<longleftrightarrow> q \<in> mapped h \<and> q \<noteq> p" for q using del(1) [of q] by (simp add: mapped_def g_def)
  then have m: "mapped g = mapped h - {p}" by blast
  have p: "p \<in> mapped h" using Some unfolding mapped_def by (force dest: map_of_SomeD)
  have j: "j \<in> set (h_jobs g) \<longleftrightarrow> j \<in> set (drop_job i (h_jobs h)) \<or> j = Job_close p" for j
  proof -
    have "h_jobs g = take i (h_jobs h) @ Job_close p # drop (Suc i) (h_jobs h)"
      using assms(2) by (simp add: g_def upd_conv_take_nth_drop)
    then show ?thesis by (auto simp: drop_job_def)
  qed
  have jobs: "Job_close q \<in> set (h_jobs g) \<longleftrightarrow> Job_close q \<in> set (h_jobs h) \<or> q = p" for q
    using j set_drop_job [OF assms(2)] assms(3) by auto
  have same: "h_heap g = h_heap h" "h_closing g = h_closing h" "h_sessions g = AList.delete account (h_sessions h)"
    by (simp_all add: g_def)
  have "owned env g"
    using own del(2,3) unfolding owned_def m jobs same by (simp add: p) blast
  moreover have "list_all (job_ok (length (h_heap g))) (h_jobs g)"
    using assms(1) set_drop_job [OF assms(2)] own p
    by (auto simp: hub_inv_def list_all_iff same j owned_def)
  ultimately have "hub_inv env g" using assms(1) by (simp add: hub_inv_def g_def)
  moreover have "sess = Some p" "h' = h\<lparr>h_sessions := AList.delete account (h_sessions h)\<rparr>"
    using assms(4) Some by (simp_all add: forget_entry_def)
  ultimately show ?thesis by (simp add: g_def)
qed

lemma inv_forgotten:
  assumes "hub_inv env h" and "i < length (h_jobs h)" and "h_jobs h ! i = Job_close p"
  shows "hub_inv env ((close_session p h)\<lparr>h_jobs := drop_job i (h_jobs h)\<rparr>)"
proof -
  have p: "p < length (h_heap h)" using assms by (auto simp: hub_inv_def list_all_length dest: spec [of _ i])
  note cl = close_session_effect [OF p]
  define g where "g = (close_session p h)\<lparr>h_jobs := drop_job i (h_jobs h)\<rparr>"
  have own: "owned env h" and free: "p \<notin> mapped h"
    using assms by (auto simp: hub_inv_def owned_def dest: nth_mem)
  note js = set_drop_job [OF assms(2)]
  have same: "h_sessions g = h_sessions h" "h_closing g = h_closing h" "length (h_heap g) = length (h_heap h)"
    "mapped g = mapped h" "h_out g = h_out h" "h_jobs g = drop_job i (h_jobs h)" by (simp_all add: g_def cl mapped_def)
  have heap: "s_closed (h_heap g ! p)" "q \<noteq> p \<Longrightarrow> h_heap g ! q = h_heap h ! q" for q by (simp_all add: g_def cl)
  have sub: "Job_close q \<in> set (h_jobs g) \<Longrightarrow> Job_close q \<in> set (h_jobs h)" for q using js by (simp add: same)
  have keep: "q \<noteq> p \<Longrightarrow> Job_close q \<in> set (h_jobs h) \<Longrightarrow> Job_close q \<in> set (h_jobs g)" for q
    using js assms(3) by (simp add: same)
  have "owned env g"
    unfolding owned_def same(1-4)
  proof (intro conjI impI ballI allI)
    fix q assume env: "env_shut env" and q: "q < length (h_heap h)" "\<not> s_closed (h_heap g ! q)"
    then have "q \<noteq> p" using heap(1) by auto
    with own env q heap(2) keep show "Job_close q \<in> set (h_jobs g) \<or>
        q \<in> mapped h \<and> (\<forall>ps. h_closing h = Some ps \<longrightarrow> q \<in> set ps)"
      unfolding owned_def by metis
  next
    fix q assume "env_open env \<and> h_closing h = None" "q \<in> mapped h"
    with own free heap(2) show "\<not> s_closed (h_heap g ! q)" unfolding owned_def by metis
  qed (use own sub in \<open>auto simp: owned_def\<close>)
  moreover have "list_all (job_ok (length (h_heap g))) (h_jobs g)"
    using assms(1) js unfolding same by (auto simp: hub_inv_def list_all_iff)
  moreover have "length (h_jobs g) \<le> maxCommandWorkers"
    using assms(1) length_drop_job [of i "h_jobs h"] unfolding same by (simp add: hub_inv_def)
  ultimately show ?thesis using assms(1) unfolding g_def [symmetric] by (simp add: hub_inv_def same)
qed

text \<open>The main goroutine closes what it copied.\<close>

lemma inv_shutdown: "hub_inv env h \<Longrightarrow> hub_inv env (shutdown h)"
  by (auto simp: hub_inv_def owned_def mapped_def shutdown_def)

lemma inv_close:
  assumes "hub_inv env h" and "h_closing h = Some ps" and "i < length ps"
  shows "hub_inv env ((close_session (ps ! i) h)\<lparr>h_closing := Some (drop_job i ps)\<rparr>)"
proof -
  let ?p = "ps ! i"
  have own: "owned env h" using assms(1) by (simp add: hub_inv_def)
  have p: "?p < length (h_heap h)" using own assms(2,3) by (simp add: owned_def)
  note cl = close_session_effect [OF p] and js = set_drop_job [OF assms(3)]
  define g where "g = (close_session ?p h)\<lparr>h_closing := Some (drop_job i ps)\<rparr>"
  have same: "h_sessions g = h_sessions h" "length (h_heap g) = length (h_heap h)" "mapped g = mapped h"
    "h_closing g = Some (drop_job i ps)" "h_jobs g = h_jobs h" "h_out g = h_out h"
    by (simp_all add: g_def cl mapped_def)
  have heap: "s_closed (h_heap g ! ?p)" "q \<noteq> ?p \<Longrightarrow> h_heap g ! q = h_heap h ! q" for q by (simp_all add: g_def cl)
  have "owned env g"
    unfolding owned_def same(1-5)
  proof (intro conjI impI ballI allI)
    fix q assume env: "env_shut env" and q: "q < length (h_heap h)" "\<not> s_closed (h_heap g ! q)"
    then have ne: "q \<noteq> ?p" using heap(1) by auto
    with own env q heap(2) assms(2) have "Job_close q \<in> set (h_jobs h) \<or> q \<in> mapped h \<and> q \<in> set ps"
      unfolding owned_def by metis
    with ne js show "Job_close q \<in> set (h_jobs h) \<or>
        q \<in> mapped h \<and> (\<forall>ps'. Some (drop_job i ps) = Some ps' \<longrightarrow> q \<in> set ps')" by auto
  qed (use own js assms(2) in \<open>auto simp: owned_def\<close>)
  then show ?thesis using assms(1) unfolding g_def [symmetric] by (simp add: hub_inv_def same)
qed

subsection \<open>Reachable hubs\<close>

lemma inv_serve:
  "hub_inv env h \<Longrightarrow> serving h \<Longrightarrow> hub_inv env (serve_line env line h)"
  by (simp add: serve_line_def hub_error_def inv_dispatch inv_shutdown split: option.split)

lemma job_in_range:
  "hub_inv env h \<Longrightarrow> i < length (h_jobs h) \<Longrightarrow> job_ok (length (h_heap h)) (h_jobs h ! i)"
  by (simp add: hub_inv_def list_all_length)

lemma background_not_close: "background op \<Longrightarrow> op \<noteq> OpClose"
  by auto

lemma inv_step:
  assumes "hub_step env h h'" and "hub_inv env h"
  shows "hub_inv env h'"
  using assms(1)
proof (cases rule: hub_step.cases)
  case (step_line line)
  with inv_serve assms(2) show ?thesis by blast
next
  case step_eof
  with inv_shutdown assms(2) show ?thesis by blast
next
  case (step_close ps i)
  with inv_close assms(2) show ?thesis by blast
next
  case step_exit
  with assms(2) show ?thesis by (simp add: hub_inv_def owned_def mapped_def)
next
  case (step_job i p op u h1)
  with job_in_range [OF assms(2), of i] have ok: "p < length (h_heap h)" "op \<noteq> OpClose" by auto
  have "hub_inv env h1" by (rule inv_run [OF stable_progs(1) [OF ok(2)] step_job(5) ok(1) assms(2)])
  from inv_drop [OF this, of i] step_job run_on_frame(2) [OF step_job(5)] show ?thesis by simp
next
  case (step_logout i p account ok h1)
  with job_in_range [OF assms(2), of i] have p: "p < length (h_heap h)" by auto
  have h1: "hub_inv env h1" by (rule inv_run [OF stable_progs(2) step_logout(5) p assms(2)])
  note jobs = run_on_frame(2) [OF step_logout(5)]
  have "hub_inv env (h1\<lparr>h_jobs := (h_jobs h)[i := Job_forget account]\<rparr>)"
  proof (rule inv_jobs [OF h1])
    show "j \<in> set (h_jobs h1) \<or> (\<exists>a. j = Job_forget a)" if "j \<in> set ((h_jobs h)[i := Job_forget account])" for j
      using that unfolding jobs by (auto dest: set_update_subset_insert [THEN subsetD])
    show "Job_close q \<in> set ((h_jobs h)[i := Job_forget account])" if "Job_close q \<in> set (h_jobs h1)" for q
      using that step_logout(3,4) unfolding jobs
      by (metis in_set_conv_nth job.distinct(9) length_list_update nth_list_update_neq)
  qed (simp add: jobs)
  with inv_drop [OF h1, of i] step_logout jobs show ?thesis by simp
next
  case (step_forget i account sess h1)
  with inv_forget_entry [OF assms(2)] show ?thesis by blast
next
  case (step_forgotten i p)
  with inv_forgotten [OF assms(2)] show ?thesis by blast
next
  case (step_background p op u)
  show ?thesis
    by (rule inv_run [OF stable_progs(1) [OF background_not_close] step_background(4,2) assms(2)])
       (rule step_background(3))
next
  case (step_machine files now)
  with assms(2) show ?thesis by simp
qed

lemma inv_start: "hub_inv env (start_hub env m)" "serving (start_hub env m)"
  by (simp_all add: start_hub_def new_hub_def hub_inv_def owned_def mapped_def serving_def split: prod.split)

lemma inv_reachable:
  assumes "hub_reachable env h"
  shows "hub_inv env h"
proof -
  obtain m where "(hub_step env)\<^sup>*\<^sup>* (start_hub env m) h"
    using assms(1) by (auto simp: hub_reachable_def)
  then show ?thesis
    by (induction rule: rtranclp_induct) (use inv_start(1) inv_step in blast)+
qed

lemma reachable_start: "hub_reachable env (start_hub env m)"
  unfolding hub_reachable_def by blast

subsection \<open>Properties\<close>

text \<open>The command gate and the storage gate accept the same accounts.\<close>

lemma gates_agree: "validAccount account \<longleftrightarrow> accountFile account \<noteq> None"
proof -
  have "runes [CHR ''/'', CHR 0x5C, CHR ''.''] = [byte CHR ''/'', 0x5C, byte CHR ''.'']" by code_simp
  then have "contains_any account [CHR ''/'', CHR 0x5C, CHR ''.''] \<longleftrightarrow>
      (\<exists>r \<in> set (runes account). r = byte CHR ''/'' \<or> r = 0x5C \<or> r = byte CHR ''.'')"
    by (auto simp: contains_any_def list_ex_iff)
  then show ?thesis
    by (auto simp: validAccount_def accountFile_def contains_func_def list_ex_iff)
qed

text \<open>C22: the pool and the sessions. In every reachable state, down to the steps between the locks, at
  most 16 commands run; the map holds each account and each session once; and no open session is
  lost: it is either in the map, and then, during a shutdown, among those the main goroutine still
  closes, or owned by a worker that has taken it from the map and is about to close it. Such a
  session is no longer in the map, and until the shutdown every session in the map is open. The
  first part only needs that blocking calls do not reopen a session, the last that they do not close
  one. (Between the two steps of that worker a command for the same account makes a second session,
  while the first is still open: see \<open>forget_window\<close>.)\<close>

theorem hub_owns_sessions:
  assumes "env_shut env" and "hub_reachable env h"
  shows "length (h_jobs h) \<le> 16
    \<and> distinct (map fst (h_sessions h)) \<and> distinct (map snd (h_sessions h))
    \<and> (\<forall>p < length (h_heap h). \<not> s_closed (h_heap h ! p) \<longrightarrow>
         Job_close p \<in> set (h_jobs h)
         \<or> (\<exists>account. (account, p) \<in> set (h_sessions h)) \<and> (\<forall>ps. h_closing h = Some ps \<longrightarrow> p \<in> set ps))
    \<and> (\<forall>account p. (account, p) \<in> set (h_sessions h) \<longrightarrow>
         Job_close p \<notin> set (h_jobs h) \<and> (env_open env \<and> h_closing h = None \<longrightarrow> \<not> s_closed (h_heap h ! p)))"
proof -
  have m: "p \<in> mapped h \<longleftrightarrow> (\<exists>account. (account, p) \<in> set (h_sessions h))" for p
    unfolding mapped_def by force
  have "owned env h" "length (h_jobs h) \<le> 16"
    using inv_reachable [OF assms(2)] by (simp_all add: hub_inv_def maxCommandWorkers_def)
  with assms(1) show ?thesis unfolding owned_def Ball_def m by blast
qed

text \<open>C23: the output is one well-formed event per line. Every line the program ever writes, whatever
  the relay answers and however the sessions interleave, is the JSON of an event of the contract:
  its type is known, each conversation in it has an id and distinct, named participants with at most
  one local user, each message has an id and clean text, a status is one of the nine signals, and a
  result with an error is a failure. A JSON parser reads the line back as the object of exactly the
  event's members. It holds no byte below the space, so no text from the relay, the daemon or the
  phone can break the framing.\<close>

theorem output_is_lines:
  assumes "hub_reachable env h" and "line \<in> set (h_out h)"
  shows "(\<exists>e. wf_event e \<and> line = marshal_event e
      \<and> parse_json line = Some (V_obj (read_members (sort_key fst (event_members e)))))
    \<and> (\<forall>c \<in> set line. 0x20 \<le> byte c)"
proof -
  have "event_line line"
    using inv_reachable [OF assms(1)] assms(2) by (simp add: hub_inv_def list_all_iff)
  then obtain e where "wf_event e" "line = marshal_event e" by (auto simp: event_line_def)
  moreover from this have "printable line" by (simp add: printable_marshal_event)
  ultimately show ?thesis using event_line_parses by (auto simp: printable_def list_all_iff)
qed

text \<open>What a run writes, up to command results.\<close>

lemma results_emitted: "results s = filter (\<lambda>e. ev_Type e = ''command_result'') (emitted s)"
proof -
  have "concat (map result_of es) = filter (\<lambda>e. ev_Type e = ''command_result'') (concat (map emitted_of es))" for es
    by (induction es) (auto simp: result_of_def emitted_of_def split: action.split)
  then show ?thesis by (simp add: results_def emitted_def)
qed

definition writes :: "hub \<Rightarrow> event list \<Rightarrow> hub \<Rightarrow> bool" where
  "writes h evs h' \<longleftrightarrow> h_out h' = h_out h @ map marshal_event evs"

definition command_results :: "event list \<Rightarrow> event list" where
  "command_results evs = filter (\<lambda>e. ev_Type e = ''command_result'') evs"

lemma job_answers:
  assumes "env_open env" and "op_request op = Some rid" and "p < length (h_heap h)"
    and "\<not> s_closed (h_heap h ! p)" and "run_on p (run_op env op) h = (u, h')"
  shows "\<exists>evs ok err. writes h evs h' \<and> command_results evs = [result_event rid ok err]"
proof -
  let ?s = "on_machine (h_machine h) (h_heap h ! p)"
  obtain t where t: "run_state (run_op env op) ?s = (u, t)" "h_out h' = h_out h @ map marshal_event (emitted t)"
    using assms(5) by (auto simp: run_on_def split: prod.splits)
  have s: "\<not> s_closed ?s" "results ?s = []" using assms(4) by (simp_all add: on_machine_def results_def)
  have "answers env rid (run_op env op)" using assms(2) by (cases op) (auto intro: answers_commands)
  then have "hoare (\<lambda>s. env_open env \<and> has_results [] s) (run_op env op)
      (\<lambda>_ s. \<exists>ok err. has_results ([] @ [result_event rid ok err]) s)"
    unfolding answers_def by blast
  from hoare_run [OF this _ t(1)] s assms(1)
  obtain ok err where "results t = [result_event rid ok err]" by (auto simp: has_results_def)
  then have "writes h (emitted t) h' \<and> command_results (emitted t) = [result_event rid ok err]"
    using t(2) by (simp add: writes_def command_results_def results_emitted)
  then show ?thesis by blast
qed

lemma plan_request:
  "command_plan cmd = Plan_async account rid fn \<Longrightarrow> rid \<noteq> [] \<Longrightarrow>
     \<exists>op. fn p = Job p op \<and> op_request op = Some rid"
  by (auto simp: command_plan_def login_plan_def Let_def split: if_splits option.splits)

lemma dispatch_answered:
  assumes "env_open env" and "hub_reachable env h" and "serving h"
    and "command_plan cmd = Plan_async account rid fn" and "rid \<noteq> []"
  shows "(length (h_jobs h) = 16 \<and> h_jobs (dispatch env cmd h) = h_jobs h
      \<and> writes h [result_event rid False ''busy''] (dispatch env cmd h))
    \<or> (\<exists>p op. map_of (h_sessions (dispatch env cmd h)) account = Some p
        \<and> h_jobs (dispatch env cmd h) = h_jobs h @ [Job p op] \<and> writes h [] (dispatch env cmd h)
        \<and> (\<forall>h1 u h2. p < length (h_heap h1) \<and> \<not> s_closed (h_heap h1 ! p)
              \<and> run_on p (run_op env op) h1 = (u, h2) \<longrightarrow>
            (\<exists>evs ok err. writes h1 evs h2 \<and> command_results evs = [result_event rid ok err])))"
proof -
  have inv: "hub_inv env h" by (rule inv_reachable [OF assms(2)])
  obtain p h1 where ses: "hub_session account h = (p, h1)" by (rule prod.exhaust)
  note one = session_effect [OF ses inv assms(3)]
  obtain op where op: "fn p = Job p op" "op_request op = Some rid"
    using plan_request [OF assms(4,5)] by blast
  have bound: "length (h_jobs h) \<le> 16" using inv by (simp add: hub_inv_def maxCommandWorkers_def)
  show ?thesis
  proof (cases "length (h_jobs h) < 16")
    case True
    then have sp: "spawn (fn p) h1 = (True, h1\<lparr>h_jobs := h_jobs h @ [Job p op]\<rparr>)"
      using one op by (simp add: spawn_def maxCommandWorkers_def)
    have d: "dispatch env cmd h = h1\<lparr>h_jobs := h_jobs h @ [Job p op]\<rparr>"
      by (simp add: dispatch_def assms(4) dispatchAsync_def ses sp)
    have "\<exists>evs ok err. writes g evs g' \<and> command_results evs = [result_event rid ok err]"
      if "p < length (h_heap g) \<and> \<not> s_closed (h_heap g ! p) \<and> run_on p (run_op env op) g = (u, g')" for g u g'
      using job_answers [OF assms(1) op(2)] that by blast
    then show ?thesis using one unfolding d by (intro disjI2 exI [of _ p] exI [of _ op]) (simp add: writes_def)
  next
    case False
    then have sp: "spawn (fn p) h1 = (False, h1)"
      using one by (simp add: spawn_def maxCommandWorkers_def)
    obtain x h2 where run: "run_on p (send_result rid False ''busy'') h1 = (x, h2)" by (rule prod.exhaust)
    have d: "dispatch env cmd h = h2"
      using assms(5) by (simp add: dispatch_def assms(4) dispatchAsync_def ses sp run)
    have "\<not> s_closed (h_heap h1 ! p)" using one assms(1) by blast
    then have "run_state (send_result rid False ''busy'') (on_machine (h_machine h1) (h_heap h1 ! p))
        = ((), on_machine (h_machine h1) (h_heap h1 ! p)\<lparr>s_trace := [stamp (on_machine (h_machine h1) (h_heap h1 ! p))
            (Emit (result_event rid False ''busy''))]\<rparr>)"
      by (simp add: send_result_def fire_def alive_def act_def on_machine_def State_Monad.get_def stamp_def)
    then have "h_out h2 = h_out h1 @ [marshal_event (result_event rid False ''busy'')]"
      using run by (auto simp: run_on_def emitted_def)
    then show ?thesis
      using False bound one run_on_frame(2) [OF run] unfolding d by (simp add: writes_def)
  qed
qed

lemma blank_malformed: "trimSpace line = [] \<Longrightarrow> decodeCommand line = None"
proof -
  assume "trimSpace line = []"
  then have "list_all json_space line"
    by (auto simp: trimSpace_def json_space_def list_all_iff)
  then have "tokenize line = Some []" by (induction line) (simp_all add: tokenize.simps)
  then show ?thesis by (simp add: decodeCommand_def parse_json_def)
qed

lemma serve_request:
  assumes "decodeCommand line = Some cmd" and "length line < maxLine"
    and "command_plan cmd = Plan_async account rid fn"
  shows "serve_line env line h = dispatch env cmd h"
proof -
  have "cmd_Type cmd \<noteq> ''shutdown''" using assms(3) by (auto simp: command_plan_def Let_def)
  moreover have "trimSpace line \<noteq> []" using blank_malformed assms(1) by fastforce
  ultimately show ?thesis using assms(1,2) by (simp add: serve_line_def)
qed

text \<open>C24: every accepted request is answered exactly once, across the hub. When a line of the input
  decodes to a command with a request id that \<open>dispatch\<close> accepts, either the pool is full and the one
  line written is the busy result of that id, or one job is queued and nothing is written; and that
  job, whenever it runs while its session is open, writes exactly one command result, for that id.\<close>

theorem request_answered:
  assumes "env_open env" and "hub_reachable env h" and "serving h"
    and "decodeCommand line = Some cmd" and "length line < maxLine"
    and "command_plan cmd = Plan_async account rid fn" and "rid \<noteq> []"
  shows "(length (h_jobs h) = 16 \<and> h_jobs (serve_line env line h) = h_jobs h
      \<and> writes h [result_event rid False ''busy''] (serve_line env line h))
    \<or> (\<exists>p op. map_of (h_sessions (serve_line env line h)) account = Some p
        \<and> h_jobs (serve_line env line h) = h_jobs h @ [Job p op] \<and> writes h [] (serve_line env line h)
        \<and> (\<forall>h1 u h2. p < length (h_heap h1) \<and> \<not> s_closed (h_heap h1 ! p)
              \<and> run_on p (run_op env op) h1 = (u, h2) \<longrightarrow>
            (\<exists>evs ok err. writes h1 evs h2 \<and> command_results evs = [result_event rid ok err])))"
  unfolding serve_request [OF assms(4-6)] by (rule dispatch_answered [OF assms(1-3,6,7)])

text \<open>The gates of \<open>dispatch\<close> disagree on rejected requests. An account name the program refuses
  everywhere else still gets a session from \<open>send_media\<close>, while the other requests with such an account, or \<open>send_text\<close> without a conversation, change nothing
  and get no answer at all, whatever their request id.\<close>

theorem rejected_requests_disagree:
  assumes "\<not> validAccount (cmd_Account cmd)"
  shows "(cmd_Type cmd = ''send_media'' \<longrightarrow>
        map_of (h_sessions (dispatch env cmd h)) (cmd_Account cmd) \<noteq> None)
    \<and> (cmd_Type cmd \<in> {''send_text'', ''react'', ''delete_message'', ''open_conversation''} \<longrightarrow>
        dispatch env cmd h = h)"
proof -
  obtain p h1 where ses: "hub_session (cmd_Account cmd) h = (p, h1)" by (rule prod.exhaust)
  then have mapped: "map_of (h_sessions h1) (cmd_Account cmd) \<noteq> None"
    by (auto simp: hub_session_def split: option.splits)
  obtain x h2 where run: "run_on p (send_result (cmd_RequestID cmd) False ''unreadable file'') h1 = (x, h2)"
    by (rule prod.exhaust)
  show ?thesis
    using assms mapped run_on_frame(1) [OF run]
    by (auto simp: dispatch_def command_plan_def Let_def ses run)
qed

text \<open>Between the two steps of \<open>forget\<close> the account has no map entry, but its session is still open: a
  command that arrives then makes a second session of the same account.\<close>

lemma forget_window:
  assumes "hub_inv env h" and "map_of (h_sessions h) account = Some p"
    and "forget_entry account h = (sess, h1)" and "hub_session account h1 = (q, h2)"
  shows "sess = Some p \<and> q \<noteq> p \<and> \<not> s_closed (h_heap h2 ! q) \<and> h_heap h2 ! p = h_heap h ! p"
proof -
  have "p \<in> mapped h" unfolding mapped_def using assms(2) by (auto dest: map_of_SomeD intro: rev_image_eqI)
  then have p: "p < length (h_heap h)" using assms(1) by (simp add: hub_inv_def owned_def)
  have "sess = Some p" "h1 = h\<lparr>h_sessions := AList.delete account (h_sessions h)\<rparr>"
    using assms(2,3) by (auto simp: forget_entry_def)
  with assms(4) p show ?thesis
    by (auto simp: hub_session_def AList.delete_conv' NewSession_def nth_append)
qed

text \<open>C37: a login can be lost to a logout that has already succeeded. The worker of a successful
  logout forgets the session in a second step. A login the hub accepts before that step is queued on the
  session that step then closes and drops: when it runs it writes nothing, neither a pairing prompt
  nor an error, and the account has no session.\<close>

theorem login_lost_to_logout:
  assumes "env_shut env" and "hub_inv env h" and "serving h" and "length (h_jobs h) < 16"
    and "map_of (h_sessions h) account = Some p"
    and "command_plan cmd = Plan_async account [] (\<lambda>p. Job p (OpLogin bundle))"
    and "run_on p (run_op env (OpLogin bundle)) (forget account (dispatch env cmd h)) = (u, h')"
  shows "h_jobs (dispatch env cmd h) = h_jobs h @ [Job p (OpLogin bundle)]
    \<and> h_out h' = h_out h \<and> map_of (h_sessions h') account = None \<and> s_closed (h_heap h' ! p)"
proof -
  let ?d = "h\<lparr>h_jobs := h_jobs h @ [Job p (OpLogin bundle)]\<rparr>"
  have d: "dispatch env cmd h = ?d"
    using assms(4,5) by (simp add: dispatch_def assms(6) dispatchAsync_def hub_session_def spawn_def maxCommandWorkers_def)
  let ?e = "?d\<lparr>h_sessions := AList.delete account (h_sessions h)\<rparr>"
  obtain x h1 where close: "run_on p Close ?e = (x, h1)" by (rule prod.exhaust)
  have "p \<in> mapped h" unfolding mapped_def using assms(5) by (auto dest: map_of_SomeD intro: rev_image_eqI)
  then have p: "p < length (h_heap ?e)" using assms(2) by (simp add: hub_inv_def owned_def)
  note cl = run_on_close [OF close p] and fr = run_on_frame [OF close]
  have f: "forget account (dispatch env cmd h) = h1"
    unfolding d using assms(5) close by (simp add: forget_def forget_entry_def close_session_def)
  have p1: "p < length (h_heap h1)" using p fr(4) by simp
  have stable: "stable env (run_op env (OpLogin bundle))" by (rule stable_progs(1)) simp
  note last = run_on_stable(1,3) [OF stable assms(7) [unfolded f] p1 assms(1)] and fr2 = run_on_frame [OF assms(7) [unfolded f]]
  show ?thesis
    using cl last fr fr2 unfolding d by (simp add: AList.delete_conv')
qed

subsection \<open>Concrete hubs\<close>

definition w_machine :: machine where
  "w_machine = \<lparr>mn_store = [], mn_staged = [], mn_sweep = \<lparr>sw_lastSweep = 0, sw_locked = False\<rparr>,
     mn_files = [], mn_now = 0\<rparr>"

definition w_command :: "go_string \<Rightarrow> go_string \<Rightarrow> command" where
  "w_command ty account = \<lparr>cmd_Type = ty, cmd_Account = account, cmd_BundleB64 = ''e30='',
     cmd_Conversation = ''t'', cmd_Message = [], cmd_Text = ''hi'', cmd_ReplyTo = [], cmd_Caption = [],
     cmd_Path = [], cmd_Emoji = [], cmd_Add = False, cmd_Addresses = [], cmd_Limit = 0,
     cmd_Cursor = [], cmd_RequestID = ''r1'', cmd_FetchID = 0\<rparr>"

abbreviation w_env :: env where "w_env \<equiv> test_env (\<lambda>q. empty_reply)"

definition w_hub :: hub where
  "w_hub = serve_line w_env (encodeCommand (w_command ''send_text'' ''a'')) (start_hub w_env w_machine)"

lemma reachable_line: "hub_reachable env (serve_line env line (start_hub env m))"
  unfolding hub_reachable_def by (intro exI [of _ m] r_into_rtranclp step_line inv_start(2))

lemma w_env_open: "env_open w_env"
  by (simp add: env_open_def test_env_def)

lemma w_env_shut: "env_shut w_env"
  by (simp add: env_shut_def test_env_def)

lemma w_hub_reachable: "hub_reachable w_env w_hub"
  unfolding w_hub_def by (rule reachable_line)

lemma w_plan:
  "command_plan (w_command ''send_text'' ''a'') = Plan_async ''a'' ''r1'' (\<lambda>p. Job p (OpSendText ''r1'' ''t'' ''hi'' []))"
  "command_plan (w_command ''login'' ''a'') = Plan_async ''a'' [] (\<lambda>p. Job p (OpLogin ''{}''))"
proof -
  have a: "validAccount ''a''" "b64_decode ''e30='' = Some ''{}''" by code_simp+
  show "command_plan (w_command ''send_text'' ''a'') = Plan_async ''a'' ''r1'' (\<lambda>p. Job p (OpSendText ''r1'' ''t'' ''hi'' []))"
    "command_plan (w_command ''login'' ''a'') = Plan_async ''a'' [] (\<lambda>p. Job p (OpLogin ''{}''))"
    by (simp_all add: command_plan_def login_plan_def w_command_def a MaxBundleBytes_def Let_def)
qed

lemma hub_owns_sessions_witness: "length (h_jobs w_hub) \<le> 16 \<and> distinct (map snd (h_sessions w_hub))"
  using hub_owns_sessions [OF w_env_shut w_hub_reachable] by blast

definition w_said :: hub where
  "w_said = serve_line w_env ''x'' (start_hub w_env w_machine)"

lemma output_is_lines_witness: "CHR 0x0A \<notin> set (hd (h_out w_said)) \<and> h_out w_said \<noteq> []"
proof
  have "hub_reachable w_env w_said"
    unfolding w_said_def by (rule reachable_line)
  note lines = output_is_lines [OF this]
  have "\<not> maxLine \<le> length ''x''" by (simp add: maxLine_def)
  moreover have "trimSpace ''x'' \<noteq> []" by (simp add: trimSpace_def)
  moreover have "decodeCommand ''x'' = None" by code_simp
  ultimately show some: "h_out w_said \<noteq> []"
    by (simp add: w_said_def serve_line_def hub_error_def hub_write_def)
  have "\<forall>c \<in> set (hd (h_out w_said)). 0x20 \<le> byte c" using lines [of "hd (h_out w_said)"] some by simp
  then show "CHR 0x0A \<notin> set (hd (h_out w_said))" by fastforce
qed

lemma w_line: "decodeCommand (encodeCommand (w_command ty ''a'')) = Some (w_command ty ''a'')" if "valid_utf8 ty"
  by (rule decode_encode_command) (use that in \<open>simp add: valid_command_def w_command_def valid_utf8_ascii\<close>)

lemma request_answered_witness:
  "\<exists>p op. h_jobs (serve_line w_env (encodeCommand (w_command ''send_text'' ''a'')) (start_hub w_env w_machine)) = [Job p op]"
proof -
  let ?h = "start_hub w_env w_machine"
  have "h_jobs ?h = []" by (simp add: start_hub_def new_hub_def split: prod.split)
  moreover have "hub_reachable w_env ?h" unfolding hub_reachable_def by blast
  moreover have "length (encodeCommand (w_command ''send_text'' ''a'')) < maxLine"
  proof -
    have "length (encodeCommand (w_command ''send_text'' ''a'')) = 103" by code_simp
    then show ?thesis by (simp add: maxLine_def)
  qed
  ultimately show ?thesis
    using request_answered [OF w_env_open _ inv_start(2) w_line _ w_plan(1), of w_env w_machine] by (auto simp: valid_utf8_ascii)
qed

lemma rejected_requests_disagree_witness:
  "map_of (h_sessions (dispatch w_env (w_command ''send_media'' ''../x'') w_hub)) ''../x'' \<noteq> None
   \<and> dispatch w_env (w_command ''react'' ''../x'') w_hub = w_hub"
proof -
  have bad: "\<not> validAccount ''../x''" by code_simp
  show ?thesis
    using rejected_requests_disagree [of "w_command ''send_media'' ''../x''" w_env w_hub]
      rejected_requests_disagree [of "w_command ''react'' ''../x''" w_env w_hub] bad
    by (simp add: w_command_def)
qed

text \<open>A hub whose only worker has logged account \<open>a\<close> out and is about to forget its session.\<close>

definition w_leaving :: hub where
  "w_leaving = \<lparr>h_sessions = [(''a'', 0)], h_heap = [w_session], h_jobs = [Job_forget ''a''],
     h_machine = w_machine, h_out = [], h_closing = None, h_exited = False\<rparr>"

lemma login_lost_to_logout_witness:
  "h_out (snd (run_on 0 (run_op w_env (OpLogin ''{}'')) (forget ''a'' (dispatch w_env (w_command ''login'' ''a'') w_leaving))))
     = []"
proof -
  obtain u h' where run: "run_on 0 (run_op w_env (OpLogin ''{}''))
      (forget ''a'' (dispatch w_env (w_command ''login'' ''a'') w_leaving)) = (u, h')" by (rule prod.exhaust)
  have "hub_inv w_env w_leaving"
    by (simp add: w_leaving_def hub_inv_def owned_def mapped_def maxCommandWorkers_def NewSession_def)
  moreover have "serving w_leaving" "length (h_jobs w_leaving) < 16" "map_of (h_sessions w_leaving) ''a'' = Some 0"
    "h_out w_leaving = []"
    by (simp_all add: w_leaving_def serving_def)
  ultimately show ?thesis using login_lost_to_logout [OF w_env_shut _ _ _ _ w_plan(2) run] run by simp
qed

subsection \<open>The state directory\<close>

lemma join_abs: "cs \<noteq> [] \<Longrightarrow> is_abs (join_path cs)"
  by (cases cs) (simp_all add: join_path_def is_abs_def)

lemma join_tail: "suffix ''/handover/gmessages'' (join_path (cs @ [''handover'', ''gmessages'']))"
  by (simp add: join_path_def suffix_def)

text \<open>Where the state directory ends up. \<open>NewStore\<close> fails exactly when neither the variable nor the
  home directory is known; the directory ends in \<open>handover/gmessages\<close>, and it is absolute exactly when
  the base is or the working directory is known. A relative base is resolved, never refused.\<close>

theorem NewStore_path:
  "(NewStore cwd xdg home = None \<longleftrightarrow> xdg = [] \<and> home = None)
   \<and> (\<forall>dir. NewStore cwd xdg home = Some dir \<longrightarrow>
        suffix ''/handover/gmessages'' (CHR ''/'' # dir)
        \<and> (is_abs dir \<longleftrightarrow> cwd \<noteq> None \<or> is_abs (if xdg = [] then the home @ ''/.local/state'' else xdg)))"
proof -
  have tail: "suffix ''/handover/gmessages'' (CHR ''/'' # join_path (cs @ [''handover'', ''gmessages'']))" for cs
    using join_tail [of cs] by (rule suffix_ConsI)
  have abs: "is_abs (join_path (cs @ [''handover'', ''gmessages'']))" for cs
    by (rule join_abs) simp
  have rel: "suffix ''/handover/gmessages'' (CHR ''/'' # ''handover/gmessages'')" "\<not> is_abs ''handover/gmessages''"
    by (simp_all add: is_abs_def)
  show ?thesis
    by (auto simp: NewStore_def tail abs rel split: option.splits if_splits)
qed

lemma NewStore_path_witness:
  "NewStore (Some ''/home/u'') ''state'' None = Some ''/home/u/state/handover/gmessages''
   \<and> is_abs ''/home/u/state/handover/gmessages''"
proof
  show d: "NewStore (Some ''/home/u'') ''state'' None = Some ''/home/u/state/handover/gmessages''"
    by code_simp
  then show "is_abs ''/home/u/state/handover/gmessages''"
    using NewStore_path [of "Some ''/home/u''" "''state''" None] by simp
qed

end
