(* ===== verification/SaveRace.thy ===== *)
theory SaveRace
  imports HubProps
begin

text \<open>
  \<open>saveAuthIfCurrent\<close> (\<open>adapter/session.go\<close>) and \<open>Logout\<close> (\<open>adapter/send.go\<close>) side by side, at the
  granularity of their locks: each is a state machine whose segments are what runs between two
  points where the other goroutine can get in. A segment is a program of the session; the relay
  answers as scripted, since here the other goroutine is the interleaving itself. Run alone, the
  segments compose to the operations of the earlier theories.
\<close>

datatype save_pc =
    Save_start
  | Save_captured auth_data go_string
  | Save_marshalled auth_data go_string bytes
  | Save_checked go_string bytes
  | Save_done "store_err option"

datatype logout_pc =
    Logout_start
  | Logout_captured "nat option"
  | Logout_bumped "nat option"
  | Logout_revoked
  | Logout_deleted "store_err option"
  | Logout_done bool

definition save_seg :: "env \<Rightarrow> u64 \<Rightarrow> save_pc \<Rightarrow> save_pc prog" where
  "save_seg env lifecycle pc =
     (case pc of
        Save_start \<Rightarrow> do {
          s \<leftarrow> State_Monad.get;
          State_Monad.return (if lifecycle \<noteq> s_lifecycle s then Save_done None
            else (case s_auth s of None \<Rightarrow> Save_done None | Some auth \<Rightarrow> Save_captured auth (s_account s)))
        }
      | Save_captured auth account \<Rightarrow>
          State_Monad.return (case e_marshalAuth env (au_data auth) of
              None \<Rightarrow> Save_done (Some BadJSON) | Some raw \<Rightarrow> Save_marshalled auth account raw)
      | Save_marshalled auth account raw \<Rightarrow> do {
          s \<leftarrow> State_Monad.get;
          State_Monad.return (if lifecycle = s_lifecycle s \<and> map_option au_ref (s_auth s) = Some (au_ref auth)
            then Save_checked account raw else Save_done None)
        }
      | Save_checked account raw \<Rightarrow> do {
          err \<leftarrow> write_session env account raw;
          State_Monad.return (Save_done err)
        }
      | Save_done err \<Rightarrow> State_Monad.return pc)"

definition logout_seg :: "env \<Rightarrow> logout_pc \<Rightarrow> logout_pc prog" where
  "logout_seg env pc =
     (case pc of
        Logout_start \<Rightarrow> do {
          stop_pairing;
          s \<leftarrow> State_Monad.get;
          State_Monad.return (Logout_captured (s_client s))
        }
      | Logout_captured client \<Rightarrow> do { bumpLifecycle; State_Monad.return (Logout_bumped client) }
      | Logout_bumped None \<Rightarrow> State_Monad.return Logout_revoked
      | Logout_bumped (Some c) \<Rightarrow> do {
          resp \<leftarrow> rpc_call env c Unpair;
          if rp_err resp \<noteq> None then do {
            fire_error ''remote revoke failed, session kept'';
            State_Monad.return (Logout_done False)
          }
          else do { act (Disconnect c); State_Monad.return Logout_revoked }
        }
      | Logout_revoked \<Rightarrow> do { err \<leftarrow> remove_session env; State_Monad.return (Logout_deleted err) }
      | Logout_deleted err \<Rightarrow> do {
          s \<leftarrow> State_Monad.get;
          teardown;
          (case err of
             Some e \<Rightarrow> do {
               fire (account_event (s_account s) False False);
               fire (error_event (s_account s) ''deleting session failed'')
             }
           | None \<Rightarrow> fire ((mk_event ''account_removed'')\<lparr>ev_Account := s_account s\<rparr>));
          State_Monad.return (Logout_done (err = None))
        }
      | Logout_done ok \<Rightarrow> State_Monad.return pc)"

text \<open>One interleaving step: either goroutine runs its next segment.\<close>

inductive race_step :: "env \<Rightarrow> u64 \<Rightarrow> save_pc \<times> logout_pc \<times> session \<Rightarrow> save_pc \<times> logout_pc \<times> session \<Rightarrow> bool"
  for env lc where
  save_moves: "run_state (save_seg env lc p) s = (p', t) \<Longrightarrow> race_step env lc (p, q, s) (p', q, t)"
| logout_moves: "run_state (logout_seg env q) s = (q', t) \<Longrightarrow> race_step env lc (p, q, s) (p, q', t)"

inductive_cases race_stepE: "race_step env lc (p, q, s) (p', q', t)"

subsection \<open>The segments are the operations\<close>

primrec iterate :: "nat \<Rightarrow> ('p \<Rightarrow> ('s, 'p) state) \<Rightarrow> 'p \<Rightarrow> ('s, 'p) state" where
  "iterate 0 seg p = State_Monad.return p"
| "iterate (Suc n) seg p = State_Monad.bind (seg p) (iterate n seg)"

lemma run_return [simp]: "run_state (State_Monad.return x) s = (x, s)"
  by (simp add: State_Monad.return_def)

lemma save_alone:
  "run_state (iterate 4 (save_seg env lc) Save_start) s
     = (case run_state (saveAuthIfCurrent env lc) s of (err, t) \<Rightarrow> (Save_done err, t))"
  by (auto simp: eval_nat_numeral save_seg_def saveAuthIfCurrent_def State_Monad.get_def
      split: option.splits prod.splits)

lemma logout_alone:
  "run_state (iterate 5 (logout_seg env) Logout_start) s
     = (case run_state (Logout env) s of (ok, t) \<Rightarrow> (Logout_done ok, t))"
  by (auto simp: eval_nat_numeral logout_seg_def Logout_def forget_session_def State_Monad.get_def
      split: option.splits prod.splits)

lemma save_path:
  "run_state (iterate n (save_seg env lc) p) s = (p', t) \<Longrightarrow> (race_step env lc)\<^sup>*\<^sup>* (p, q, s) (p', q, t)"
proof (induction n arbitrary: p s)
  case (Suc n)
  obtain p1 s1 where "run_state (save_seg env lc p) s = (p1, s1)" by (rule prod.exhaust)
  with Suc show ?case by (force intro: converse_rtranclp_into_rtranclp save_moves)
qed simp

lemma logout_path:
  "run_state (iterate n (logout_seg env) q) s = (q', t) \<Longrightarrow> (race_step env lc)\<^sup>*\<^sup>* (p, q, s) (p, q', t)"
proof (induction n arbitrary: q s)
  case (Suc n)
  obtain q1 s1 where "run_state (logout_seg env q) s = (q1, s1)" by (rule prod.exhaust)
  with Suc show ?case by (force intro: converse_rtranclp_into_rtranclp logout_moves)
qed simp

subsection \<open>Late saves are dropped\<close>

text \<open>Once the lifecycle has moved, a save that had not passed its recheck never passes it.\<close>

definition retired :: "u64 \<Rightarrow> go_string \<Rightarrow> save_pc \<times> logout_pc \<times> session \<Rightarrow> bool" where
  "retired lc path = (\<lambda>(p, q, s).
     (\<forall>account raw. p \<noteq> Save_checked account raw)
     \<and> accountFile (s_account s) = Some path
     \<and> (case q of
          Logout_start \<Rightarrow> False
        | Logout_captured _ \<Rightarrow> False
        | Logout_bumped _ \<Rightarrow> s_lifecycle s = next_lifecycle lc
        | Logout_revoked \<Rightarrow> s_lifecycle s = next_lifecycle lc
        | Logout_deleted err \<Rightarrow> s_lifecycle s = next_lifecycle lc \<and> (err = None \<longrightarrow> map_of (s_store s) path = None)
        | Logout_done True \<Rightarrow> s_lifecycle s = next_lifecycle (next_lifecycle lc) \<and> map_of (s_store s) path = None
        | Logout_done False \<Rightarrow> s_lifecycle s = next_lifecycle lc \<or> s_lifecycle s = next_lifecycle (next_lifecycle lc)))"

lemma retired_lifecycle: "retired lc path (p, q, s) \<Longrightarrow> s_lifecycle s \<noteq> lc"
  using lifecycle.moves [of lc] bump_twice [of lc] not_sym [OF lifecycle.moves [of lc]] not_sym [OF bump_twice [of lc]]
  by (auto simp: retired_def split: logout_pc.splits bool.splits)

lemma delete_ok_gone:
  "DeleteAuth fl account d = (None, d') \<Longrightarrow> accountFile account = Some path \<Longrightarrow> map_of d' path = None"
  by (auto simp: DeleteAuth_def Let_def split: if_splits)

lemma retired_save:
  assumes "retired lc path (p, q, s)" and "run_state (save_seg env lc p) s = (p', t)"
  shows "retired lc path (p', q, t) \<and> s_store t = s_store s"
proof -
  have "s_lifecycle s \<noteq> lc" by (rule retired_lifecycle [OF assms(1)])
  moreover have "p \<noteq> Save_checked account raw" for account raw using assms(1) by (simp add: retired_def)
  ultimately have "t = s" "\<And>account raw. p' \<noteq> Save_checked account raw"
    using assms(2) by (auto simp: save_seg_def State_Monad.get_def split: save_pc.splits option.splits)
  with assms(1) show ?thesis by (simp add: retired_def)
qed

lemma retired_logout:
  assumes "retired lc path (p, q, s)" and "scripted env answer" and "run_state (logout_seg env q) s = (q', t)"
  shows "retired lc path (p, q', t)"
proof -
  have "wp (logout_seg env q) (\<lambda>q' t. retired lc path (p, q', t)) s"
    using assms(1) scriptedD [OF assms(2)]
    by (cases q)
       (auto simp: logout_seg_def retired_def wp_simps fire_error_def remove_session_def teardown_def
         delete_ok_gone split: option.splits prod.splits bool.splits)
  from wp_run [OF this assms(3)] show ?thesis .
qed

lemma retired_steps:
  assumes "(race_step env lc)\<^sup>*\<^sup>* x y" and "scripted env answer" and "retired lc path x"
  shows "retired lc path y"
  using assms(1,3)
proof (induction rule: rtranclp_induct)
  case (step y z)
  from step(2) show ?case
    by (cases rule: race_step.cases) (use step retired_save retired_logout [OF _ assms(2)] in blast)+
qed


subsection \<open>Properties\<close>

text \<open>C31: a save that has not passed its recheck when a logout moves the lifecycle writes nothing. From
  any point where the logout has bumped the lifecycle and the save has not been cleared to write,
  every interleaving of the two leaves the save unwritten, and a logout that reports success leaves
  no session file.\<close>

theorem late_save_dropped:
  assumes "scripted env answer" and "accountFile (s_account s) = Some path"
    and "s_lifecycle s = next_lifecycle lc" and "\<forall>account raw. p \<noteq> Save_checked account raw"
    and "(race_step env lc)\<^sup>*\<^sup>* (p, Logout_bumped client, s) (p', q', t)"
  shows "(\<forall>account raw. p' \<noteq> Save_checked account raw)
    \<and> (q' = Logout_done True \<longrightarrow> map_of (s_store t) path = None)"
proof -
  have "retired lc path (p, Logout_bumped client, s)" using assms(2-4) by (simp add: retired_def)
  from retired_steps [OF assms(5,1) this] show ?thesis by (auto simp: retired_def)
qed

text \<open>C38: but a save that has passed its recheck recreates the file. The recheck and the write are not
  one critical section with the logout: some interleaving lets a save of the current lifecycle pass
  its recheck, then a whole logout report success and delete the file, and then the save write it
  again. The account the daemon believes removed has a stored session, which the next start restores.\<close>

theorem save_race_recreates_file:
  assumes "scripted env answer" and "e_faults env = no_faults" and "\<not> s_closed s"
    and "accountFile (s_account s) = Some path" and "s_auth s = Some auth"
    and "e_marshalAuth env (au_data auth) = Some raw"
    and "rp_err (answer Unpair) = None"
  shows "\<exists>t. (race_step env (s_lifecycle s))\<^sup>*\<^sup>* (Save_start, Logout_start, s) (Save_done None, Logout_done True, t)
    \<and> last (emitted t) = (mk_event ''account_removed'')\<lparr>ev_Account := s_account s\<rparr>
    \<and> s_auth t = None \<and> published raw (map_of (s_store t) path)"
proof -
  let ?lc = "s_lifecycle s"
  have save: "run_state (iterate 3 (save_seg env ?lc) Save_start) s = (Save_checked (s_account s) raw, s)"
    by (simp add: eval_nat_numeral save_seg_def State_Monad.get_def assms(5,6))
  define post where "post = (\<lambda>q t. q = Logout_done True \<and> s_account t = s_account s \<and> s_auth t = None
    \<and> last (emitted t) = (mk_event ''account_removed'')\<lparr>ev_Account := s_account s\<rparr>)"
  have del: "fst (DeleteAuth no_faults (s_account s) d) = None" for d
    using assms(4) by (simp add: DeleteAuth_def no_faults_def Let_def)
  have "wp (iterate 5 (logout_seg env) Logout_start) post s"
    using assms(3) del [of "s_store s"]
    by (auto simp: eval_nat_numeral logout_seg_def wp_simps stop_pairing_def remove_session_def teardown_def
        scriptedD [OF assms(1)] assms(2,7) post_def emitted_def split: option.split prod.split)
  then obtain t where out: "run_state (iterate 5 (logout_seg env) Logout_start) s = (Logout_done True, t)"
    "s_account t = s_account s" "s_auth t = None"
    "last (emitted t) = (mk_event ''account_removed'')\<lparr>ev_Account := s_account s\<rparr>"
    by (auto simp: wp_def post_def split: prod.splits)
  obtain err h where w: "WriteAuth no_faults (s_now t) (e_partial env) (e_random env t) (s_account s) raw (s_store t)
      = (err, h)" by (rule prod.exhaust)
  have none: "err = None"
    using w assms(4) by (simp add: WriteAuth_def no_faults_def ensureDir_def Let_def)
  let ?u = "t\<lparr>s_trace := s_trace t @ [stamp t (WriteSession raw None)], s_store := last h\<rparr>"
  have publish: "run_state (save_seg env ?lc (Save_checked (s_account s) raw)) t = (Save_done None, ?u)"
    by (simp add: save_seg_def write_session_def act_def State_Monad.get_def assms(2) w none)
  have "(race_step env ?lc)\<^sup>*\<^sup>* (Save_start, Logout_start, s) (Save_checked (s_account s) raw, Logout_start, s)"
    by (rule save_path [OF save])
  also have "(race_step env ?lc)\<^sup>*\<^sup>* \<dots> (Save_checked (s_account s) raw, Logout_done True, t)"
    by (rule logout_path [OF out(1)])
  also have "race_step env ?lc \<dots> (Save_done None, Logout_done True, ?u)"
    by (rule save_moves [OF publish])
  finally have "(race_step env ?lc)\<^sup>*\<^sup>* (Save_start, Logout_start, s) (Save_done None, Logout_done True, ?u)" .
  moreover have "published raw (map_of (s_store ?u) path)"
    using WriteAuth_history(4) [OF assms(4) w none] by simp
  moreover have "emitted ?u = emitted t" by (simp add: emitted_def)
  ultimately show ?thesis using out by (intro exI [of _ ?u]) simp
qed

subsection \<open>Concrete interleavings\<close>

definition w_stored :: session where
  "w_stored = w_session\<lparr>s_client := Some 7, s_auth := Some w_auth\<rparr>"

lemma save_race_recreates_file_witness:
  "\<exists>t. (race_step w_env 0)\<^sup>*\<^sup>* (Save_start, Logout_start, w_stored) (Save_done None, Logout_done True, t)
    \<and> map_of (s_store t) ''a.session.json'' \<noteq> None"
proof -
  have f: "accountFile (s_account w_stored) = Some ''a.session.json''"
    by (simp add: w_stored_def NewSession_def) code_simp
  have pre: "e_faults w_env = no_faults" "\<not> s_closed w_stored" "s_auth w_stored = Some w_auth"
    "e_marshalAuth w_env (au_data w_auth) = Some ''auth''" "rp_err empty_reply = None" "s_lifecycle w_stored = 0"
    by (simp_all add: test_env_def w_stored_def NewSession_def w_auth_def empty_reply_def)
  from save_race_recreates_file [OF scripted_test pre(1,2) f pre(3,4,5)] show ?thesis
    unfolding pre(6) by (auto simp: published_def split: option.splits)
qed

lemma late_save_dropped_witness:
  "(\<forall>account raw. fst (run_state (save_seg w_env 0 (Save_marshalled w_auth ''a'' ''auth''))
      (w_stored\<lparr>s_lifecycle := 1\<rparr>)) \<noteq> Save_checked account raw)"
proof -
  let ?s = "w_stored\<lparr>s_lifecycle := 1\<rparr>" and ?p = "Save_marshalled w_auth ''a'' ''auth''"
  obtain p' t where run: "run_state (save_seg w_env 0 ?p) ?s = (p', t)" by (rule prod.exhaust)
  have f: "accountFile (s_account ?s) = Some ''a.session.json''"
    by (simp add: w_stored_def NewSession_def) code_simp
  have "s_lifecycle ?s = next_lifecycle 0" by (simp add: next_lifecycle_def Let_def)
  moreover have "(race_step w_env 0)\<^sup>*\<^sup>* (?p, Logout_bumped None, ?s) (p', Logout_bumped None, t)"
    using save_moves [OF run] by blast
  ultimately show ?thesis using late_save_dropped [OF scripted_test f] run by fastforce
qed

end
