(* ===== verification/MediaProps.thy ===== *)
theory MediaProps
  imports SaveRace
begin

text \<open>
  Properties of the relay queue, of echoes, of staging and uploads, and of a full sync: which thread an
  overflow marks, when an echo settles a send, which parts of a message are staged under which name,
  which files an upload may delete, when a conversation list may call itself complete, and under which
  lifecycle a sync speaks.
\<close>

subsection \<open>Queue overflow\<close>

text \<open>C40: the repair after a queue overflow marks the wrong thread. When the queue is full, the oldest
  event is dropped and the new one kept, in order; but the thread that is marked for repair is the
  one of the new event, which was not lost, and never the thread of the dropped event. One catch-up
  is scheduled unless one runs already.\<close>

theorem overflow_marks_wrong_thread:
  assumes "s_clientGen s = gen" and "s_events s = lost # es" and "length (s_events s) = eventQueue"
    and "conversationOf evt \<noteq> []" and "s_trace s = []"
    and "run_state (relay_signal gen evt) s = (u, t)"
  shows "s_events t = es @ [\<lparr>q_lifecycle = s_lifecycle s, q_event = evt\<rparr>]
    \<and> conversationOf evt \<in> s_dirtyConvs t
    \<and> s_dirtyConvs t \<subseteq> insert (conversationOf evt) (s_dirtyConvs s)
    \<and> actions t = (if s_resyncing s then [] else [Spawn Task_resync]) \<and> s_resyncing t"
proof -
  have "wp (relay_signal gen evt) (\<lambda>_ t. s_events t = es @ [\<lparr>q_lifecycle = s_lifecycle s, q_event = evt\<rparr>]
    \<and> conversationOf evt \<in> s_dirtyConvs t
    \<and> s_dirtyConvs t \<subseteq> insert (conversationOf evt) (s_dirtyConvs s)
    \<and> actions t = (if s_resyncing s then [] else [Spawn Task_resync]) \<and> s_resyncing t) s"
    using assms(1-5)
    by (auto simp: relay_signal_def enqueue_def markDirty_def mark_dirty_def requestResync_def wp_simps
        Let_def actions_def stamp_def)
  from wp_run [OF this assms(6)] show ?thesis .
qed

definition w_full_queue :: session where
  "w_full_queue = w_session\<lparr>s_events := replicate 256 \<lparr>q_lifecycle = 0, q_event = Ev_Typing ''lost'' True ''+1''\<rparr>\<rparr>"

lemma overflow_marks_wrong_thread_witness:
  "s_dirtyConvs (snd (run_state (relay_signal 0 (Ev_Typing ''new'' True ''+2'')) w_full_queue)) = {''new''}"
proof -
  obtain u t where run: "run_state (relay_signal 0 (Ev_Typing ''new'' True ''+2'')) w_full_queue = (u, t)"
    by (rule prod.exhaust)
  let ?q = "\<lparr>q_lifecycle = 0 :: u64, q_event = Ev_Typing ''lost'' True ''+1''\<rparr>"
  have "s_events w_full_queue = ?q # replicate 255 ?q"
    by (simp add: w_full_queue_def eval_nat_numeral del: replicate_Suc) (simp only: replicate_Suc)
  moreover have "s_clientGen w_full_queue = 0" "length (s_events w_full_queue) = eventQueue"
    "s_trace w_full_queue = []" "s_dirtyConvs w_full_queue = {}"
    by (simp_all add: w_full_queue_def NewSession_def eventQueue_def)
  moreover have "conversationOf (Ev_Typing ''new'' True ''+2'') = ''new''" by (simp add: conversationOf_def)
  ultimately show ?thesis
    using overflow_marks_wrong_thread [OF _ _ _ _ _ run] run by fastforce
qed

subsection \<open>Echoes of sends\<close>

text \<open>C35: an echo settles its send exactly once. For an echo of a pending transaction, under the
  current lifecycle, the entry is gone afterwards and every other entry is as it was; the thread of
  the send gets the status of the echo if the status is a signal and the entry is at most ten
  minutes old, and nothing is emitted otherwise. An echo under a retired lifecycle, or of no pending
  transaction, changes nothing; so the same echo again changes nothing.\<close>

theorem echo_settles_once:
  assumes "\<not> s_closed s" and "s_trace s = []" and "pm_TmpID msg \<noteq> []"
    and "run_state (checkPending msg lc) s = (u, t)"
  shows "(if s_lifecycle s \<noteq> lc then t = s
      else case map_of (s_pending s) (pm_TmpID msg) of
        None \<Rightarrow> t = s
      | Some send \<Rightarrow>
          map_of (s_pending t) = (map_of (s_pending s))(pm_TmpID msg := None)
          \<and> emitted t = (case mapStatus (pm_Status msg) of
              Some token \<Rightarrow> if s_now s - ps_at send \<le> 10 * minute
                then [status_event (s_account s) (ps_convID send) (pm_MessageID msg) token] else []
            | None \<Rightarrow> []))
    \<and> snd (run_state (checkPending msg lc) t) = t"
proof -
  have "wp (checkPending msg lc) (\<lambda>_ t. (if s_lifecycle s \<noteq> lc then t = s
      else case map_of (s_pending s) (pm_TmpID msg) of
        None \<Rightarrow> t = s
      | Some send \<Rightarrow>
          map_of (s_pending t) = (map_of (s_pending s))(pm_TmpID msg := None)
          \<and> emitted t = (case mapStatus (pm_Status msg) of
              Some token \<Rightarrow> if s_now s - ps_at send \<le> 10 * minute
                then [status_event (s_account s) (ps_convID send) (pm_MessageID msg) token] else []
            | None \<Rightarrow> []))) s"
    using assms(1-3)
    by (auto simp: checkPending_def wp_simps current_def pendingTTL_def status_event_def emitted_def
        delete_conv' split: option.split)
  note first = wp_run [OF this assms(4)]
  have "s_lifecycle t \<noteq> lc \<or> map_of (s_pending t) (pm_TmpID msg) = None"
    using first by (cases "map_of (s_pending s) (pm_TmpID msg)") (auto split: if_splits)
  then have "snd (run_state (checkPending msg lc) t) = t"
    by (auto simp: checkPending_def State_Monad.get_def current_def)
  with first show ?thesis by blast
qed

definition w_message :: "msg_status \<Rightarrow> message_info list \<Rightarrow> pb_message" where
  "w_message st infos = \<lparr>pm_MessageID = ''m1'', pm_ConversationID = ''t'', pm_ParticipantID = ''p'',
     pm_SenderParticipant = None, pm_Status = st, pm_Timestamp = 5, pm_TmpID = ''tmp'', pm_Type = 4,
     pm_MessageInfo = infos, pm_ReplyMessage = None, pm_Reactions = []\<rparr>"

definition w_waiting :: session where
  "w_waiting = w_online\<lparr>s_pending := [(''tmp'', \<lparr>ps_requestID = ''r1'', ps_convID = ''t'', ps_at = 0\<rparr>)]\<rparr>"

lemma echo_settles_once_witness:
  "emitted (snd (run_state (checkPending (w_message OUTGOING_DELIVERED []) 0) w_waiting))
     = [status_event ''a'' ''t'' ''m1'' ''delivered'']
   \<and> map_of (s_pending (snd (run_state (checkPending (w_message OUTGOING_DELIVERED []) 0) w_waiting))) ''tmp'' = None"
proof -
  obtain u t where run: "run_state (checkPending (w_message OUTGOING_DELIVERED []) 0) w_waiting = (u, t)"
    by (rule prod.exhaust)
  have pre: "\<not> s_closed w_waiting" "s_trace w_waiting = []" "pm_TmpID (w_message OUTGOING_DELIVERED []) = ''tmp''"
    "s_lifecycle w_waiting = 0" "s_now w_waiting = 0" "s_account w_waiting = ''a''"
    "map_of (s_pending w_waiting) ''tmp'' = Some \<lparr>ps_requestID = ''r1'', ps_convID = ''t'', ps_at = 0\<rparr>"
    "pm_MessageID (w_message OUTGOING_DELIVERED []) = ''m1''"
    "mapStatus (pm_Status (w_message OUTGOING_DELIVERED [])) = Some ''delivered''"
    "(0 :: int) \<le> 10 * minute"
    by (simp_all add: w_waiting_def w_online_def NewSession_def w_message_def minute_def second_def)
       code_simp
  then show ?thesis using echo_settles_once [OF pre(1,2) _ run] run by simp
qed

subsection \<open>The parts of a message\<close>

text \<open>A media part after a text part gets the text part's action id. \<open>stageMedia\<close> looks up the
  action id under the position among the media parts, but the list it looks into holds all parts.
  For a message of one text and one media part without inline or downloadable bytes, the attachment
  is named by the text part's action id, or by the fallback name when that is empty; and the action
  id of the media part is never asked for at the relay.\<close>

lemma media_action_misindexed:
  assumes "scripted env answer" and "s_client s = Some c" and "s_trace s = []"
    and "pm_MessageInfo msg = [\<lparr>mi_Data = Info_Message txt, mi_ActionMessageID = txtID\<rparr>,
           \<lparr>mi_Data = Info_Media part, mi_ActionMessageID = mediaID\<rparr>]"
    and "mc_MediaData part = []" and "mc_MediaID part = []" and "mc_ThumbnailMediaID part = []"
    and "run_state (stage_all env msg True 0 (mediaParts msg)) s = (as, t)"
  shows "map a_LocalID as = [if txtID = [] then pm_MessageID msg @ ''-part-0'' else txtID]
    \<and> map a_StagedPath as = [[]]
    \<and> (actions t = [] \<or> txtID \<noteq> [] \<and> actions t = [Call c (GetFullSizeImage (pm_MessageID msg) txtID)])"
proof -
  have parts: "mediaParts msg = [part]" by (simp add: mediaParts_def assms(4))
  have zero: "format_nat 0 = ''0''" by code_simp
  have "wp (stage_all env msg True 0 (mediaParts msg)) (\<lambda>as t.
      map a_LocalID as = [if txtID = [] then pm_MessageID msg @ ''-part-0'' else txtID]
      \<and> map a_StagedPath as = [[]]
      \<and> (actions t = [] \<or> txtID \<noteq> [] \<and> actions t = [Call c (GetFullSizeImage (pm_MessageID msg) txtID)])) s"
    using assms(2,3,5-7)
    by (auto simp: parts stageMedia_def action_id_def assms(4) downloadPart_def stream_part_def
        requestFullSize_def wp_simps Let_def scriptedD [OF assms(1)] zero actions_def stamp_def)
  from wp_run [OF this assms(8)] show ?thesis .
qed

definition w_part :: media_content where
  "w_part = \<lparr>mc_MimeType = ''image/png'', mc_MediaName = ''x.png'', mc_Size = 0, mc_MediaData = [], mc_MediaID = [],
     mc_DecryptionKey = [], mc_ThumbnailMediaID = [], mc_ThumbnailDecryptionKey = []\<rparr>"

definition w_captioned :: pb_message where
  "w_captioned = w_message INCOMING_COMPLETE [\<lparr>mi_Data = Info_Message ''look'', mi_ActionMessageID = []\<rparr>,
     \<lparr>mi_Data = Info_Media w_part, mi_ActionMessageID = ''act''\<rparr>]"

lemma media_action_misindexed_witness:
  "map a_LocalID (fst (run_state (stage_all w_env w_captioned True 0 (mediaParts w_captioned)) w_online)) = [''m1-part-0'']
   \<and> actions (snd (run_state (stage_all w_env w_captioned True 0 (mediaParts w_captioned)) w_online)) = []"
proof -
  obtain as t where run: "run_state (stage_all w_env w_captioned True 0 (mediaParts w_captioned)) w_online = (as, t)"
    by (rule prod.exhaust)
  have "pm_MessageInfo w_captioned = [\<lparr>mi_Data = Info_Message ''look'', mi_ActionMessageID = []\<rparr>,
     \<lparr>mi_Data = Info_Media w_part, mi_ActionMessageID = ''act''\<rparr>]" "pm_MessageID w_captioned = ''m1''"
    by (simp_all add: w_captioned_def w_message_def)
  moreover have "mc_MediaData w_part = []" "mc_MediaID w_part = []" "mc_ThumbnailMediaID w_part = []"
    by (simp_all add: w_part_def)
  ultimately show ?thesis
    using media_action_misindexed [OF scripted_test w_online_fields(3,2) _ _ _ _ run] run by simp
qed

subsection \<open>Staging\<close>

definition sweep_due :: "session \<Rightarrow> bool" where
  "sweep_due s \<longleftrightarrow> \<not> sw_locked (s_sweep s) \<and> sweepInterval \<le> s_now s - sw_lastSweep (s_sweep s)"

text \<open>What storing \<open>data\<close> under the relay's name \<open>name\<close> promises.\<close>

definition stages :: "env \<Rightarrow> go_string \<Rightarrow> bytes \<Rightarrow> session \<Rightarrow> go_string option \<Rightarrow> session \<Rightarrow> bool" where
  "stages env name data s r t \<longleftrightarrow>
     (case r of
        None \<Rightarrow> (\<forall>n. \<not> e_faults env SysRemove n) \<longrightarrow> map_of (s_staged t) = map_of (s_staged s)
      | Some path \<Rightarrow> \<exists>n. path = stage_path env n \<and> map_of (s_staged s) n = None
          \<and> suffix (safe_name name) n \<and> CHR ''/'' \<notin> set n \<and> length data \<le> MaxStagedBytes
          \<and> (\<not> sweep_due s \<longrightarrow> map_of (s_staged t) = (map_of (s_staged s))(n \<mapsto> new_staged (s_now s) data)))"

lemma safe_name_no_slash: "CHR ''/'' \<notin> set (safe_name name)"
proof (cases "sanitizeName name")
  case (Some b)
  then show ?thesis using sanitizeName_bytes(2) [OF Some, of "CHR ''/''"] by (auto simp: safe_name_def path_sep_def)
qed (simp add: safe_name_def)

lemma unique_name:
  assumes "uniquePath fl staged (safe_name name) = Some n"
  shows "map_of staged n = None \<and> suffix (safe_name name) n \<and> CHR ''/'' \<notin> set n"
proof -
  have digits: "CHR ''/'' \<notin> set (format_nat i)" for i
    using format_nat_digits [of i] by (auto simp: list_all_iff is_digit_def)
  note found = find_SomeD [OF assms [unfolded uniquePath_def]]
  have absent: "map_of staged n = None" by (rule found [THEN conjunct1, THEN conjunct1])
  obtain i where "n = safe_name name \<or> n = format_nat i @ CHR ''-'' # safe_name name"
    using found [THEN conjunct2] unfolding list.set(2) list.set_map by blast
  then show ?thesis using absent safe_name_no_slash [of name] digits by (auto simp: suffix_def)
qed

lemma put_drop:
  assumes "map_of d n = None" and "\<And>n. \<not> fl SysRemove n"
  shows "map_of (snd (os_remove fl n (AList.update n x d))) = map_of d"
proof
  fix m show "map_of (snd (os_remove fl n (AList.update n x d))) m = map_of d m"
    using assms by (cases "m = n") (simp_all add: os_remove_def AList.delete_conv' update_conv')
qed

lemma sweep_not_due:
  "\<not> sweep_due s \<Longrightarrow> maybeSweep sorter fl (s_now s) (s_sweep s) staged d = (s_sweep s, staged, d)"
  by (auto simp: sweep_due_def maybeSweep_def)

text \<open>C33: staging never overwrites and never exceeds the cap. Inline bytes and a relay stream are stored
  only under a name that was free, that ends in the sanitized relay name and holds no slash, with at
  most 50 MiB, complete, and, unless the hourly sweep is due, with every other file left alone. When
  staging fails, and removals do not fail, the directory is what it was: a partial or oversized
  download leaves nothing behind.\<close>

theorem staging_sound:
  assumes "scripted env answer"
  shows "(run_state (writeStaged env name data) s = (r, t) \<longrightarrow> stages env name data s r t)
    \<and> (run_state (streamStaged env c mediaID key name) s = (r, t) \<longrightarrow>
         stages env name (rp_stream (answer (DownloadMedia mediaID key))) s r t)"
proof (intro conjI impI)
  assume run: "run_state (writeStaged env name data) s = (r, t)"
  have "wp (writeStaged env name data) (\<lambda>r t. stages env name data s r t) s"
    by (auto simp: writeStaged_def wp_simps put_staged_def drop_staged_def run_maybeSweep_def stages_def
        put_drop unique_name sweep_not_due update_conv' split: option.split prod.split dest!: unique_name)
  from wp_run [OF this run] show "stages env name data s r t" .
next
  let ?data = "rp_stream (answer (DownloadMedia mediaID key))"
  assume run: "run_state (streamStaged env c mediaID key name) s = (r, t)"
  have "wp (streamStaged env c mediaID key name) (\<lambda>r t. stages env name ?data s r t) s"
    by (auto simp: streamStaged_def wp_simps put_staged_def drop_staged_def run_maybeSweep_def stages_def
        scriptedD [OF assms] put_drop sweep_not_due sweep_due_def update_conv' Let_def
        split: option.split prod.split dest!: unique_name)
  from wp_run [OF this run] show "stages env name ?data s r t" .
qed

lemma staging_sound_witness:
  "stages w_env ''d/x.png'' ''abc'' w_online (fst (run_state (writeStaged w_env ''d/x.png'' ''abc'') w_online))
     (snd (run_state (writeStaged w_env ''d/x.png'' ''abc'') w_online))"
  using staging_sound [OF scripted_test [of "\<lambda>q. empty_reply"], of "''d/x.png''" "''abc''"] by (metis prod.collapse)

subsection \<open>Uploads\<close>







text \<open>A link below the staging root leads the removal out of it: the file it deletes, and the bytes it
  sends, are those of a file of the user.\<close>

definition w_linked :: session where
  "w_linked = w_session\<lparr>s_files := [([''state''], Directory), ([''state'', ''staged''], Directory),
     ([''state'', ''staged'', ''x''], Symlink ''/home''), ([''home''], Directory), ([''home'', ''k''], Plain ''abc'')]\<rparr>"

lemma upload_deletes_through_link:
  assumes "e_faults env = no_faults" and "e_stageDir env = ''/state/staged''"
  shows "map_of (s_files (snd (run_state (readStagedUpload env ''/state/staged/x/k'') w_linked))) [''home'', ''k''] = None"
proof -
  let ?p = "''/state/staged/x/k''" and ?fs = "s_files w_linked"
  have loc: "locate ?fs c f max_links ?p = Some [''home'', ''k'']" for c f
    by (simp add: w_linked_def locate_def is_abs_def is_dir_def max_links_def)
  have at: "node_at ?fs [''home'', ''k''] = Some (Plain ''abc'')"
    by (simp add: w_linked_def node_at_def)
  have seen: "tree_open ?fs c ?p = Some (Plain ''abc'')" "tree_lstat ?fs c ?p = Some (Plain ''abc'')" for c
    by (simp_all add: tree_open_def tree_lstat_def loc at)
  have within: "withinPath c ?p ''/state/staged''" for c
    by (simp add: withinPath_def is_abs_def clean_abs_def abs_path_def push_component_def)
  have gone: "map_of (tree_remove ?fs c ?p) [''home'', ''k''] = None" for c
    by (simp add: tree_remove_def loc at AList.delete_conv')
  have stays: "map_of (tree_remove g c p) q = None" if "map_of g q = None" for g c p q
    using tree_remove_less [of g c p] that by (metis domIff map_le_def)
  have "wp (readStagedUpload env ?p) (\<lambda>r t. map_of (s_files t) [''home'', ''k''] = None) w_linked"
    by (simp add: readStagedUpload_def removeStagedSource_def remove_entry_def withinDir_def wp_simps
        seen within gone stays assms MaxStagedBytes_def no_faults_def)
  then show ?thesis by (simp add: wp_def split: prod.splits)
qed

subsection \<open>The authority of a sync\<close>

definition listings :: "session \<Rightarrow> nat" where
  "listings s = length (filter (\<lambda>a. case a of Call c (ListConversations cur) \<Rightarrow> True | _ \<Rightarrow> False) (actions s))"

lemma listings_add [simp]:
  "listings (u\<lparr>s_trace := s_trace s @ [stamp s a]\<rparr>)
     = listings s + (case a of Call c (ListConversations cur) \<Rightarrow> 1 | _ \<Rightarrow> 0)"
  by (simp add: listings_def actions_def stamp_def split: action.split rpc.split)

lemma listings_frame [simp]:
  "listings (s\<lparr>s_selfIDs := x\<rparr>) = listings s" "listings (s\<lparr>s_metas := y\<rparr>) = listings s"
  "listings (s\<lparr>s_syncGen := g\<rparr>) = listings s"
  by (simp_all add: listings_def actions_def)

interpretation mute: quiet_invariant "\<lambda>s. emitted s = evs" env for evs env
  by unfold_locales (auto simp: emitted_def core_def)

lemma page_listings:
  "wp (fetch_page env c first cur) (\<lambda>_ t. listings t \<le> listings s + (if first then 2 else 1)) s"
  by (auto simp: fetch_page_def wp_simps listings_def actions_def stamp_def split: prod.split)

lemma pages_listings:
  "wp (list_pages env c lc n first cur acc) (\<lambda>_ t. listings t \<le> listings s + n + (if first then 1 else 0)) s"
proof (induction n arbitrary: first cur acc s)
  case (Suc n)
  show ?case
    unfolding list_pages.simps Let_def
    by (simp only: wp_bind wp_get wp_if wp_return)
       (auto simp: wp_simps intro!: wp_mono [OF page_listings] wp_mono [OF Suc.IH] split: option.split)
qed (simp add: wp_simps)

lemma job_listings: "wp (sync_job env lc conv) (\<lambda>_ t. listings t = listings s) s"
  by (auto simp: sync_job_def session_mapConversation_def getConversation_def set_meta_def wp_simps
      split: sum.split option.split prod.split)

lemma jobs_listings:
  "wp (sync_jobs env lc convs js rs) (\<lambda>r t. length r = length rs \<and> listings t = listings s) s"
proof (induction js arbitrary: rs s)
  case (Cons j js)
  show ?case
    unfolding sync_jobs.simps wp_bind
    by (rule wp_mono [OF job_listings]) (rule wp_mono [OF Cons.IH], simp)
qed (simp add: wp_simps)

lemma emitted_add [simp]:
  "emitted (u\<lparr>s_trace := s_trace s @ [stamp v a]\<rparr>) = emitted s @ emitted_of (stamp v a)"
  by (simp add: emitted_def)

lemma fire_all:
  "wp (for_each fire es) (\<lambda>_ t. set (emitted t) \<subseteq> set (emitted s) \<union> set es \<and> listings t = listings s) s"
proof (induction es arbitrary: s)
  case (Cons e es)
  show ?case
    unfolding for_each.simps wp_bind wp_fire
    by (auto intro!: wp_mono [OF Cons.IH])
qed (simp add: wp_simps)

lemma partial_not_full: "e \<in> set (conversation_events account ths gen False) \<Longrightarrow> \<not> ev_Full e"
  by (auto simp: conversation_events_def conversations_event_def mk_event_def Let_def split: if_splits)

lemma listing_wp:
  "wp (listAllConversations env c lc) (\<lambda>r t. emitted t = emitted s \<and> listings t \<le> listings s + 11
     \<and> run_state (listAllConversations env c lc) s = (r, t)) s"
proof -
  have "wp (listAllConversations env c lc) (\<lambda>_ t. listings t \<le> listings s + 11) s"
    unfolding listAllConversations_def
    by (rule wp_mono [OF pages_listings]) (simp add: maxSyncPages_def)
  moreover have "wp (listAllConversations env c lc) (\<lambda>_ t. emitted t = emitted s) s"
    by (rule hoareD [OF mute.list_keeps]) simp
  ultimately show ?thesis by (auto simp: wp_def split: prod.splits)
qed

lemma jobs_wp:
  "wp (sync_jobs env lc convs js rs) (\<lambda>r t. emitted t = emitted s \<and> length r = length rs \<and> listings t = listings s) s"
  using jobs_listings [of env lc convs js rs s] hoareD [OF mute.sync_jobs_keeps refl, of env lc convs js rs s]
  by (auto simp: wp_def split: prod.splits)

lemma emit_conversations_wp:
  "wp (emitConversations ths g full) (\<lambda>_ t. set (emitted t) \<subseteq> set (emitted s)
       \<union> set (conversation_events (s_account s) ths g full) \<and> listings t = listings s) s"
  by (simp add: emitConversations_def wp_simps fire_all)

text \<open>What a run of \<open>fullSyncLocked\<close> from an empty trace promises.\<close>

definition sync_post :: "env \<Rightarrow> session \<Rightarrow> sync_outcome option \<Rightarrow> session \<Rightarrow> bool" where
  "sync_post env s r t \<longleftrightarrow>
     (\<forall>e \<in> set (emitted t). ev_Type e = ''conversations'' \<and> ev_Full e \<longrightarrow>
        (\<exists>o1. r = Some o1 \<and> so_complete o1))
     \<and> (\<forall>o1. r = Some o1 \<and> so_complete o1 \<longrightarrow>
          (\<forall>x \<in> set (so_results o1). x \<noteq> None)
          \<and> (\<exists>client convs u. s_client s = Some client
               \<and> run_state (listAllConversations env client (s_lifecycle s)) s = (Inr (convs, False), u)
               \<and> length (so_results o1) = length convs))
     \<and> listings t \<le> 11"

lemma sync_locked_wp:
  assumes "s_trace s = []"
  shows "wp (fullSyncLocked env) (sync_post env s) s"
proof -
  have start: "emitted s = []" "listings s = 0"
    using assms by (simp_all add: emitted_def listings_def actions_def)
  have after: "wp (sync_jobs env lc convs js (replicate (length convs) None)) (\<lambda>results t.
      wp (do {
        s' \<leftarrow> State_Monad.get;
        if \<not> current lc s' then State_Monad.return None
        else do {
          generation \<leftarrow> nextGeneration;
          emitConversations (map tr_thread (List.map_filter (\<lambda>r. r) results)) generation
            (\<not> capped \<and> (\<forall>r \<in> set results. r \<noteq> None));
          State_Monad.return (Some \<lparr>so_results = results, so_lifecycle = lc,
            so_complete = (\<not> capped \<and> (\<forall>r \<in> set results. r \<noteq> None))\<rparr>)
        } }) (sync_post env s) t) v"
    if v: "emitted v = []" "listings v \<le> 11" and client: "s_client s = Some c" "lc = s_lifecycle s"
      and listed: "run_state (listAllConversations env c lc) s = (Inr (convs0, capped), u)"
      and len: "length convs = length convs0"
    for lc convs js capped v c convs0 u
  proof (rule wp_mono [OF jobs_wp])
    fix results :: "thread_result option list" and t :: session
    assume t: "emitted t = emitted v \<and> length results = length (replicate (length convs) None)
      \<and> listings t = listings v"
    let ?full = "\<not> capped \<and> (\<forall>r \<in> set results. r \<noteq> None)"
    have quiet: "sync_post env s None t" using t v by (simp add: sync_post_def)
    have "sync_post env s (Some \<lparr>so_results = results, so_lifecycle = lc, so_complete = full\<rparr>) w"
      if w: "set (emitted w) \<subseteq> set (emitted t) \<union> set (conversation_events account ths g full)"
        "listings w = listings t" and full: "full = ?full" for w account ths g full
    proof (cases full)
      case True
      with w full t v client listed len show ?thesis by (auto simp: sync_post_def)
    next
      case False
      with w t v partial_not_full show ?thesis by (auto simp: sync_post_def)
    qed
    then show "wp (do {
        s' \<leftarrow> State_Monad.get;
        if \<not> current lc s' then State_Monad.return None
        else do {
          generation \<leftarrow> nextGeneration;
          emitConversations (map tr_thread (List.map_filter (\<lambda>r. r) results)) generation ?full;
          State_Monad.return (Some \<lparr>so_results = results, so_lifecycle = lc, so_complete = ?full\<rparr>)
        } }) (sync_post env s) t"
      using quiet
      by (auto simp: wp_simps intro!: wp_mono [OF emit_conversations_wp] simp: emitted_def)
  qed
  show ?thesis
  proof (cases "s_closed s \<or> s_client s = None")
    case True
    with start show ?thesis
      by (auto simp: fullSyncLocked_def wp_simps alive_def sync_post_def)
  next
    case False
    then obtain c where c: "\<not> s_closed s" "s_client s = Some c" by auto
    show ?thesis
      unfolding fullSyncLocked_def wp_bind wp_get wp_if wp_let Let_def c(2) option.case alive_def
    proof (simp only: c(1) simp_thms if_False, rule wp_mono [OF listing_wp], goal_cases)
      case (1 r t)
      show ?case
      proof (cases r)
        case (Inl e)
        with 1 start show ?thesis by (auto simp: wp_simps sync_post_def error_event_def)
      next
        case (Inr p)
        obtain convs capped where p: "p = (convs, capped)" by (rule prod.exhaust)
        have "emitted t = []" "listings t \<le> 11"
          "run_state (listAllConversations env c (s_lifecycle s)) s = (Inr (convs, capped), t)"
          using 1 start Inr p by simp_all
        from after [OF this(1,2) c(2) refl this(3), of "sort_key (\<lambda>c. - pc_LastMessageTimestamp c) convs"
            "e_jobs env (length convs)"]
        show ?thesis
          unfolding Inr p sum.case prod.case Let_def wp_bind wp_get length_sort by simp
      qed
    qed
  qed
qed

text \<open>C32: the authority of a full sync.  An event that claims to be the full conversation list is
  emitted only when the sync completed; a sync that completed skipped no conversation and answered every
  conversation of an uncapped listing; and one sync asks the phone for at most eleven listing pages.\<close>
theorem sync_authority:
  assumes "s_trace s = []" and "run_state (fullSyncLocked env) s = (r, t)"
  shows "(\<forall>e \<in> set (emitted t). ev_Type e = ''conversations'' \<and> ev_Full e \<longrightarrow>
        (\<exists>o1. r = Some o1 \<and> so_complete o1))
     \<and> (\<forall>o1. r = Some o1 \<and> so_complete o1 \<longrightarrow>
          (\<forall>x \<in> set (so_results o1). x \<noteq> None)
          \<and> (\<exists>client convs u. s_client s = Some client
               \<and> run_state (listAllConversations env client (s_lifecycle s)) s = (Inr (convs, False), u)
               \<and> length (so_results o1) = length convs))
     \<and> listings t \<le> 11"
  using sync_locked_wp [OF assms(1), of env] unfolding wp_def assms(2) prod.case sync_post_def .

theorem sync_authority_witness:
  "listings (snd (run_state (fullSyncLocked w_env) w_online)) \<le> 11"
proof -
  obtain r t where run: "run_state (fullSyncLocked w_env) w_online = (r, t)" by (rule prod.exhaust)
  show ?thesis using sync_authority [OF w_online_fields(2) run] run by simp
qed

subsection \<open>The fence of a sync\<close>

definition listing_error :: "event \<Rightarrow> bool" where
  "listing_error e \<longleftrightarrow> ev_Type e = ''error'' \<and> ev_Message e = ''conversation sync failed''"

definition sync_fence :: "u64 \<Rightarrow> session \<Rightarrow> bool" where
  "sync_fence lc s \<longleftrightarrow> (\<forall>e \<in> set (s_trace s). \<forall>evt. te_action e = Emit evt \<longrightarrow>
     te_lifecycle e = lc \<or> listing_error evt)"

interpretation sync_fence: handler_invariant "sync_fence lc" env lc for lc env
  by unfold_locales (auto simp: sync_fence_def core_def stamp_def)

lemma listing_error_keeps: "keeps (sync_fence lc) (fire (error_event account ''conversation sync failed''))"
  by (auto simp: hoare_def wp_simps sync_fence_def stamp_def listing_error_def error_event_def mk_event_def)

lemma sync_locked_fenced:
  assumes "sync_fence (s_lifecycle s) s"
  shows "wp (fullSyncLocked env) (\<lambda>r t. sync_fence (s_lifecycle s) t
    \<and> (\<forall>o1. r = Some o1 \<longrightarrow> so_lifecycle o1 = s_lifecycle s)) s"
proof (cases "s_closed s \<or> s_client s = None")
  case True
  with assms show ?thesis by (auto simp: fullSyncLocked_def wp_simps alive_def)
next
  case False
  let ?lc = "s_lifecycle s"
  let ?Q = "\<lambda>r t. sync_fence ?lc t \<and> (\<forall>o1. r = Some o1 \<longrightarrow> so_lifecycle o1 = ?lc)"
  obtain c where c: "\<not> s_closed s" "s_client s = Some c" using False by auto
  have emit: "wp (do {
        s \<leftarrow> State_Monad.get;
        if \<not> current ?lc s then State_Monad.return None
        else do {
          generation \<leftarrow> nextGeneration;
          emitConversations (map tr_thread (List.map_filter (\<lambda>r. r) rs)) generation complete;
          State_Monad.return (Some \<lparr>so_results = rs, so_lifecycle = ?lc, so_complete = complete\<rparr>)
        } }) ?Q t"
    if t: "sync_fence ?lc t" and rs: "list_all wf_result rs" for t rs complete
  proof (cases "current ?lc t")
    case True
    let ?u = "t\<lparr>s_syncGen := next_sync_gen (s_syncGen t)\<rparr>"
    have u: "sync_fence ?lc ?u \<and> current ?lc ?u" using t True by (simp add: sync_fence_def current_def)
    have wf: "list_all wf_conversation (map tr_thread (List.map_filter (\<lambda>r. r) rs))"
      using wf_results_threads [OF rs] by (simp add: list_all_iff)
    from hoareD [OF sync_fence.emit_conversations_current [OF wf] u]
    have "wp (emitConversations (map tr_thread (List.map_filter (\<lambda>r. r) rs)) (next_sync_gen (s_syncGen t)) complete)
      (\<lambda>_ t. ?Q (Some \<lparr>so_results = rs, so_lifecycle = ?lc, so_complete = complete\<rparr>) t) ?u"
      by (rule wp_mono) simp
    then have "wp (emitConversations (map tr_thread (List.map_filter (\<lambda>r. r) rs)) (next_sync_gen (s_syncGen t)) complete)
      (\<lambda>_ t. wp (State_Monad.return (Some \<lparr>so_results = rs, so_lifecycle = ?lc, so_complete = complete\<rparr>)) ?Q t) ?u"
      unfolding wp_return .
    with True show ?thesis by (simp add: wp_bind wp_get wp_nextGeneration wp_if)
  qed (use t in \<open>simp add: wp_simps\<close>)
  show ?thesis
    unfolding fullSyncLocked_def wp_bind wp_get wp_if wp_let Let_def c(2) option.case alive_def
  proof (simp only: c(1) simp_thms if_False, rule wp_mono [OF hoareD [OF sync_fence.list_keeps assms]], goal_cases)
    case (1 r t)
    then have t: "sync_fence ?lc t" .
    show ?case
    proof (cases r)
      case (Inl e)
      show ?thesis
        unfolding Inl sum.case wp_bind wp_get
        by (rule wp_mono [OF hoareD [OF listing_error_keeps t]]) (simp add: wp_return)
    next
      case (Inr p)
      obtain convs capped where p: "p = (convs, capped)" by (rule prod.exhaust)
      have none: "list_all wf_result (replicate n None)" for n by (simp add: list_all_iff wf_result_def)
      have "wp (sync_jobs env ?lc cs js (replicate n None)) (\<lambda>rs t. list_all wf_result rs \<and> sync_fence ?lc t) t" for cs js n
        using sync_jobs_yields [OF none] hoareD [OF sync_fence.sync_jobs_keeps t] by (simp add: wp_conj yields_def)
      then show ?thesis
        unfolding Inr p sum.case prod.case Let_def wp_bind [of "sync_jobs _ _ _ _ _"]
        by (rule wp_mono) (use emit in blast)
    qed
  qed
qed

text \<open>The fence of a sync at its relay calls. Whatever happens during the relay calls of a full sync, it
  emits only under the lifecycle it started in; the one exception is the error of a failed listing.
  (Between the chunks of one list, where the goroutine waits for stdout, there is no fence: see
  \<open>Emission\<close>.)\<close>

lemma sync_fenced:
  assumes "s_trace s = []" and "run_state (fullSync env) s = (ok, t)"
    and "e \<in> set (s_trace t)" and "te_action e = Emit evt"
  shows "te_lifecycle e = s_lifecycle s \<or> ev_Type evt = ''error'' \<and> ev_Message evt = ''conversation sync failed''"
proof -
  have start: "sync_fence (s_lifecycle s) s" using assms(1) by (simp add: sync_fence_def)
  have rest: "keeps (sync_fence lc) (do {
         healed \<leftarrow> heal_windows env lc recentWindowRefresh (so_results o1);
         if \<not> healed then State_Monad.return False
         else do {
           said \<leftarrow> emit_reads lc (so_threads o1) (so_threads o1);
           s \<leftarrow> State_Monad.get;
           if \<not> said \<or> \<not> current lc s then State_Monad.return False
           else do {
             saveAuthIfCurrent env lc;
             State_Monad.return (so_complete o1 \<or> so_threads o1 \<noteq> [])
           }
         } })" for lc o1
    by (intro keeps_rules sync_fence.heal_keeps sync_fence.emit_reads_keeps sync_fence.save_keeps)
  have "wp (fullSync env) (\<lambda>_. sync_fence (s_lifecycle s)) s"
    unfolding fullSync_def wp_bind [of "fullSyncLocked env"]
    by (rule wp_mono [OF sync_locked_fenced [OF start]])
       (auto simp: wp_return Let_def hoareD [OF rest] split: option.split)
  from wp_run [OF this assms(2)] assms(3,4) show ?thesis
    by (auto simp: sync_fence_def listing_error_def)
qed

text \<open>A logout moves the lifecycle while the listing is under way, and the listing fails.\<close>

definition w_overtaken :: env where
  "w_overtaken = w_env\<lparr>e_relay := (\<lambda>c q s. (empty_reply\<lparr>rp_err := Some [ErrOther]\<rparr>, s\<lparr>s_lifecycle := 7\<rparr>))\<rparr>"

lemma late_listing_error:
  "\<exists>e evt. e \<in> set (s_trace (snd (run_state (fullSync w_overtaken) w_online))) \<and> te_action e = Emit evt
    \<and> te_lifecycle e = 7 \<and> ev_Message evt = ''conversation sync failed''"
proof -
  obtain ok t where run: "run_state (fullSync w_overtaken) w_online = (ok, t)" by (rule prod.exhaust)
  let ?msg = "error_event ''a'' ''conversation sync failed''"
  have "wp (fullSync w_overtaken) (\<lambda>_ t. \<lparr>te_lifecycle = 7, te_closed = False, te_action = Emit ?msg\<rparr> \<in> set (s_trace t)) w_online"
    by (simp add: fullSync_def fullSyncLocked_def listAllConversations_def maxSyncPages_def eval_nat_numeral
        fetch_page_def wp_simps alive_def current_def w_overtaken_def stamp_def Let_def w_online_fields)
  from wp_run [OF this run] have "\<lparr>te_lifecycle = 7, te_closed = False, te_action = Emit ?msg\<rparr> \<in> set (s_trace t)" .
  moreover have "s_lifecycle w_online = 0" by (simp add: w_online_def NewSession_def)
  ultimately show ?thesis
    using sync_fenced [OF w_online_fields(2) run, of "\<lparr>te_lifecycle = 7, te_closed = False, te_action = Emit ?msg\<rparr>" ?msg] run
    by auto
qed

end
