(* ===== verification/LogView.thy ===== *)
theory LogView
  imports Sha256
begin

text \<open>
  \<open>adapter/log.go\<close>: what the adapter writes to its log. A log record is its list of named fields, in
  the order \<open>LogEvent\<close> adds them. The promise is that bodies, prompts, names, addresses and paths stay
  out of the log; it is stated as non-interference: two events, or two commands, that differ only in
  such content have the same log record.
\<close>

datatype log_value = Log_Str go_string | Log_Int nat | Log_Bool bool

type_synonym log_record = "(go_string \<times> log_value) list"

definition hex_byte :: "char \<Rightarrow> go_string" where
  "hex_byte c = [hex_digit (byte c div 16), hex_digit (byte c mod 16)]"

definition redactID :: "go_string \<Rightarrow> go_string" where
  "redactID i = concat (map hex_byte (take 8 (sha256 i)))"

text \<open>Sixteen hexadecimal digits, whatever the identifier.\<close>

lemma redactID_shape: "length (redactID i) = 16" and "set (redactID i) \<subseteq> set ''0123456789abcdef''"
proof -
  have "length (concat (map hex_byte bs)) = 2 * length bs" for bs
    by (induction bs) (simp_all add: hex_byte_def)
  then show "length (redactID i) = 16" by (simp add: redactID_def length_sha256)
  have digit: "hex_digit n \<in> set ''0123456789abcdef''" for n
    unfolding hex_digit_def by (intro nth_mem) simp
  have byte: "set (hex_byte c) \<subseteq> set ''0123456789abcdef''" for c
    unfolding hex_byte_def using digit by (simp del: set_simps add: list.set)
  have "set (concat (map hex_byte bs)) \<subseteq> set ''0123456789abcdef''" for bs
    unfolding set_concat set_map using byte by blast
  then show "set (redactID i) \<subseteq> set ''0123456789abcdef''"
    unfolding redactID_def .
qed

definition LogEvent :: "event \<Rightarrow> log_record" where
  "LogEvent evt =
     (let account = (''account'', Log_Str (ev_Account evt));
          conv = (''conversation'', Log_Str (ev_Conversation evt));
          msg = (''message'', Log_Str (ev_Message evt));
          full = (''full'', Log_Bool (ev_Full evt)); ty = ev_Type evt in
      (''event'', Log_Str ty) #
      (if ty \<in> {''account'', ''account_removed'', ''pairing''} then [account]
       else if ty = ''conversations'' then
         [account, (''count'', Log_Int (length (nonNilConversations (ev_Conversations evt)))), full]
       else if ty = ''conversation_removed'' then [account, conv]
       else if ty = ''messages'' then
         [account, conv, (''count'', Log_Int (length (nonNilMessages (ev_Messages evt)))), full]
       else if ty = ''message_removed'' then [account, conv, msg]
       else if ty = ''status'' then [account, conv, msg, (''status'', Log_Str (ev_Status evt))]
       else if ty = ''typing'' then
         [account, conv, (''participants'', Log_Int (length (nonNilStrings (ev_Participants evt))))]
       else if ty = ''read'' then [account, conv, (''unread'', Log_Bool (ev_Unread evt))]
       else if ty = ''command_result'' then
         [(''request_id'', Log_Str (ev_RequestID evt)), (''ok'', Log_Bool (ev_OK evt))]
       else if ty = ''error'' then [(''message_len'', Log_Int (length (ev_Message evt)))]
       else []))"

definition log_part :: "go_string \<Rightarrow> go_string \<Rightarrow> go_string" where
  "log_part label v = (if v \<noteq> [] then label @ v else [])"

definition SanitizeCommand :: "command \<Rightarrow> go_string" where
  "SanitizeCommand cmd =
     cmd_Type cmd @ log_part '' account='' (cmd_Account cmd)
       @ log_part '' conversation='' (cmd_Conversation cmd)
       @ log_part '' message='' (cmd_Message cmd) @ log_part '' request='' (cmd_RequestID cmd)"

text \<open>The content of an event: everything but its type, ids, flags, sizes and status.\<close>

definition same_outline :: "event \<Rightarrow> event \<Rightarrow> bool" where
  "same_outline e f \<longleftrightarrow>
     ev_Type e = ev_Type f \<and> ev_Account e = ev_Account f \<and> ev_Conversation e = ev_Conversation f
     \<and> ev_Full e = ev_Full f \<and> ev_Status e = ev_Status f \<and> ev_Unread e = ev_Unread f
     \<and> ev_RequestID e = ev_RequestID f \<and> ev_OK e = ev_OK f
     \<and> length (nonNilConversations (ev_Conversations e)) = length (nonNilConversations (ev_Conversations f))
     \<and> length (nonNilMessages (ev_Messages e)) = length (nonNilMessages (ev_Messages f))
     \<and> length (nonNilStrings (ev_Participants e)) = length (nonNilStrings (ev_Participants f))
     \<and> (if ev_Type e = ''error'' then length (ev_Message e) = length (ev_Message f)
        else ev_Message e = ev_Message f)"

text \<open>C36: the log holds no content. Two events with the same type, ids, flags, status and sizes leave
  the same log record, whatever their conversations, messages, participants, prompt, label, error
  text and cursors hold (the text of an error event shows only its length); and what is logged of a
  command does not depend on its bundle, text, caption, path, emoji or addresses.\<close>

theorem log_hides_content:
  assumes "same_outline e f"
  shows "LogEvent e = LogEvent f
    \<and> SanitizeCommand (cmd\<lparr>cmd_BundleB64 := bundle, cmd_Text := txt, cmd_Caption := caption,
         cmd_Path := path, cmd_Emoji := emoji, cmd_Addresses := addresses\<rparr>) = SanitizeCommand cmd"
  using assms by (simp add: same_outline_def LogEvent_def SanitizeCommand_def Let_def)

definition w_typing_event :: "go_string list \<Rightarrow> event" where
  "w_typing_event ps = (mk_event ''typing'')\<lparr>ev_Account := ''a'', ev_Conversation := ''t'',
     ev_Participants := Some ps\<rparr>"

lemma log_hides_content_witness:
  "LogEvent (w_typing_event [''+1'']) = LogEvent (w_typing_event [''+2''])
   \<and> w_typing_event [''+1''] \<noteq> w_typing_event [''+2'']"
proof -
  have "same_outline (w_typing_event [''+1'']) (w_typing_event [''+2''])"
    by (simp add: same_outline_def w_typing_event_def mk_event_def nonNilStrings_def)
  from log_hides_content [OF this] show ?thesis
    by (simp add: w_typing_event_def mk_event_def)
qed

end
