(* ===== verification/Restart.thy ===== *)
theory Restart
  imports HubProps
begin

text \<open>
  From a save to the next start of the program: what \<open>saveAuthIfCurrent\<close> published is what \<open>hello\<close>
  restores. The save may be cut off at any point by a crash; the next process sweeps the staging
  directory and old temporary files, lists the accounts and loads each session file.
\<close>

subsection \<open>Restoring one session\<close>

lemma restore_frame: "wp (Restore env) (\<lambda>_ t. s_store t = s_store s \<and> s_account t = s_account s) s"
  by (auto simp: Restore_def small_progs wp_simps split: sum.split option.split)

lemma restore_loads:
  assumes "LoadAuth (e_unmarshalAuth env) (e_faults env) (s_account s) (s_store s) = Inr (Some data)"
    and "\<not> s_closed s"
  shows "wp (Restore env) (\<lambda>ok t. ok \<and> map_option au_data (s_auth t) = Some data \<and> s_client t \<noteq> None
    \<and> account_event (s_account s) False (e_authMobile env data) \<in> set (emitted t)) s"
  using assms by (auto simp: Restore_def small_progs wp_simps emitted_def split: option.split)

text \<open>Every session of the map belongs to its account.\<close>

definition named :: "hub \<Rightarrow> bool" where
  "named h \<longleftrightarrow> (\<forall>(account, p) \<in> set (h_sessions h). s_account (h_heap h ! p) = account)"

definition restored :: "env \<Rightarrow> go_string \<Rightarrow> bytes \<Rightarrow> hub \<Rightarrow> bool" where
  "restored env account data h \<longleftrightarrow> (\<exists>p. map_of (h_sessions h) account = Some p
     \<and> map_option au_data (s_auth (h_heap h ! p)) = Some data \<and> s_client (h_heap h ! p) \<noteq> None
     \<and> marshal_event (account_event account False (e_authMobile env data)) \<in> set (h_out h))"

definition restore_one :: "env \<Rightarrow> go_string \<Rightarrow> hub \<Rightarrow> hub" where
  "restore_one env account h =
     (if \<not> validAccount account then h
      else case hub_session account h of (p, h) \<Rightarrow> snd (run_on p (Restore env) h))"

lemma restore_fold:
  "restore env h = fold (restore_one env) (Accounts (e_faults env) (mn_store (h_machine h))) h"
  by (simp add: restore_def restore_one_def [abs_def])

lemma session_named:
  assumes "hub_session account h = (p, h')" and "hub_inv env h" and "named h"
  shows "named h'" and "h_machine h' = h_machine h" and "s_account (h_heap h' ! p) = account"
    and "map_of (h_sessions h) b = Some q \<Longrightarrow>
      map_of (h_sessions h') b = Some q \<and> h_heap h' ! q = h_heap h ! q"
proof -
  have range: "q < length (h_heap h)" if "(b, q) \<in> set (h_sessions h)" for b q
    using assms(2) that by (force simp: hub_inv_def owned_def mapped_def)
  then show "named h'" "h_machine h' = h_machine h" "s_account (h_heap h' ! p) = account"
    using assms(1,3)
    by (auto simp: hub_session_def named_def nth_append NewSession_def split: option.splits dest!: map_of_SomeD)
  show "map_of (h_sessions h') b = Some q \<and> h_heap h' ! q = h_heap h ! q" if "map_of (h_sessions h) b = Some q"
    using assms(1) that range [OF map_of_SomeD [OF that]]
    by (auto simp: hub_session_def nth_append split: option.splits)
qed

lemma restore_one_step:
  assumes "env_open env" and "hub_inv env h" and "serving h" and "named h"
    and step: "h' = restore_one env account h"
  shows "hub_inv env h' \<and> serving h' \<and> named h' \<and> mn_store (h_machine h') = mn_store (h_machine h)"
    and "restored env b data h \<Longrightarrow> b \<noteq> account \<Longrightarrow> restored env b data h'"
    and "validAccount account \<Longrightarrow>
      LoadAuth (e_unmarshalAuth env) (e_faults env) account (mn_store (h_machine h)) = Inr (Some data)
      \<Longrightarrow> restored env account data h'"
proof -
  obtain p h1 where ses: "hub_session account h = (p, h1)" by (rule prod.exhaust)
  note i = session_effect [OF ses assms(2,3)]
  note one = session_named [OF ses assms(2,4)]
  let ?s = "on_machine (h_machine h1) (h_heap h1 ! p)"
  obtain x t where run: "run_state (Restore env) ?s = (x, t)" by (rule prod.exhaust)
  obtain y h2 where on: "run_on p (Restore env) h1 = (y, h2)" by (rule prod.exhaust)
  have h2: "h2 = h1\<lparr>h_heap := (h_heap h1)[p := t], h_machine := machine_of t,
      h_out := h_out h1 @ map marshal_event (emitted t)\<rparr>"
    using on by (simp add: run_on_def run)
  have h': "h' = (if validAccount account then h2 else h)"
    by (simp add: step restore_one_def ses on)
  have t: "s_store t = mn_store (h_machine h)" "s_account t = account"
    using wp_run [OF restore_frame run] one(2,3) by (simp_all add: on_machine_def)
  have inv: "hub_inv env h2" by (rule inv_run [OF stable_progs(3) on]) (use i in blast)+
  have keys: "distinct (map fst (h_sessions h1))" "distinct (map snd (h_sessions h1))"
    using i by (simp_all add: hub_inv_def owned_def)
  have other: "q \<noteq> p" if "map_of (h_sessions h1) b = Some q" "b \<noteq> account" for b q
    using that i keys(2) by (metis map_of_SomeD distinct_map inj_onD snd_conv fst_conv)
  have "named h2"
    using one(1,3) t(2) i by (auto simp: named_def h2 nth_list_update)
  with inv i h2 t(1) assms(2-4) show "hub_inv env h' \<and> serving h' \<and> named h'
      \<and> mn_store (h_machine h') = mn_store (h_machine h)"
    by (simp add: h' machine_of_def serving_def)
  show "restored env b data h'" if b: "restored env b data h" "b \<noteq> account"
  proof -
    obtain q where q: "map_of (h_sessions h) b = Some q" "map_option au_data (s_auth (h_heap h ! q)) = Some data"
      "s_client (h_heap h ! q) \<noteq> None"
      "marshal_event (account_event b False (e_authMobile env data)) \<in> set (h_out h)"
      using b(1) by (auto simp: restored_def)
    have q1: "map_of (h_sessions h1) b = Some q" "h_heap h1 ! q = h_heap h ! q" using one(4) [OF q(1)] by blast+
    have "q \<noteq> p" by (rule other [OF q1(1) b(2)])
    with q q1 i have "restored env b data h2" by (auto simp: restored_def h2)
    with b(1) show ?thesis by (simp add: h')
  qed
  show "restored env account data h'" if v: "validAccount account"
    "LoadAuth (e_unmarshalAuth env) (e_faults env) account (mn_store (h_machine h)) = Inr (Some data)"
  proof -
    have "LoadAuth (e_unmarshalAuth env) (e_faults env) (s_account ?s) (s_store ?s) = Inr (Some data)"
      "\<not> s_closed ?s" "s_account ?s = account"
      using v(2) one(2,3) i assms(1) by (simp_all add: on_machine_def)
    with wp_run [OF restore_loads run] i have "restored env account data h2"
      by (auto simp: restored_def h2)
    with v(1) show ?thesis by (simp add: h')
  qed
qed

lemma restore_all:
  assumes "env_open env" and "hub_inv env h" and "serving h" and "named h"
    and "mn_store (h_machine h) = d"
    and "validAccount account" and "LoadAuth (e_unmarshalAuth env) (e_faults env) account d = Inr (Some data)"
  shows "account \<in> set accounts \<or> restored env account data h
    \<Longrightarrow> restored env account data (fold (restore_one env) accounts h)"
  using assms(2-5)
proof (induction accounts arbitrary: h)
  case (Cons b bs)
  note one = restore_one_step [OF assms(1) Cons.prems(2-4) refl, where account = b]
  have "account \<in> set bs \<or> restored env account data (restore_one env b h)"
  proof (cases "b = account")
    case True
    with one(3) assms(6,7) Cons.prems(5) show ?thesis by blast
  next
    case False
    with one(2) Cons.prems(1) show ?thesis by auto
  qed
  with Cons.IH one(1) Cons.prems(5) show ?case by simp
qed simp

lemma start_store:
  assumes "accountFile account = Some path"
  shows "map_of (mn_store (h_machine (start_hub env m))) path = map_of (mn_store m) path"
proof -
  have "\<not> (has_prefix path ''.session-'' \<and> has_suffix path ''.tmp'')"
  proof
    assume "has_prefix path ''.session-'' \<and> has_suffix path ''.tmp''"
    then have "last path = CHR ''p''" by (auto simp: has_suffix_def suffix_def)
    moreover have "last path = CHR ''n''" using accountFile_Some [OF assms] by (simp add: session_suffix_def)
    ultimately show False by simp
  qed
  then show ?thesis
    using sweep_temps_effect [of "e_faults env" _ _ "mn_store m" _ _ _ path]
    by (auto simp: start_hub_def new_hub_def SweepStaged_def Let_def split: prod.split)
qed

lemma hello_restores:
  assumes "env_open env" and "e_faults env = no_faults" and "accountFile account = Some path"
    and "map_of (mn_store m) path = Some f" and "e_unmarshalAuth env (f_bytes f) = Some data"
    and "cmd_Type cmd = ''hello''"
  shows "restored env account data (dispatch env cmd (start_hub env m))"
proof -
  let ?h = "hub_write hello_event (start_hub env m)"
  let ?d = "mn_store (h_machine ?h)"
  have d: "map_of ?d path = Some f"
    using start_store [OF assms(3)] assms(4) by (simp add: hub_write_def)
  have load: "LoadAuth (e_unmarshalAuth env) (e_faults env) account ?d = Inr (Some data)"
    using assms(2,3,5) d by (simp add: LoadAuth_def no_faults_def)
  have "account \<in> set (Accounts (e_faults env) ?d)"
    using listed_ok [OF assms(3)] d assms(2) by (simp add: load_ok_eq [OF assms(3)])
  moreover have "named ?h" "h_sessions ?h = []"
    by (simp_all add: named_def hub_write_def start_hub_def new_hub_def split: prod.split)
  moreover have "validAccount account" using gates_agree assms(3) by simp
  moreover have "serving ?h" using inv_start(2) by simp
  ultimately have "restored env account data (restore env ?h)"
    unfolding restore_fold using restore_all [OF assms(1) _ _ _ refl _ load] inv_start(1) by simp
  then show ?thesis using assms(6) by (simp add: dispatch_def command_plan_def Let_def)
qed

text \<open>C26: a saved session survives a restart. The save of an account may end, or be cut off by a crash at
  any point; the next process, on its \<open>hello\<close>, announces the account and gives it a session with a
  client and with auth data that are the old file's or the new save's, never anything else; and the
  new save's when the save had reported success.\<close>

theorem session_survives_restart:
  assumes "env_open env" and "e_faults env = no_faults" and "accountFile account = Some path"
    and "WriteAuth fl now part rnd account raw d = (err, h)"
    and "mn_store m \<in> set h" and "err = None \<Longrightarrow> mn_store m = last h"
    and "map_of d path = Some f" and "e_unmarshalAuth env (f_bytes f) = Some old_auth"
    and "e_unmarshalAuth env raw = Some new_auth" and "cmd_Type cmd = ''hello''"
  shows "\<exists>data p. data \<in> {old_auth, new_auth} \<and> (err = None \<longrightarrow> data = new_auth)
    \<and> map_of (h_sessions (dispatch env cmd (start_hub env m))) account = Some p
    \<and> map_option au_data (s_auth (h_heap (dispatch env cmd (start_hub env m)) ! p)) = Some data
    \<and> s_client (h_heap (dispatch env cmd (start_hub env m)) ! p) \<noteq> None
    \<and> marshal_event (account_event account False (e_authMobile env data))
        \<in> set (h_out (dispatch env cmd (start_hub env m)))"
proof -
  note hist = WriteAuth_history [OF assms(3,4)]
  obtain g data where g: "map_of (mn_store m) path = Some g" "e_unmarshalAuth env (f_bytes g) = Some data"
    "data \<in> {old_auth, new_auth}" "err = None \<longrightarrow> data = new_auth"
  proof (cases "err = None")
    case True
    then show ?thesis using that hist(4) assms(6,9) by (auto simp: published_def)
  next
    case False
    then show ?thesis using that hist(2) [OF assms(5)] assms(7-9) by (auto simp: published_def)
  qed
  from hello_restores [OF assms(1-3) g(1,2) assms(10)] g(3,4) show ?thesis
    unfolding restored_def by blast
qed

definition w_old_store :: dir where
  "w_old_store = [(''a.session.json'', (new_temp 0)\<lparr>f_bytes := ''old''\<rparr>)]"

lemma session_survives_restart_witness:
  "\<exists>h m. snd (WriteAuth no_faults 9 0 ''7'' ''a'' ''new'' w_old_store) = h \<and> mn_store m = last h
    \<and> map_of (h_sessions (dispatch w_env (w_command ''hello'' []) (start_hub w_env m))) ''a'' \<noteq> None"
proof -
  obtain err h where w: "WriteAuth no_faults 9 0 ''7'' ''a'' ''new'' w_old_store = (err, h)" by (rule prod.exhaust)
  let ?m = "w_machine\<lparr>mn_store := last h\<rparr>"
  have f: "accountFile ''a'' = Some ''a.session.json''" by code_simp
  have "mn_store ?m \<in> set h" using WriteAuth_history(1) [OF f w] by simp
  moreover have "e_faults w_env = no_faults" "\<And>raw. e_unmarshalAuth w_env raw = Some raw" by (simp_all add: test_env_def)
  moreover have "map_of w_old_store ''a.session.json'' = Some ((new_temp 0)\<lparr>f_bytes := ''old''\<rparr>)"
    by (simp add: w_old_store_def)
  moreover have "cmd_Type (w_command ''hello'' []) = ''hello''" by (simp add: w_command_def)
  ultimately have "map_of (h_sessions (dispatch w_env (w_command ''hello'' []) (start_hub w_env ?m))) ''a'' \<noteq> None"
    using session_survives_restart [OF w_env_open _ f w, of ?m] by fastforce
  then show ?thesis using w by (intro exI [of _ h] exI [of _ ?m]) simp
qed

end
