(* ===== verification/Schedule.thy ===== *)
theory Schedule
  imports Requests
begin

text \<open>
  The worker pool of a full sync. The workers map threads in any order and share the set of the local
  user's identities, which each mapped thread extends. When the listing teaches nothing new, the
  results are those of one pass over the list, in every order; when it does, they depend on the order.
\<close>

definition thread_of :: "go_string set \<Rightarrow> pb_conversation \<Rightarrow> thread_result option" where
  "thread_of known conv = (case mapConversation (Some conv) known of
     Inl e \<Rightarrow> None | Inr (v, meta) \<Rightarrow> Some \<lparr>tr_thread = v, tr_unread = pc_Unread conv\<rparr>)"

text \<open>A listing from which the session learns no identity of the local user.\<close>

definition settled :: "go_string set \<Rightarrow> pb_conversation list \<Rightarrow> bool" where
  "settled known convs \<longleftrightarrow>
     (\<forall>c \<in> set convs. pc_Participants c \<noteq> []
        \<and> (\<forall>v meta. mapConversation (Some c) known = Inr (v, meta) \<longrightarrow> self_ids_of v \<subseteq> known))"

lemma job_maps:
  assumes "mapConversation (Some c) (s_selfIDs s) = Inr (v, meta)" and "s_lifecycle s = lc"
  shows "wp (sync_job env lc c) (\<lambda>r t. r = Some \<lparr>tr_thread = v, tr_unread = pc_Unread c\<rparr>
    \<and> s_selfIDs t = s_selfIDs s \<union> self_ids_of v \<and> s_lifecycle t = lc) s"
  using assms by (simp add: sync_job_def session_mapConversation_def set_meta_def wp_simps current_def)

lemma settled_job:
  assumes "settled known convs" and "c \<in> set convs" and "s_selfIDs s = known" and "s_lifecycle s = lc"
  shows "wp (sync_job env lc c) (\<lambda>r t. r = thread_of known c \<and> s_selfIDs t = known \<and> s_lifecycle t = lc) s"
  using assms
  by (auto simp: sync_job_def session_mapConversation_def set_meta_def wp_simps thread_of_def settled_def
      current_def split: sum.split)

lemma settled_jobs:
  assumes "settled known convs" and "set js \<subseteq> {..<length convs}"
    and "s_selfIDs s = known" and "s_lifecycle s = lc" and "length rs = length convs"
  shows "wp (sync_jobs env lc convs js rs) (\<lambda>r t. length r = length convs
    \<and> (\<forall>i < length convs. r ! i = (if i \<in> set js then thread_of known (convs ! i) else rs ! i))) s"
  using assms(2-5)
proof (induction js arbitrary: rs s)
  case (Cons j js)
  have mem: "convs ! j \<in> set convs" using Cons.prems(1) by simp
  show ?case
    unfolding sync_jobs.simps wp_bind
  proof (rule wp_mono [OF settled_job [OF assms(1) mem Cons.prems(2,3)]])
    fix r and t :: session assume r: "r = thread_of known (convs ! j) \<and> s_selfIDs t = known \<and> s_lifecycle t = lc"
    show "wp (sync_jobs env lc convs js (rs[j := r])) (\<lambda>r t. length r = length convs
      \<and> (\<forall>i < length convs. r ! i = (if i \<in> set (j # js) then thread_of known (convs ! i) else rs ! i))) t"
      by (rule wp_mono [OF Cons.IH]) (use Cons.prems r in \<open>auto simp: nth_list_update\<close>)
  qed
qed (simp add: wp_simps)

text \<open>A full sync does not depend on the schedule of its workers, when the listing teaches the session
  no new identity of its user. In whatever order the workers take the threads, each thread is mapped
  as it would be alone, and the results stand in the order of the listing.\<close>

lemma sync_schedule_free:
  assumes "settled (s_selfIDs s) convs" and "set js = {..<length convs}"
  shows "fst (run_state (sync_jobs env (s_lifecycle s) convs js (replicate (length convs) None)) s)
    = map (thread_of (s_selfIDs s)) convs"
proof -
  let ?run = "run_state (sync_jobs env (s_lifecycle s) convs js (replicate (length convs) None)) s"
  obtain r t where run: "?run = (r, t)" by (rule prod.exhaust)
  have "length r = length convs \<and> (\<forall>i < length convs. r ! i = thread_of (s_selfIDs s) (convs ! i))"
    using wp_run [OF settled_jobs [OF assms(1) _ refl refl] run] assms(2) by auto
  then have "r = map (thread_of (s_selfIDs s)) convs" by (simp add: list_eq_iff_nth_eq)
  with run show ?thesis by simp
qed

text \<open>The local user's identity is flagged in the first thread and not in the second.\<close>

definition flagged :: pb_conversation where
  "flagged = wConv CT_RCS [wPart ''+1'' ''me'' True, wPart ''+2'' ''peer'' False]"

definition unflagged :: pb_conversation where
  "unflagged = (wConv CT_RCS [wPart [] ''me'' False, wPart ''+3'' ''other'' False])\<lparr>pc_ConversationID := ''thread-2''\<rparr>"

lemma schedule_members:
  "map_participants {} (selfAddresses (pc_Participants flagged)) {} False (pc_Participants flagged)
   = [\<lparr>p_LocalID = ''me'', p_DisplayName = [], p_Address = ''+1'', p_IsSelf = True\<rparr>,
      \<lparr>p_LocalID = ''peer'', p_DisplayName = [], p_Address = ''+2'', p_IsSelf = False\<rparr>]"
  "map_participants known (selfAddresses (pc_Participants unflagged)) {} False (pc_Participants unflagged)
   = [\<lparr>p_LocalID = ''me'', p_DisplayName = [], p_Address = [], p_IsSelf = (''me'' \<in> known)\<rparr>,
      \<lparr>p_LocalID = ''other'', p_DisplayName = [], p_Address = ''+3'', p_IsSelf = False\<rparr>]"
  if "''other'' \<notin> known"
  using that
  by (simp_all add: flagged_def unflagged_def wConv_def wPart_def selfAddresses_def getter_defs mapParticipant_def
      senderKey_def selfSentinel_def resolve_def Let_def)

lemma schedule_fields:
  "pc_ConversationID flagged = ''thread''" "pc_ConversationID unflagged = ''thread-2''"
  "pc_IsGroupChat flagged = False" "pc_IsGroupChat unflagged = False"
  by (simp_all add: flagged_def unflagged_def wConv_def)

lemma flagged_maps: "\<exists>v meta. mapConversation (Some flagged) {} = Inr (v, meta) \<and> self_ids_of v = {''me''}"
  unfolding mapConversation_def option.case Let_def schedule_fields
    schedule_members(1) [of "{}", simplified]
  by (auto simp: self_ids_of_def simp del: set_map set_filter)

lemma unflagged_maps:
  assumes "''other'' \<notin> known"
  shows "\<exists>v meta. mapConversation (Some unflagged) known = Inr (v, meta) \<and> self_ids_of v = {''me''} \<inter> known"
  unfolding mapConversation_def option.case Let_def schedule_fields schedule_members(2) [OF assms]
  by (auto simp: self_ids_of_def simp del: set_map set_filter)

lemma two_jobs:
  assumes "mapConversation (Some (convs ! i)) (s_selfIDs s) = Inr (v, meta)"
    and "mapConversation (Some (convs ! j)) (s_selfIDs s \<union> self_ids_of v) = Inr (w, meta')"
  shows "wp (sync_jobs env (s_lifecycle s) convs [i, j] rs) (\<lambda>r t.
    r = rs[i := Some \<lparr>tr_thread = v, tr_unread = pc_Unread (convs ! i)\<rparr>,
           j := Some \<lparr>tr_thread = w, tr_unread = pc_Unread (convs ! j)\<rparr>]) s"
  unfolding sync_jobs.simps wp_bind
proof (rule wp_mono [OF job_maps [OF assms(1) refl]])
  fix r and t :: session
  assume r: "r = Some \<lparr>tr_thread = v, tr_unread = pc_Unread (convs ! i)\<rparr>
    \<and> s_selfIDs t = s_selfIDs s \<union> self_ids_of v \<and> s_lifecycle t = s_lifecycle s"
  then have t: "mapConversation (Some (convs ! j)) (s_selfIDs t) = Inr (w, meta')" "s_lifecycle t = s_lifecycle s"
    using assms(2) by simp_all
  show "wp (sync_job env (s_lifecycle s) (convs ! j)) (\<lambda>x. wp (State_Monad.return (rs[i := r, j := x]))
      (\<lambda>r t. r = rs[i := Some \<lparr>tr_thread = v, tr_unread = pc_Unread (convs ! i)\<rparr>,
           j := Some \<lparr>tr_thread = w, tr_unread = pc_Unread (convs ! j)\<rparr>])) t"
    by (rule wp_mono [OF job_maps [OF t]]) (use r in \<open>simp add: wp_return\<close>)
qed

text \<open>C39: but it does depend on it in general.  Take a listing whose first thread flags the local user's
  identity and whose second names the same identity without the flag. When the workers take the
  first thread first, the second thread shows that participant as the local user; when they take the
  second first, it shows the user as someone else, and so a two-party thread with no local member.\<close>

theorem sync_order_matters:
  assumes "s_selfIDs s = {}"
  shows "\<exists>a b. fst (run_state (sync_jobs env (s_lifecycle s) [flagged, unflagged] [0, 1] [None, None]) s) ! 1 = Some a
    \<and> fst (run_state (sync_jobs env (s_lifecycle s) [flagged, unflagged] [1, 0] [None, None]) s) ! 1 = Some b
    \<and> self_ids_of (tr_thread a) = {''me''} \<and> self_ids_of (tr_thread b) = {}"
proof -
  obtain v1 m1 where one: "mapConversation (Some flagged) {} = Inr (v1, m1)" "self_ids_of v1 = {''me''}"
    using flagged_maps by blast
  obtain v2 m2 where two: "mapConversation (Some unflagged) {''me''} = Inr (v2, m2)" "self_ids_of v2 = {''me''}"
    using unflagged_maps [of "{''me''}"] by auto
  obtain v3 m3 where three: "mapConversation (Some unflagged) {} = Inr (v3, m3)" "self_ids_of v3 = {}"
    using unflagged_maps [of "{}"] by auto
  let ?convs = "[flagged, unflagged]" and ?rs = "[None, None] :: thread_result option list"
  obtain r t where r: "run_state (sync_jobs env (s_lifecycle s) ?convs [0, 1] ?rs) s = (r, t)" by (rule prod.exhaust)
  obtain r' t' where r': "run_state (sync_jobs env (s_lifecycle s) ?convs [1, 0] ?rs) s = (r', t')" by (rule prod.exhaust)
  have "r ! 1 = Some \<lparr>tr_thread = v2, tr_unread = pc_Unread unflagged\<rparr>"
    using wp_run [OF two_jobs [of ?convs 0 s v1 m1 1 v2 m2] r] one two assms by simp
  moreover have "r' ! 1 = Some \<lparr>tr_thread = v3, tr_unread = pc_Unread unflagged\<rparr>"
    using wp_run [OF two_jobs [of ?convs 1 s v3 m3 0 v1 m1] r'] one three assms by simp
  ultimately show ?thesis using two(2) three(2) r r' by simp
qed

lemma sync_order_matters_witness:
  "fst (run_state (sync_jobs (test_env (\<lambda>q. empty_reply)) 0 [flagged, unflagged] [0, 1] [None, None]) w_session) ! 1
   \<noteq> fst (run_state (sync_jobs (test_env (\<lambda>q. empty_reply)) 0 [flagged, unflagged] [1, 0] [None, None]) w_session) ! 1"
proof -
  let ?env = "test_env (\<lambda>q. empty_reply)"
  have s: "s_selfIDs w_session = {}" "s_lifecycle w_session = 0" by (simp_all add: NewSession_def)
  obtain a b where
    "fst (run_state (sync_jobs ?env 0 [flagged, unflagged] [0, 1] [None, None]) w_session) ! 1 = Some a"
    "fst (run_state (sync_jobs ?env 0 [flagged, unflagged] [1, 0] [None, None]) w_session) ! 1 = Some b"
    and "self_ids_of (tr_thread a) = {''me''}" "self_ids_of (tr_thread b) = {}"
    using sync_order_matters [OF s(1), of ?env] unfolding s(2) by (elim exE conjE) (rule that)
  moreover from this(3,4) have "a \<noteq> b" by auto
  ultimately show ?thesis by (simp only: option.inject not_False_eq_True simp_thms)
qed

end
