(* ===== verification/SyncPool.thy ===== *)
theory SyncPool
  imports Schedule
begin

text \<open>
  The worker pool of \<open>fullSyncLocked\<close> (\<open>adapter/sync.go\<close>) at the granularity of its locks: eight workers
  take the thread indices from a channel in order; what a worker does for one thread is cut where
  another worker can get in. Run without others, the pieces of a job are \<open>sync_job\<close>.
\<close>

datatype job_pc =
    J_map "pb_conversation option" bool
  | J_learn "go_string list" conversation convMeta
  | J_fetch
  | J_check conversation convMeta
  | J_store conversation convMeta
  | J_done "thread_result option"

text \<open>\<open>J_map c retried\<close> is before the snapshot of the identities, \<open>J_learn ids\<close> before the next identity is
  added; the flag says that the record was fetched because the row named no participants.\<close>

definition job_seg :: "env \<Rightarrow> u64 \<Rightarrow> pb_conversation \<Rightarrow> job_pc \<Rightarrow> job_pc prog" where
  "job_seg env lifecycle conv pc =
     (case pc of
        J_map c retried \<Rightarrow> do {
          s \<leftarrow> State_Monad.get;
          State_Monad.return (case mapConversation c (s_selfIDs s) of
              Inl e \<Rightarrow> if \<not> retried \<and> pc_Participants conv = [] then J_fetch else J_done None
            | Inr (v, meta) \<Rightarrow> J_learn (map p_LocalID (filter p_IsSelf (c_Participants v))) v meta)
        }
      | J_learn [] v meta \<Rightarrow> State_Monad.return (J_check v meta)
      | J_learn (i # ids) v meta \<Rightarrow> do {
          State_Monad.update (\<lambda>s. s\<lparr>s_selfIDs := insert i (s_selfIDs s)\<rparr>);
          State_Monad.return (J_learn ids v meta)
        }
      | J_fetch \<Rightarrow> do {
          r \<leftarrow> getConversation env (pc_ConversationID conv);
          State_Monad.return (case r of Inl e \<Rightarrow> J_done None | Inr c \<Rightarrow> J_map c True)
        }
      | J_check v meta \<Rightarrow> do {
          s \<leftarrow> State_Monad.get;
          State_Monad.return (if \<not> current lifecycle s then J_done None else J_store v meta)
        }
      | J_store v meta \<Rightarrow> do {
          set_meta (pc_ConversationID conv) meta;
          State_Monad.return (J_done (Some \<lparr>tr_thread = v, tr_unread = pc_Unread conv\<rparr>))
        }
      | J_done r \<Rightarrow> State_Monad.return pc)"

inductive job_step :: "env \<Rightarrow> u64 \<Rightarrow> pb_conversation \<Rightarrow> job_pc \<times> session \<Rightarrow> job_pc \<times> session \<Rightarrow> bool"
  for env lc conv where
  job_moves: "run_state (job_seg env lc conv pc) s = (pc', t) \<Longrightarrow> job_step env lc conv (pc, s) (pc', t)"

subsection \<open>The pieces are the job\<close>

lemma run_seg:
  "run_state (job_seg env lc conv pc) s = (pc', t) \<Longrightarrow> (job_step env lc conv)\<^sup>*\<^sup>* (pc', t) y
    \<Longrightarrow> (job_step env lc conv)\<^sup>*\<^sup>* (pc, s) y"
  by (blast intro: converse_rtranclp_into_rtranclp job_moves)

lemma run_get: "run_state State_Monad.get s = (s, s)"
  by (simp add: State_Monad.get_def)

lemma run_ret: "run_state (State_Monad.return x) s = (x, s)"
  by (simp add: State_Monad.return_def)

lemma learn_all:
  "(job_step env lc conv)\<^sup>*\<^sup>* (J_learn ids v meta, s)
     (J_check v meta, s\<lparr>s_selfIDs := s_selfIDs s \<union> set ids\<rparr>)"
proof (induction ids arbitrary: s)
  case Nil
  show ?case by (rule run_seg [OF _ rtranclp.rtrancl_refl]) (simp add: job_seg_def run_ret)
next
  case (Cons i ids)
  show ?case
    by (rule run_seg [where t = "s\<lparr>s_selfIDs := insert i (s_selfIDs s)\<rparr>" and pc' = "J_learn ids v meta"])
       (use Cons.IH [of "s\<lparr>s_selfIDs := insert i (s_selfIDs s)\<rparr>"] in \<open>simp_all add: job_seg_def run_ret\<close>)
qed

text \<open>The end of a job once its record is mapped.\<close>

lemma finish_alone:
  assumes "run_state (do {
      s \<leftarrow> State_Monad.get;
      if \<not> current lc s then State_Monad.return None
      else do {
        set_meta (pc_ConversationID conv) meta;
        State_Monad.return (Some \<lparr>tr_thread = v, tr_unread = pc_Unread conv\<rparr>)
      } }) s = (r, t)"
  shows "(job_step env lc conv)\<^sup>*\<^sup>* (J_check v meta, s) (J_done r, t)"
proof (cases "current lc s")
  case True
  with assms have r: "r = Some \<lparr>tr_thread = v, tr_unread = pc_Unread conv\<rparr>"
    "run_state (set_meta (pc_ConversationID conv) meta) s = ((), t)"
    by (auto simp: run_get run_ret set_meta_def)
  show ?thesis
    by (rule run_seg [where pc' = "J_store v meta" and t = s], simp add: job_seg_def run_get run_ret True)
       (rule run_seg [OF _ rtranclp.rtrancl_refl], simp add: job_seg_def run_ret r)
next
  case False
  with assms have "r = None" "t = s" by (auto simp: run_get run_ret)
  with False show ?thesis
    by (intro run_seg [OF _ rtranclp.rtrancl_refl]) (simp add: job_seg_def run_get run_ret)
qed

lemma map_alone:
  assumes "run_state (session_mapConversation c) s = (r, u)"
  shows "case r of
      Inl e \<Rightarrow> (job_step env lc conv)\<^sup>*\<^sup>* (J_map c retried, s)
        (if \<not> retried \<and> pc_Participants conv = [] then J_fetch else J_done None, u)
    | Inr (v, meta) \<Rightarrow> (job_step env lc conv)\<^sup>*\<^sup>* (J_map c retried, s) (J_check v meta, u)"
proof (cases "mapConversation c (s_selfIDs s)")
  case (Inl e)
  with assms have "r = Inl e" "u = s"
    by (auto simp: session_mapConversation_def run_get run_ret)
  with Inl show ?thesis
    by (auto intro!: run_seg [OF _ rtranclp.rtrancl_refl] simp: job_seg_def run_get run_ret)
next
  case (Inr p)
  obtain v meta where p: "p = (v, meta)" by (rule prod.exhaust)
  with Inr assms have r: "r = Inr (v, meta)" "u = s\<lparr>s_selfIDs := s_selfIDs s \<union> self_ids_of v\<rparr>"
    by (auto simp: session_mapConversation_def run_get run_ret)
  have "(job_step env lc conv)\<^sup>*\<^sup>* (J_map c retried, s) (J_check v meta, u)"
    by (rule run_seg [where pc' = "J_learn (map p_LocalID (filter p_IsSelf (c_Participants v))) v meta" and t = s])
       (use learn_all [of env lc conv "map p_LocalID (filter p_IsSelf (c_Participants v))" v meta s]
        in \<open>simp_all add: job_seg_def run_get run_ret Inr p r(2) self_ids_of_def del: set_map set_filter\<close>)
  with r show ?thesis by simp
qed

lemma job_alone:
  assumes "run_state (sync_job env lc conv) s = (r, t)"
  shows "(job_step env lc conv)\<^sup>*\<^sup>* (J_map (Some conv) False, s) (J_done r, t)"
proof -
  let ?steps = "(job_step env lc conv)\<^sup>*\<^sup>*"
  obtain r1 u where one: "run_state (session_mapConversation (Some conv)) s = (r1, u)" by (rule prod.exhaust)
  note m1 = map_alone [OF one, of env lc conv False]
  show ?thesis
  proof (cases r1)
    case (Inr p)
    obtain v meta where p: "p = (v, meta)" by (rule prod.exhaust)
    with m1 Inr have "?steps (J_map (Some conv) False, s) (J_check v meta, u)" by simp
    also have "?steps (J_check v meta, u) (J_done r, t)"
      by (rule finish_alone) (use assms in \<open>simp add: sync_job_def one Inr p run_ret\<close>)
    finally show ?thesis .
  next
    case (Inl e)
    show ?thesis
    proof (cases "pc_Participants conv = []")
      case False
      with assms Inl one have "r = None" "t = u" by (simp_all add: sync_job_def run_ret)
      with m1 Inl False show ?thesis by simp
    next
      case True
      with m1 Inl have fetch: "?steps (J_map (Some conv) False, s) (J_fetch, u)" by simp
      obtain r2 w where two: "run_state (getConversation env (pc_ConversationID conv)) u = (r2, w)"
        by (rule prod.exhaust)
      show ?thesis
      proof (cases r2)
        case (Inl e2)
        with assms one \<open>r1 = Inl e\<close> True two have "r = None" "t = w" by (simp_all add: sync_job_def run_ret)
        moreover have "?steps (J_fetch, u) (J_done None, w)"
          by (rule run_seg [OF _ rtranclp.rtrancl_refl]) (simp add: job_seg_def two run_ret Inl)
        ultimately show ?thesis using fetch by simp
      next
        case (Inr c)
        have "?steps (J_fetch, u) (J_map c True, w)"
          by (rule run_seg [OF _ rtranclp.rtrancl_refl]) (simp add: job_seg_def two run_ret Inr)
        with fetch have again: "?steps (J_map (Some conv) False, s) (J_map c True, w)" by simp
        obtain r3 x where three: "run_state (session_mapConversation c) w = (r3, x)" by (rule prod.exhaust)
        note m3 = map_alone [OF three, of env lc conv True]
        show ?thesis
        proof (cases r3)
          case (Inl e3)
          with assms one \<open>r1 = Inl e\<close> True two Inr three have "r = None" "t = x"
            by (simp_all add: sync_job_def run_ret)
          with m3 Inl again show ?thesis by simp
        next
          fix p assume r3: "r3 = Inr p"
          obtain v meta where p: "p = (v, meta)" by (rule prod.exhaust)
          from r3 p m3 have "?steps (J_map c True, w) (J_check v meta, x)" by simp
          also have "?steps (J_check v meta, x) (J_done r, t)"
            by (rule finish_alone) (use assms one \<open>r1 = Inl e\<close> True two Inr three r3 p in
              \<open>simp add: sync_job_def run_ret\<close>)
          finally show ?thesis using again by simp
        qed
      qed
    qed
  qed
qed

subsection \<open>The pool\<close>

definition syncWorkers :: nat where "syncWorkers = 8"

record pool =
  pl_session :: session
  pl_results :: "thread_result option list"
  pl_queue :: "nat list"
  pl_workers :: "(nat \<times> job_pc) option list"

inductive pool_step :: "env \<Rightarrow> u64 \<Rightarrow> pb_conversation list \<Rightarrow> pool \<Rightarrow> pool \<Rightarrow> bool" for env lc convs where
  take_job: "w < length (pl_workers p) \<Longrightarrow> pl_workers p ! w = None \<Longrightarrow> pl_queue p = i # q \<Longrightarrow>
    pool_step env lc convs p
      (p\<lparr>pl_queue := q, pl_workers := (pl_workers p)[w := Some (i, J_map (Some (convs ! i)) False)]\<rparr>)"
| run_job: "w < length (pl_workers p) \<Longrightarrow> pl_workers p ! w = Some (i, pc) \<Longrightarrow> (\<forall>r. pc \<noteq> J_done r) \<Longrightarrow>
    run_state (job_seg env lc (convs ! i) pc) (pl_session p) = (pc', t) \<Longrightarrow>
    pool_step env lc convs p (p\<lparr>pl_session := t, pl_workers := (pl_workers p)[w := Some (i, pc')]\<rparr>)"
| end_job: "w < length (pl_workers p) \<Longrightarrow> pl_workers p ! w = Some (i, J_done r) \<Longrightarrow>
    pool_step env lc convs p
      (p\<lparr>pl_results := (pl_results p)[i := r], pl_workers := (pl_workers p)[w := None]\<rparr>)"

definition start_pool :: "pb_conversation list \<Rightarrow> session \<Rightarrow> pool" where
  "start_pool convs s = \<lparr>pl_session = s, pl_results = replicate (length convs) None,
     pl_queue = [0..<length convs], pl_workers = replicate syncWorkers None\<rparr>"

subsection \<open>Every schedule ends with the same results\<close>

text \<open>The segments a job has left at most, in a listing that teaches nothing.\<close>

fun job_cost :: "job_pc \<Rightarrow> nat" where
  "job_cost (J_map c retried) = (case c of None \<Rightarrow> 0 | Some c \<Rightarrow> length (pc_Participants c)) + 5"
| "job_cost (J_learn ids v meta) = length ids + 4"
| "job_cost J_fetch = 0"
| "job_cost (J_check v meta) = 3"
| "job_cost (J_store v meta) = 2"
| "job_cost (J_done r) = 1"

definition thread_cost :: "pb_conversation \<Rightarrow> nat" where
  "thread_cost c = length (pc_Participants c) + 6"

definition pool_cost :: "pb_conversation list \<Rightarrow> pool \<Rightarrow> nat" where
  "pool_cost convs p = (\<Sum>i\<leftarrow>pl_queue p. thread_cost (convs ! i))
     + (\<Sum>x\<leftarrow>pl_workers p. case x of None \<Rightarrow> 0 | Some (i, pc) \<Rightarrow> job_cost pc)"

text \<open>What a worker may hold for the thread \<open>c\<close>.\<close>

fun job_fits :: "go_string set \<Rightarrow> pb_conversation \<Rightarrow> job_pc \<Rightarrow> bool" where
  "job_fits known c (J_map d retried) \<longleftrightarrow> d = Some c"
| "job_fits known c (J_learn ids v meta) \<longleftrightarrow> mapConversation (Some c) known = Inr (v, meta)
     \<and> set ids \<subseteq> known"
| "job_fits known c J_fetch \<longleftrightarrow> False"
| "job_fits known c (J_check v meta) \<longleftrightarrow> mapConversation (Some c) known = Inr (v, meta)"
| "job_fits known c (J_store v meta) \<longleftrightarrow> mapConversation (Some c) known = Inr (v, meta)"
| "job_fits known c (J_done r) \<longleftrightarrow> r = thread_of known c"

definition held :: "pool \<Rightarrow> nat set" where
  "held p = {i. \<exists>w pc. w < length (pl_workers p) \<and> pl_workers p ! w = Some (i, pc)}"

definition pool_inv :: "go_string set \<Rightarrow> u64 \<Rightarrow> pb_conversation list \<Rightarrow> pool \<Rightarrow> bool" where
  "pool_inv known lc convs p \<longleftrightarrow>
     s_selfIDs (pl_session p) = known \<and> s_lifecycle (pl_session p) = lc
     \<and> length (pl_workers p) = syncWorkers \<and> length (pl_results p) = length convs
     \<and> set (pl_queue p) \<subseteq> {..<length convs}
     \<and> (\<forall>w < length (pl_workers p). \<forall>i pc. pl_workers p ! w = Some (i, pc) \<longrightarrow>
          i < length convs \<and> job_fits known (convs ! i) pc)
     \<and> (\<forall>i < length convs. i \<in> set (pl_queue p) \<or> i \<in> held p \<or> pl_results p ! i = thread_of known (convs ! i))"

lemma mapped_members:
  assumes "mapConversation (Some c) known = Inr (v, meta)"
  shows "length (filter p_IsSelf (c_Participants v)) \<le> length (pc_Participants c)"
proof -
  have "c_Participants v = map_participants known (selfAddresses (pc_Participants c)) {} False (pc_Participants c)"
    using assms by (elim mapConversation_Inr) simp
  then have "length (c_Participants v) \<le> length (pc_Participants c)"
    using list_emb_length [OF map_participants_subseq] by (metis length_map)
  then show ?thesis by (meson length_filter_le order_trans)
qed

lemma seg_fits:
  assumes "settled known convs" and "c \<in> set convs" and "job_fits known c pc"
    and "s_selfIDs s = known" and "s_lifecycle s = lc"
    and "run_state (job_seg env lc c pc) s = (pc', t)" and "\<forall>r. pc \<noteq> J_done r"
  shows "job_fits known c pc' \<and> s_selfIDs t = known \<and> s_lifecycle t = lc \<and> job_cost pc' < job_cost pc"
proof (cases pc)
  case (J_map d retried)
  have row: "pc_Participants c \<noteq> []" using assms(1,2) by (simp add: settled_def)
  show ?thesis
  proof (cases "mapConversation (Some c) known")
    case (Inl e)
    with assms J_map row show ?thesis by (auto simp: job_seg_def run_ret run_get thread_of_def)
  next
    case (Inr x)
    obtain v meta where x: "x = (v, meta)" by (rule prod.exhaust)
    have "self_ids_of v \<subseteq> known" using assms(1,2) Inr x by (simp add: settled_def)
    then have "p_LocalID ` {p \<in> set (c_Participants v). p_IsSelf p} \<subseteq> known" by (simp add: self_ids_of_def)
    with assms J_map Inr x mapped_members [of c known v meta] show ?thesis
      by (auto simp: job_seg_def run_ret run_get)
  qed
next
  case (J_learn ids v meta)
  with assms show ?thesis
    by (cases ids) (auto simp: job_seg_def run_ret)
qed (use assms in \<open>auto simp: job_seg_def run_ret run_get current_def set_meta_def thread_of_def\<close>)

lemma cost_update:
  fixes xs :: "(nat \<times> job_pc) option list"
  assumes "w < length xs"
  shows "(\<Sum>x\<leftarrow>xs[w := y]. f x) + f (xs ! w) = (\<Sum>x\<leftarrow>xs. f x) + (f y :: nat)"
  using assms by (induction xs arbitrary: w) (auto split: nat.splits simp: less_Suc_eq_0_disj)

lemma held_assign:
  assumes "w < length (pl_workers p)" and "pl_workers p ! w = None \<or> (\<exists>pc. pl_workers p ! w = Some (i, pc))"
    and "pl_workers q = (pl_workers p)[w := Some (i, pc')]"
  shows "held q = insert i (held p)"
proof (intro equalityI subsetI)
  fix j assume "j \<in> held q"
  then obtain v pc where "v < length (pl_workers p)" "(pl_workers p)[w := Some (i, pc')] ! v = Some (j, pc)"
    by (auto simp: held_def assms(3))
  then show "j \<in> insert i (held p)" by (cases "v = w") (auto simp: held_def)
next
  fix j assume j: "j \<in> insert i (held p)"
  show "j \<in> held q"
  proof (cases "j = i")
    case True
    with assms(1,3) show ?thesis by (auto simp: held_def intro!: exI [of _ w])
  next
    case False
    with j obtain v pc where v: "v < length (pl_workers p)" "pl_workers p ! v = Some (j, pc)" by (auto simp: held_def)
    with False assms(2) have "v \<noteq> w" by auto
    with v assms(3) show ?thesis by (auto simp: held_def intro!: exI [of _ v])
  qed
qed

lemma held_release:
  assumes "w < length (pl_workers p)" and "pl_workers p ! w = Some (i, pc)"
    and "pl_workers q = (pl_workers p)[w := None]" and "j \<in> held p"
  shows "j = i \<or> j \<in> held q"
proof -
  obtain v pc' where v: "v < length (pl_workers p)" "pl_workers p ! v = Some (j, pc')"
    using assms(4) by (auto simp: held_def)
  show ?thesis
  proof (cases "v = w")
    case False
    with v assms(3) show ?thesis by (auto simp: held_def intro!: exI [of _ v])
  qed (use v assms(2) in simp)
qed

lemma pool_keeps:
  assumes "pool_step env lc convs p q" and "settled known convs" and "pool_inv known lc convs p"
  shows "pool_inv known lc convs q \<and> pool_cost convs q < pool_cost convs p"
  using assms(1)
proof (cases rule: pool_step.cases)
  case (take_job w i js)
  then have i: "i < length convs" using assms(3) by (simp add: pool_inv_def)
  have h: "held q = insert i (held p)" by (rule held_assign [OF take_job(2)]) (use take_job in auto)
  have "pool_inv known lc convs q"
    using assms(3) take_job i h by (auto simp: pool_inv_def nth_list_update)
  moreover have "pool_cost convs q < pool_cost convs p"
    using cost_update [OF take_job(2), of "\<lambda>x. case x of None \<Rightarrow> 0 | Some (i, pc) \<Rightarrow> job_cost pc"
        "Some (i, J_map (Some (convs ! i)) False)"] take_job
    by (simp add: pool_cost_def thread_cost_def)
  ultimately show ?thesis ..
next
  case (run_job w i pc pc' t)
  then have i: "i < length convs" "job_fits known (convs ! i) pc"
    using assms(3) by (auto simp: pool_inv_def)
  have s: "s_selfIDs (pl_session p) = known" "s_lifecycle (pl_session p) = lc"
    using assms(3) by (simp_all add: pool_inv_def)
  from seg_fits [OF assms(2) _ i(2) s run_job(5,4)] i(1)
  have new: "job_fits known (convs ! i) pc'" "s_selfIDs t = known" "s_lifecycle t = lc" "job_cost pc' < job_cost pc"
    by simp_all
  have h: "held q = insert i (held p)" by (rule held_assign [OF run_job(2)]) (use run_job in auto)
  have "pool_inv known lc convs q"
    using assms(3) run_job(1,2) i(1) h new by (auto simp: pool_inv_def nth_list_update)
  moreover have "pool_cost convs q < pool_cost convs p"
    using cost_update [OF run_job(2), of "\<lambda>x. case x of None \<Rightarrow> 0 | Some (i, pc) \<Rightarrow> job_cost pc"
        "Some (i, pc')"] run_job(1,3) new(4)
    by (simp add: pool_cost_def)
  ultimately show ?thesis ..
next
  case (end_job w i r)
  then have i: "i < length convs" "r = thread_of known (convs ! i)"
    using assms(3) by (auto simp: pool_inv_def)
  have h: "j = i \<or> j \<in> held q" if "j \<in> held p" for j
    by (rule held_release [OF end_job(2,3) _ that]) (simp add: end_job(1))
  have "pool_inv known lc convs q"
    unfolding pool_inv_def
  proof (intro conjI)
    show "\<forall>j < length convs. j \<in> set (pl_queue q) \<or> j \<in> held q \<or> pl_results q ! j = thread_of known (convs ! j)"
    proof (intro allI impI)
      fix j assume j: "j < length convs"
      then have "j \<in> set (pl_queue p) \<or> j \<in> held p \<or> pl_results p ! j = thread_of known (convs ! j)"
        using assms(3) by (simp add: pool_inv_def)
      then show "j \<in> set (pl_queue q) \<or> j \<in> held q \<or> pl_results q ! j = thread_of known (convs ! j)"
        using h [of j] j i assms(3) by (cases "j = i") (auto simp: end_job(1) pool_inv_def)
    qed
  qed (use assms(3) end_job(1,2) in \<open>auto simp: pool_inv_def nth_list_update\<close>)
  moreover have "pool_cost convs q < pool_cost convs p"
    using cost_update [OF end_job(2), of "\<lambda>x. case x of None \<Rightarrow> 0 | Some (i, pc) \<Rightarrow> job_cost pc" None] end_job(1,3)
    by (simp add: pool_cost_def)
  ultimately show ?thesis ..
qed

text \<open>A pool that cannot move is empty: a free worker takes the next job, a busy one runs its own.\<close>

lemma pool_moves:
  assumes "\<forall>q. \<not> pool_step env lc convs p q" and "length (pl_workers p) = syncWorkers"
  shows "pl_queue p = [] \<and> held p = {}"
proof -
  have idle: "pl_workers p ! w = None" if w: "w < length (pl_workers p)" for w
  proof (rule ccontr)
    assume "pl_workers p ! w \<noteq> None"
    then obtain i pc where pc: "pl_workers p ! w = Some (i, pc)" by auto
    obtain pc' t where run: "run_state (job_seg env lc (convs ! i) pc) (pl_session p) = (pc', t)" by (rule prod.exhaust)
    show False
    proof (cases "\<exists>r. pc = J_done r")
      case True
      with end_job [OF w] pc assms(1) show False by blast
    next
      case False
      with pool_step.run_job [OF w pc _ run] assms(1) show False by blast
    qed
  qed
  moreover have "pl_queue p = []"
  proof (cases "pl_queue p")
    case (Cons i js)
    have "0 < length (pl_workers p)" using assms(2) by (simp add: syncWorkers_def)
    from take_job [OF this idle [OF this] Cons] assms(1) show ?thesis by blast
  qed
  ultimately show ?thesis by (auto simp: held_def)
qed

lemma start_inv:
  assumes "s_selfIDs s = known" and "s_lifecycle s = lc"
  shows "pool_inv known lc convs (start_pool convs s)"
  using assms by (auto simp: pool_inv_def start_pool_def)

lemma start_cost: "pool_cost convs (start_pool convs s) = (\<Sum>c\<leftarrow>convs. thread_cost c)"
proof -
  have "map (\<lambda>i. thread_cost (convs ! i)) [0..<length convs] = map thread_cost convs"
    by (rule nth_equalityI) simp_all
  then show ?thesis
    by (simp add: pool_cost_def start_pool_def sum_list_replicate)
qed

text \<open>C30: the worker pool of a full sync terminates, and every schedule ends with the same results, when
  the listing teaches the session no new identity of its user. However the eight workers interleave
  between their locks, a run of the pool has at most as many steps as the threads have participants
  and six more each; a pool that can move no further has mapped every thread as it would be mapped
  alone, with the results in the order of the listing.\<close>

theorem pool_schedule_free:
  assumes "settled (s_selfIDs s) convs"
    and "(pool_step env (s_lifecycle s) convs ^^ n) (start_pool convs s) p"
  shows "n \<le> (\<Sum>c\<leftarrow>convs. length (pc_Participants c) + 6)
    \<and> ((\<exists>q. pool_step env (s_lifecycle s) convs p q) \<or> pl_results p = map (thread_of (s_selfIDs s)) convs)"
proof -
  let ?inv = "pool_inv (s_selfIDs s) (s_lifecycle s) convs"
  have "?inv p \<and> n + pool_cost convs p \<le> pool_cost convs (start_pool convs s)"
    using assms(2)
  proof (induction n arbitrary: p)
    case 0
    then show ?case using start_inv [OF refl refl, of s convs] by simp
  next
    case (Suc n)
    then obtain q where "(pool_step env (s_lifecycle s) convs ^^ n) (start_pool convs s) q"
      "pool_step env (s_lifecycle s) convs q p" by auto
    with Suc.IH pool_keeps [OF _ assms(1)] show ?case by fastforce
  qed
  then have inv: "?inv p" and "n + pool_cost convs p \<le> pool_cost convs (start_pool convs s)" by (rule conjunct1, rule conjunct2)
  then have n: "n \<le> (\<Sum>c\<leftarrow>convs. length (pc_Participants c) + 6)"
    by (simp only: start_cost thread_cost_def)
  have final: "pl_results p = map (thread_of (s_selfIDs s)) convs" if stuck: "\<forall>q. \<not> pool_step env (s_lifecycle s) convs p q"
  proof (rule nth_equalityI)
    from inv have w: "length (pl_workers p) = syncWorkers" by (simp only: pool_inv_def)
    from pool_moves [OF stuck w] have e: "pl_queue p = []" "held p = {}" by simp_all
    from inv show "length (pl_results p) = length (map (thread_of (s_selfIDs s)) convs)"
      by (simp only: pool_inv_def length_map)
    fix i assume "i < length (pl_results p)"
    with inv e show "pl_results p ! i = map (thread_of (s_selfIDs s)) convs ! i"
      by (simp add: pool_inv_def)
  qed
  show ?thesis
  proof (intro conjI n)
    show "(\<exists>q. pool_step env (s_lifecycle s) convs p q) \<or> pl_results p = map (thread_of (s_selfIDs s)) convs"
      using final by blast
  qed
qed

lemma pool_finishes:
  assumes "settled known convs" and "pool_inv known lc convs p"
  shows "\<exists>n q. (pool_step env lc convs ^^ n) p q \<and> (\<nexists>r. pool_step env lc convs q r)"
  using assms(2)
proof (induction "pool_cost convs p" arbitrary: p rule: less_induct)
  case less
  show ?case
  proof (cases "\<exists>r. pool_step env lc convs p r")
    case True
    then obtain r where r: "pool_step env lc convs p r" by blast
    from less.hyps pool_keeps [OF r assms(1) less.prems]
    obtain n q where "(pool_step env lc convs ^^ n) r q" "\<nexists>u. pool_step env lc convs q u" by blast
    moreover from this(1) r have "(pool_step env lc convs ^^ Suc n) p q" by (rule relpowp_Suc_I2 [rotated])
    ultimately show ?thesis by blast
  next
    case False
    have "(pool_step env lc convs ^^ 0) p p" by simp
    with False show ?thesis by blast
  qed
qed

lemma pool_schedule_free_witness:
  "\<exists>n p. (pool_step (test_env (\<lambda>q. empty_reply)) 0 [unflagged, unflagged] ^^ n)
       (start_pool [unflagged, unflagged] w_session) p \<and> n \<le> 16
     \<and> pl_results p = [thread_of {} unflagged, thread_of {} unflagged]"
proof -
  let ?env = "test_env (\<lambda>q. empty_reply)" and ?convs = "[unflagged, unflagged]"
  have s: "s_selfIDs w_session = {}" "s_lifecycle w_session = 0" by (simp_all add: NewSession_def)
  have members: "length (pc_Participants unflagged) = 2" by (simp add: unflagged_def wConv_def)
  then have "settled {} ?convs" using unflagged_maps [of "{}"] by (auto simp: settled_def)
  note set = this and free = pool_schedule_free [of w_session ?convs _ ?env, unfolded s, OF this]
  obtain n p where run: "(pool_step ?env 0 ?convs ^^ n) (start_pool ?convs w_session) p"
    and stuck: "\<nexists>r. pool_step ?env 0 ?convs p r"
    using pool_finishes [OF set start_inv [OF s]] by blast
  from free [OF run] stuck members run show ?thesis by auto
qed

end
