(* ===== verification/SyncInbox.thy ===== *)
theory SyncInbox
  imports MediaProps Schedule
begin

text \<open>
  What a full sync delivers. Against a phone that serves its inbox page by page, the listing is the
  inbox with its copies removed, and the sync publishes exactly the threads of the inbox, the most
  recent first.
\<close>

subsection \<open>The inbox as the listing should see it\<close>

text \<open>The conversations with an id, each id at its first place.\<close>

definition inbox_threads :: "pb_conversation list \<Rightarrow> pb_conversation list" where
  "inbox_threads xs = map ((!) xs) (filter (\<lambda>i. pc_ConversationID (xs ! i) \<noteq> []
     \<and> (\<forall>j < i. pc_ConversationID (xs ! j) \<noteq> pc_ConversationID (xs ! i))) [0..<length xs])"

lemma inbox_threads_Nil [simp]: "inbox_threads [] = []"
  by (simp add: inbox_threads_def)

lemma inbox_threads_snoc:
  "inbox_threads (xs @ [x]) = inbox_threads xs
     @ (if pc_ConversationID x \<noteq> [] \<and> pc_ConversationID x \<notin> pc_ConversationID ` set xs then [x] else [])"
proof -
  have "filter (\<lambda>i. pc_ConversationID ((xs @ [x]) ! i) \<noteq> []
      \<and> (\<forall>j < i. pc_ConversationID ((xs @ [x]) ! j) \<noteq> pc_ConversationID ((xs @ [x]) ! i))) [0..<length xs]
    = filter (\<lambda>i. pc_ConversationID (xs ! i) \<noteq> []
      \<and> (\<forall>j < i. pc_ConversationID (xs ! j) \<noteq> pc_ConversationID (xs ! i))) [0..<length xs]"
    by (rule filter_cong) (auto simp: nth_append)
  moreover have "map ((!) (xs @ [x])) (filter P [0..<length xs]) = map ((!) xs) (filter P [0..<length xs])" for P
    by (rule map_cong) (auto simp: nth_append)
  moreover have "(\<forall>j < length xs. pc_ConversationID ((xs @ [x]) ! j) \<noteq> pc_ConversationID x)
      \<longleftrightarrow> pc_ConversationID x \<notin> pc_ConversationID ` set xs"
    by (auto simp: nth_append image_iff Bex_def in_set_conv_nth)
  ultimately show ?thesis by (simp add: inbox_threads_def)
qed

lemma add_convs_append: "add_convs (cs @ ds) acc = add_convs ds (add_convs cs acc)"
  by (induction cs acc rule: add_convs.induct) auto

lemma add_convs_inbox:
  "add_convs (map Some xs) ({}, []) = (pc_ConversationID ` set xs - {[]}, inbox_threads xs)"
proof (induction xs rule: rev_induct)
  case (snoc x xs)
  then show ?case by (auto simp: add_convs_append inbox_threads_snoc)
qed simp

subsection \<open>The listing\<close>

definition inbox_page :: "nat \<Rightarrow> pb_conversation list \<Rightarrow> pb_conversation list" where
  "inbox_page i inbox = take conversationPage (drop (i * conversationPage) inbox)"

text \<open>A phone that serves the inbox: page after page, each with the cursor of the next, and without
  touching the session.\<close>

definition serves :: "env \<Rightarrow> nat \<Rightarrow> pb_conversation list \<Rightarrow> bool" where
  "serves env client inbox \<longleftrightarrow> (\<exists>at. (\<forall>i. rc_LastItemID (at i) \<noteq> [])
     \<and> (\<forall>i s. e_relay env client (ListConversations (if i = 0 then None else Some (at i))) s
          = (empty_reply\<lparr>rp_convs := map Some (inbox_page i inbox), rp_cursor := Some (at (Suc i))\<rparr>, s)))"

text \<open>Nothing has been said between two states, and what decides what the sync says is unchanged.\<close>

definition silent_step :: "session \<Rightarrow> session \<Rightarrow> bool" where
  "silent_step s t \<longleftrightarrow> s_selfIDs t = s_selfIDs s \<and> s_lifecycle t = s_lifecycle s \<and> s_closed t = s_closed s
     \<and> s_account t = s_account s \<and> s_syncGen t = s_syncGen s \<and> emitted t = emitted s"

lemma page_step: "take (i * conversationPage) inbox @ inbox_page i inbox = take (Suc i * conversationPage) inbox"
  using take_add [of "i * conversationPage" conversationPage inbox] by (simp add: inbox_page_def add.commute)

lemma list_pages_inbox:
  assumes "\<And>i. rc_LastItemID (at i) \<noteq> []"
    and "\<And>i s. e_relay env client (ListConversations (if i = 0 then None else Some (at i))) s
          = (empty_reply\<lparr>rp_convs := map Some (inbox_page i inbox), rp_cursor := Some (at (Suc i))\<rparr>, s)"
    and "s_lifecycle s = lc" and "i = 0 \<or> i * conversationPage \<le> length inbox"
  shows "wp (list_pages env client lc n (i = 0) (if i = 0 then None else Some (at i))
      (add_convs (map Some (take (i * conversationPage) inbox)) ({}, [])))
    (\<lambda>r t. r = Inr (inbox_threads (take ((i + n) * conversationPage) inbox), (i + n) * conversationPage \<le> length inbox)
      \<and> silent_step s t) s"
  using assms(3,4)
proof (induction n arbitrary: i s)
  case 0
  then show ?case
    by (auto simp: wp_return add_convs_inbox silent_step_def)
next
  case (Suc n)
  let ?p = "conversationPage"
  let ?s = "s\<lparr>s_trace := s_trace s @ [stamp s (Call client (ListConversations (if i = 0 then None else Some (at i))))]\<rparr>"
  have acc: "add_convs (map Some (inbox_page i inbox)) (add_convs (map Some (take (i * ?p) inbox)) ({}, []))
      = add_convs (map Some (take (Suc i * ?p) inbox)) ({}, [])"
    by (simp only: page_step [symmetric] map_append add_convs_append)
  have cur: "current lc s" using Suc.prems(1) by (simp add: current_def)
  have fetch: "wp (fetch_page env client (i = 0) (if i = 0 then None else Some (at i)))
      (\<lambda>r t. r = empty_reply\<lparr>rp_convs := map Some (inbox_page i inbox), rp_cursor := Some (at (Suc i))\<rparr> \<and> t = ?s) s"
    using assms(2) [of i s] by (simp add: fetch_page_def rpc_call_def wp_simps empty_reply_def)
  show ?case
    unfolding list_pages.simps wp_bind wp_get wp_if
  proof (simp only: cur simp_thms if_False, rule wp_mono [OF fetch], elim conjE, goal_cases)
    case (1 resp t)
    have len: "length (inbox_page i inbox) < ?p \<longleftrightarrow> length inbox < Suc i * ?p"
      using Suc.prems(2) by (auto simp: inbox_page_def min_def)
    have reply: "rp_err (empty_reply\<lparr>rp_convs := cs, rp_cursor := cu\<rparr>) = None"
      "rp_convs (empty_reply\<lparr>rp_convs := cs, rp_cursor := cu\<rparr>) = cs"
      "rp_cursor (empty_reply\<lparr>rp_convs := cs, rp_cursor := cu\<rparr>) = cu" for cs cu
      by (simp_all add: empty_reply_def)
    have idle: "silent_step s ?s" by (simp add: silent_step_def)
    show ?case
    proof (cases "length inbox < Suc i * ?p")
      case True
      moreover have "(i + Suc n) * ?p = Suc i * ?p + n * ?p" by (simp add: algebra_simps)
      ultimately have "take (Suc i * ?p) inbox = inbox" "take ((i + Suc n) * ?p) inbox = inbox"
        "\<not> (i + Suc n) * ?p \<le> length inbox"
        by simp_all
      with True len idle show ?thesis
        unfolding 1 reply acc by (simp add: wp_return add_convs_inbox del: mult_Suc)
    next
      case False
      have "wp (list_pages env client lc n (Suc i = 0) (if Suc i = 0 then None else Some (at (Suc i)))
          (add_convs (map Some (take (Suc i * ?p) inbox)) ({}, [])))
        (\<lambda>r t. r = Inr (inbox_threads (take ((Suc i + n) * ?p) inbox), (Suc i + n) * ?p \<le> length inbox)
          \<and> silent_step ?s t) ?s"
        by (rule Suc.IH) (use False Suc.prems in simp_all)
      then have "wp (list_pages env client lc n False (Some (at (Suc i)))
          (add_convs (map Some (take (Suc i * ?p) inbox)) ({}, [])))
        (\<lambda>r t. r = Inr (inbox_threads (take ((i + Suc n) * ?p) inbox), (i + Suc n) * ?p \<le> length inbox)
          \<and> silent_step ?s t) ?s"
        unfolding add_Suc_shift by (simp only: nat.distinct if_False)
      from wp_mono [OF this] have "wp (list_pages env client lc n False (Some (at (Suc i)))
          (add_convs (map Some (take (Suc i * ?p) inbox)) ({}, [])))
        (\<lambda>r t. r = Inr (inbox_threads (take ((i + Suc n) * ?p) inbox), (i + Suc n) * ?p \<le> length inbox)
          \<and> silent_step s t) ?s"
        by (simp add: silent_step_def emitted_def)
      with False len assms(1) show ?thesis
        unfolding 1 reply acc by (simp del: mult_Suc)
    qed
  qed
qed

lemma listing_inbox:
  assumes "serves env client inbox"
  shows "wp (listAllConversations env client (s_lifecycle s)) (\<lambda>r t. silent_step s t
    \<and> r = Inr (inbox_threads (take (maxSyncPages * conversationPage) inbox), maxSyncPages * conversationPage \<le> length inbox)) s"
proof -
  obtain at where "\<And>i. rc_LastItemID (at i) \<noteq> []"
    "\<And>i s. e_relay env client (ListConversations (if i = 0 then None else Some (at i))) s
        = (empty_reply\<lparr>rp_convs := map Some (inbox_page i inbox), rp_cursor := Some (at (Suc i))\<rparr>, s)"
    using assms by (auto simp: serves_def)
  from list_pages_inbox [OF this refl, where s = s and i = 0 and n = maxSyncPages] show ?thesis
    by (simp add: listAllConversations_def conj_commute)
qed

subsection \<open>What the sync publishes\<close>

lemma job_frame:
  assumes "settled (s_selfIDs s) convs" and "c \<in> set convs"
  shows "wp (sync_job env (s_lifecycle s) c) (\<lambda>r t. r = thread_of (s_selfIDs s) c \<and> silent_step s t) s"
  using assms
  by (auto simp: sync_job_def session_mapConversation_def set_meta_def wp_simps thread_of_def settled_def
      current_def silent_step_def emitted_def split: sum.split)

lemma jobs_frame:
  assumes "settled (s_selfIDs s) convs" and "set js \<subseteq> {..<length convs}"
  shows "wp (sync_jobs env (s_lifecycle s) convs js rs) (\<lambda>_ t. silent_step s t) s"
  using assms
proof (induction js arbitrary: rs s)
  case (Cons j js)
  have "convs ! j \<in> set convs" using Cons.prems(2) by simp
  show ?case
    unfolding sync_jobs.simps wp_bind
  proof (rule wp_mono [OF job_frame [OF Cons.prems(1) \<open>convs ! j \<in> set convs\<close>]], elim conjE)
    fix r :: "thread_result option" and t :: session
    assume t: "silent_step s t"
    then have same: "s_selfIDs t = s_selfIDs s" "s_lifecycle t = s_lifecycle s" by (simp_all add: silent_step_def)
    have "wp (sync_jobs env (s_lifecycle t) convs js (rs[j := r])) (\<lambda>_ u. silent_step t u) t"
      by (rule Cons.IH) (use Cons.prems same in simp_all)
    then show "wp (sync_jobs env (s_lifecycle s) convs js (rs[j := r])) (\<lambda>_ u. silent_step s u) t"
      unfolding same by (rule wp_mono) (use t in \<open>simp add: silent_step_def\<close>)
  qed
qed (simp add: wp_return silent_step_def)

lemma fire_each:
  assumes "\<not> s_closed s"
  shows "wp (for_each fire es) (\<lambda>_ t. emitted t = emitted s @ es \<and> s_client t = s_client s
    \<and> s_closed t = s_closed s \<and> s_account t = s_account s) s"
  using assms
proof (induction es arbitrary: s)
  case (Cons e es)
  show ?case
    unfolding for_each.simps wp_bind wp_fire alive_def not_not
    by (simp only: Cons.prems if_False, rule wp_mono [OF Cons.IH]) (use Cons.prems in \<open>simp_all add: emitted_def\<close>)
qed (simp add: wp_return)

text \<open>C9: what a full sync publishes. The phone serves its inbox page by page, the inbox fits the ten pages
  of a sync, every thread of it can be mapped, and the listing teaches the session no new identity of
  its user. Then the sync is complete, and what it says is exactly the conversation events of the
  threads of the inbox, each id once, the most recently active first, marked as the full list under
  a new generation, whatever the order in which the workers took the threads.\<close>

theorem sync_publishes_inbox:
  assumes "s_client s = Some client" and "\<not> s_closed s" and "s_trace s = []"
    and "serves env client inbox" and "length inbox < maxSyncPages * conversationPage"
    and "convs = sort_key (\<lambda>c. - pc_LastMessageTimestamp c) (inbox_threads inbox)"
    and "settled (s_selfIDs s) convs" and "\<forall>c \<in> set convs. thread_of (s_selfIDs s) c \<noteq> None"
    and "set (e_jobs env (length convs)) = {..<length convs}"
    and "run_state (fullSyncLocked env) s = (r, t)"
  shows "r = Some \<lparr>so_results = map (thread_of (s_selfIDs s)) convs, so_lifecycle = s_lifecycle s, so_complete = True\<rparr>
    \<and> emitted t = conversation_events (s_account s) (map (\<lambda>c. tr_thread (the (thread_of (s_selfIDs s) c))) convs)
        (next_sync_gen (s_syncGen s)) True"
proof -
  let ?ids = "s_selfIDs s" and ?lc = "s_lifecycle s"
  let ?results = "map (thread_of ?ids) convs"
  have mapped: "map tr_thread (List.map_filter (\<lambda>r. r) ?results) = map (\<lambda>c. tr_thread (the (thread_of ?ids c))) convs"
    using assms(8) by (induction convs) (auto simp: List.map_filter_simps)
  have jobs: "wp (sync_jobs env ?lc convs (e_jobs env (length convs)) (replicate (length convs) None))
      (\<lambda>r u. r = ?results \<and> silent_step v u) v"
    if v: "silent_step s v" for v
  proof -
    have same: "s_selfIDs v = ?ids" "s_lifecycle v = ?lc" using v by (simp_all add: silent_step_def)
    have "wp (sync_jobs env ?lc convs (e_jobs env (length convs)) (replicate (length convs) None))
        (\<lambda>r t. length r = length convs \<and> (\<forall>i < length convs. r ! i =
          (if i \<in> set (e_jobs env (length convs)) then thread_of ?ids (convs ! i) else replicate (length convs) None ! i))) v"
      by (rule settled_jobs) (use assms(7,9) same in simp_all)
    moreover have "wp (sync_jobs env ?lc convs (e_jobs env (length convs)) (replicate (length convs) None))
        (\<lambda>_ u. silent_step v u) v"
      using jobs_frame [of v convs "e_jobs env (length convs)" env] assms(7,9) unfolding same by simp
    ultimately show ?thesis
      unfolding wp_def using assms(9) by (auto split: prod.splits intro!: nth_equalityI)
  qed
  have "wp (fullSyncLocked env) (\<lambda>r t.
      r = Some \<lparr>so_results = ?results, so_lifecycle = ?lc, so_complete = True\<rparr>
      \<and> emitted t = emitted s @ conversation_events (s_account s) (map (\<lambda>c. tr_thread (the (thread_of ?ids c))) convs)
          (next_sync_gen (s_syncGen s)) True) s"
    unfolding fullSyncLocked_def wp_bind wp_get wp_if wp_let Let_def assms(1) option.case alive_def
  proof (simp only: assms(2) simp_thms if_False, rule wp_mono [OF listing_inbox [OF assms(4)]], elim conjE, goal_cases)
    case (1 r v)
    have fits: "take (maxSyncPages * conversationPage) inbox = inbox" "\<not> maxSyncPages * conversationPage \<le> length inbox"
      using assms(5) by simp_all
    show ?case
      unfolding 1 fits sum.case prod.case wp_bind wp_let Let_def assms(6) [symmetric]
    proof (rule wp_mono [OF jobs [OF 1(1)]], elim conjE, goal_cases)
      case (1 results u)
      note step = \<open>silent_step s v\<close> \<open>silent_step v u\<close>
      have u: "s_lifecycle u = ?lc" "\<not> s_closed u" "s_account u = s_account s" "s_syncGen u = s_syncGen s"
        "emitted u = emitted s"
        using step assms(2) by (simp_all add: silent_step_def)
      have all: "\<forall>r \<in> set ?results. r \<noteq> None" using assms(8) by simp
      show ?case
        unfolding \<open>results = ?results\<close>
        using u all fits(2)
        by (simp add: wp_simps current_def nextGeneration_def emitConversations_def mapped Let_def)
          (rule wp_mono [OF fire_each], simp_all add: emitted_def wp_return)
    qed
  qed
  from wp_run [OF this assms(10)] assms(3) show ?thesis by (simp add: emitted_def)
qed

text \<open>An inbox of two threads, one of them listed twice.\<close>

definition newer :: pb_conversation where
  "newer = unflagged\<lparr>pc_ConversationID := ''thread-3'', pc_LastMessageTimestamp := 9\<rparr>"

definition w_inbox_env :: env where
  "w_inbox_env = test_env (\<lambda>q. empty_reply
     \<lparr>rp_convs := (if q = ListConversations None then map Some [unflagged, newer, unflagged] else []),
      rp_cursor := Some \<lparr>rc_LastItemID = ''next'', rc_LastItemTimestamp = 0\<rparr>\<rparr>)"

lemma newer_maps: "\<exists>v meta. mapConversation (Some newer) {} = Inr (v, meta) \<and> self_ids_of v = {}"
proof -
  have f: "pc_ConversationID newer = ''thread-3''" "pc_IsGroupChat newer = False"
    "pc_Participants newer = pc_Participants unflagged"
    by (simp_all add: newer_def schedule_fields)
  show ?thesis
    unfolding mapConversation_def option.case Let_def f schedule_members(2) [of "{}", simplified]
    by (auto simp: self_ids_of_def simp del: set_map set_filter)
qed

lemma w_inbox_serves: "serves w_inbox_env c [unflagged, newer, unflagged]"
  unfolding serves_def
proof (intro exI conjI allI)
  fix i s
  let ?next = "\<lparr>rc_LastItemID = ''next'', rc_LastItemTimestamp = 0\<rparr>"
  show "rc_LastItemID ((\<lambda>_ :: nat. ?next) i) \<noteq> []" by simp
  have "inbox_page i [unflagged, newer, unflagged] = (if i = 0 then [unflagged, newer, unflagged] else [])"
    by (cases i) (simp_all add: inbox_page_def conversationPage_def)
  then show "e_relay w_inbox_env c (ListConversations (if i = 0 then None else Some ((\<lambda>_ :: nat. ?next) i))) s
      = (empty_reply\<lparr>rp_convs := map Some (inbox_page i [unflagged, newer, unflagged]),
          rp_cursor := Some ((\<lambda>_ :: nat. ?next) (Suc i))\<rparr>, s)"
    by (simp add: w_inbox_env_def test_env_def)
qed

lemma sync_publishes_inbox_witness:
  "emitted (snd (run_state (fullSyncLocked w_inbox_env) w_online))
   = conversation_events ''a'' (map (\<lambda>c. tr_thread (the (thread_of {} c))) [newer, unflagged]) 1 True"
proof -
  obtain r t where run: "run_state (fullSyncLocked w_inbox_env) w_online = (r, t)" by (rule prod.exhaust)
  have ids: "pc_ConversationID unflagged = ''thread-2''" "pc_ConversationID newer = ''thread-3''"
    "pc_LastMessageTimestamp unflagged = 7" "pc_LastMessageTimestamp newer = 9"
    by (simp_all add: newer_def unflagged_def wConv_def)
  have "inbox_threads [unflagged, newer, unflagged] = [unflagged, newer]"
    by (simp add: inbox_threads_def upt_rec ids numeral_nat less_Suc_eq)
  then have sorted: "[newer, unflagged] = sort_key (\<lambda>c. - pc_LastMessageTimestamp c) (inbox_threads [unflagged, newer, unflagged])"
    by (simp add: ids)
  have row: "pc_Participants newer \<noteq> []" "pc_Participants unflagged \<noteq> []"
    by (simp_all add: newer_def unflagged_def wConv_def)
  have "settled {} [newer, unflagged]" "\<forall>c \<in> set [newer, unflagged]. thread_of {} c \<noteq> None"
    using newer_maps unflagged_maps [of "{}"] row by (auto simp: settled_def thread_of_def)
  moreover have "set (e_jobs w_inbox_env (length [newer, unflagged])) = {..<length [newer, unflagged]}"
    by (auto simp: w_inbox_env_def test_env_def)
  ultimately show ?thesis
    using sync_publishes_inbox [OF w_online_fields(3) _ w_online_fields(2) w_inbox_serves _ sorted _ _ _ run] run
    by (simp add: maxSyncPages_def conversationPage_def w_online_def NewSession_def next_sync_gen_def)
qed

end
