(* ===== verification/HistoryWalk.thy ===== *)
theory HistoryWalk
  imports SyncInbox
begin

text \<open>
  Reading back a thread. A daemon that asks for a page and goes on with the cursor of the page's last
  event gets the whole history of a thread of text messages, page by page from the newest, from a
  phone that serves it by position.
\<close>

subsection \<open>Mapping text messages\<close>

definition text_message :: "pb_message \<Rightarrow> bool" where
  "text_message m \<longleftrightarrow> pm_MessageID m \<noteq> [] \<and> \<not> isTombstone (pm_Status m) \<and> \<not> isDeletion (pm_Status m)
     \<and> textParts m \<noteq> [] \<and> mediaParts m = []"

definition history_message :: "go_string \<Rightarrow> pb_message \<Rightarrow> message" where
  "history_message convID m =
     \<lparr>m_LocalID = pm_MessageID m, m_Sender = senderKeyOf m, m_Transport = messageTransport (pm_Type m),
      m_SentAt = (if pm_Timestamp m \<noteq> 0 then Some (pm_Timestamp m) else None),
      m_Text = go_join [CHR 0x0A] (map sanitizeText (textParts m)), m_Attachments = [],
      m_ReplyTo = reply_target convID m, m_Reactions = mapReactions (pm_Reactions m), m_Deleted = False\<rparr>"

text \<open>Only the cache and the trace have changed, and nothing was said.\<close>

definition cached_only :: "session \<Rightarrow> session \<Rightarrow> bool" where
  "cached_only s t \<longleftrightarrow> s_client t = s_client s \<and> s_closed t = s_closed s \<and> s_account t = s_account s
     \<and> s_lifecycle t = s_lifecycle s \<and> emitted t = emitted s"

lemma cached_trans: "cached_only s t \<Longrightarrow> cached_only t u \<Longrightarrow> cached_only s u"
  by (simp add: cached_only_def)

lemma map_text_message:
  assumes "text_message m"
  shows "wp (mapMessage env convID (Some m) download (s_lifecycle s))
    (\<lambda>r t. r = (Some (history_message convID m), []) \<and> cached_only s t) s"
  using assms
  by (simp add: mapMessage_def text_message_def wp_simps current_def rememberMessage_def history_message_def
      cached_only_def emitted_def Let_def)

lemma map_text_window:
  assumes "list_all text_message ms"
  shows "wp (map_window env convID download (s_lifecycle s) (map Some ms))
    (\<lambda>out t. out = map (history_message convID) ms \<and> cached_only s t) s"
  using assms
proof (induction ms arbitrary: s)
  case (Cons m ms)
  show ?case
    unfolding list.map map_window.simps wp_bind
  proof (rule wp_mono [OF map_text_message], use Cons.prems in simp, elim conjE, goal_cases)
    case (1 r t)
    have "wp (map_window env convID download (s_lifecycle t) (map Some ms))
        (\<lambda>out u. out = map (history_message convID) ms \<and> cached_only t u) t"
      by (rule Cons.IH) (use Cons.prems in simp)
    moreover have "s_lifecycle t = s_lifecycle s" using 1 by (simp add: cached_only_def)
    ultimately have "wp (map_window env convID download (s_lifecycle s) (map Some ms))
        (\<lambda>out u. out = map (history_message convID) ms \<and> cached_only s u) t"
      using 1(2) by (auto elim!: wp_mono intro: cached_trans)
    then show ?case
      unfolding 1(1) by (simp add: wp_bind wp_return wp_def split: prod.splits)
  qed
qed (simp add: wp_return cached_only_def)

subsection \<open>A phone that serves a thread\<close>

text \<open>The \<open>i\<close>th page of the history, newest page first, each page in the order of the thread.\<close>

definition history_page :: "nat \<Rightarrow> nat \<Rightarrow> pb_message list \<Rightarrow> pb_message list" where
  "history_page n i hist = rev (take n (drop (i * n) (rev hist)))"

definition next_cursor :: "(nat \<Rightarrow> relay_cursor) \<Rightarrow> nat \<Rightarrow> nat \<Rightarrow> pb_message list \<Rightarrow> go_string" where
  "next_cursor at n i hist =
     (if Suc i * n < length hist
      then mintCursor (rc_LastItemID (at (Suc i))) (rc_LastItemTimestamp (at (Suc i))) else [])"

definition serves_thread ::
  "env \<Rightarrow> nat \<Rightarrow> go_string \<Rightarrow> u32 \<Rightarrow> (nat \<Rightarrow> relay_cursor) \<Rightarrow> pb_message list \<Rightarrow> bool" where
  "serves_thread env client convID limit at hist \<longleftrightarrow>
     (\<forall>i. rc_LastItemID (at i) \<noteq> [] \<and> CHR '':'' \<notin> set (rc_LastItemID (at i)))
     \<and> (\<forall>i s. e_relay env client (FetchMessages convID limit (if i = 0 then None else Some (at i))) s
          = (empty_reply\<lparr>rp_msgs := map Some (history_page (unat limit) i hist),
               rp_cursor := if Suc i * unat limit < length hist then Some (at (Suc i)) else None\<rparr>, s))"

lemma history_pages: "concat (map (\<lambda>i. history_page n i hist) (rev [0..<k])) = rev (take (k * n) (rev hist))"
proof (induction k)
  case (Suc k)
  have "take (Suc k * n) (rev hist) = take (k * n) (rev hist) @ take n (drop (k * n) (rev hist))"
    using take_add [of "k * n" n "rev hist"] by (simp add: add.commute)
  with Suc show ?case by (simp add: history_page_def)
qed simp

lemma fetch_text_page:
  assumes "serves_thread env client convID limit at hist" and "list_all text_message hist"
    and "1 \<le> limit" and "limit \<le> 100" and "\<not> unat limit dvd length hist" and "i * unat limit < length hist"
    and "s_client s = Some client" and "\<not> s_closed s"
    and "cursor = (if i = 0 then None else Some (mintCursor (rc_LastItemID (at i)) (rc_LastItemTimestamp (at i))))"
  shows "wp (FetchHistory env convID limit cursor fetchID) (\<lambda>_ t.
      s_client t = s_client s \<and> s_closed t = s_closed s \<and> s_account t = s_account s
      \<and> emitted t = emitted s @ message_events (s_account s) convID
          (map (history_message convID) (history_page (unat limit) i hist)) False
          (next_cursor at (unat limit) i hist) fetchID 0) s"
proof -
  let ?n = "unat limit" and ?q = "FetchMessages convID limit (if i = 0 then None else Some (at i))"
  let ?out = "map (history_message convID) (history_page ?n i hist)"
  let ?s = "s\<lparr>s_trace := s_trace s @ [stamp s (Call client ?q)]\<rparr>"
  let ?post = "\<lambda>_ t. s_client t = s_client s \<and> s_closed t = s_closed s \<and> s_account t = s_account s
      \<and> emitted t = emitted s @ message_events (s_account s) convID ?out False
          (next_cursor at ?n i hist) fetchID 0"
  have lim: "\<not> (limit < 1 \<or> limit > 100)" using assms(3,4) by auto
  have cur: "relay_cursor_of convID (mintCursor (rc_LastItemID (at i)) (rc_LastItemTimestamp (at i))) s = Some (at i)"
    if "i \<noteq> 0"
    using assms(1) by (simp add: serves_thread_def relay_cursor_of_def cursor_roundtrip [THEN iffD2])
  have window: "wp (fetch_window env client convID limit (if i = 0 then None else Some (at i)) False True fetchID
      (s_lifecycle s)) ?post s"
  proof -
    have resp: "e_relay env client ?q s = (empty_reply\<lparr>rp_msgs := map Some (history_page ?n i hist),
        rp_cursor := if Suc i * ?n < length hist then Some (at (Suc i)) else None\<rparr>, s)"
      using assms(1) by (simp only: serves_thread_def)
    have owns: "ownsClient (s_lifecycle s) client ?s" using assms(7,8) by (simp add: ownsClient_def alive_def)
    have plain: "list_all text_message (history_page ?n i hist)"
      using assms(2) by (auto simp: history_page_def list_all_iff dest!: in_set_takeD in_set_dropD)
    have mapped: "wp (map_window env convID True (s_lifecycle s) (map Some (history_page ?n i hist)))
        (\<lambda>out t. out = ?out \<and> cached_only ?s t) ?s"
      using map_text_window [OF plain, of env convID True ?s] by simp
    have minted: "window_cursor convID limit ?out
        (if Suc i * ?n < length hist then Some (at (Suc i)) else None) t = next_cursor at ?n i hist" for t
    proof (cases "Suc i * ?n < length hist")
      case True
      with assms(1) show ?thesis by (simp add: window_cursor_def next_cursor_def serves_thread_def)
    next
      case False
      moreover have "length hist \<noteq> Suc i * ?n" using assms(5) by (metis dvd_triv_right)
      ultimately have "length ?out < ?n"
        using assms(6) by (simp add: history_page_def)
      moreover have "?n < 2 ^ LENGTH(32)" by (rule unsigned_less)
      ultimately have "unat (of_nat (length ?out) :: u32) = length ?out"
        by (simp add: unsigned_of_nat take_bit_nat_eq_self)
      with \<open>length ?out < ?n\<close> have "of_nat (length ?out) \<noteq> limit" by auto
      with False show ?thesis by (simp add: window_cursor_def next_cursor_def)
    qed
    have emit: "wp (emitMessages convID ?out False (next_cursor at ?n i hist) fetchID) ?post t"
      if t: "cached_only ?s t" for t
    proof -
      have same: "s_account t = s_account s" "s_client t = s_client s" "s_closed t = s_closed s"
        "emitted t = emitted s" "\<not> s_closed t"
        using t assms(8) by (simp_all add: cached_only_def emitted_def)
      show ?thesis
        by (simp add: emitMessages_def wp_simps) (rule wp_mono [OF fire_each], simp_all add: same assms(8))
    qed
    have reply: "rp_err (empty_reply\<lparr>rp_msgs := ms, rp_cursor := cu\<rparr>) = None"
      "rp_msgs (empty_reply\<lparr>rp_msgs := ms, rp_cursor := cu\<rparr>) = ms"
      "rp_cursor (empty_reply\<lparr>rp_msgs := ms, rp_cursor := cu\<rparr>) = cu" for ms cu
      by (simp_all add: empty_reply_def)
    show ?thesis
      unfolding fetch_window_def wp_bind wp_rpc_call resp prod.case wp_if reply wp_get
    proof (simp only: owns simp_thms if_False, rule wp_mono [OF mapped], elim conjE, goal_cases)
      case (1 out t)
      then have "current (s_lifecycle s) t" by (simp add: current_def cached_only_def)
      then show ?case unfolding 1(1) minted using emit [OF 1(2)] by simp
    qed
  qed
  show ?thesis
  proof (cases "i = 0")
    case True
    with window lim assms(7,8,9) show ?thesis
      by (simp add: FetchHistory_def emitWindow_def wp_simps ownsClient_def alive_def)
  next
    case False
    with window lim cur assms(7,8,9) show ?thesis
      by (simp add: FetchHistory_def emitWindow_def wp_simps ownsClient_def alive_def)
  qed
qed

subsection \<open>Following the cursors\<close>

text \<open>A daemon that reads a thread: it asks for a page, and for the next one as long as the last event it
  got carries a cursor, at most \<open>n\<close> times.\<close>

primrec read_history :: "env \<Rightarrow> go_string \<Rightarrow> u32 \<Rightarrow> u64 \<Rightarrow> nat \<Rightarrow> go_string option \<Rightarrow> unit prog" where
  "read_history env convID limit fetchID 0 cursor = State_Monad.return ()"
| "read_history env convID limit fetchID (Suc n) cursor = do {
     FetchHistory env convID limit cursor fetchID;
     s \<leftarrow> State_Monad.get;
     let next = ev_CursorNext (last (emitted s));
     if next = [] then State_Monad.return ()
     else read_history env convID limit fetchID n (Some next)
   }"

lemma last_cursor:
  "msgs \<noteq> [] \<Longrightarrow> ev_CursorNext (last (xs @ message_events account convID msgs full cur fid gen)) = cur"
proof -
  assume msgs: "msgs \<noteq> []"
  let ?evts = "message_events account convID msgs full cur fid gen"
  have len: "length ?evts = length (chunk_messages account convID full msgs [])" by (rule message_events_length [OF msgs])
  have "?evts \<noteq> []"
    using msg_chunks.chunks_spec [OF msgs, of account convID full] len msgs by auto
  moreover from this have "ev_CursorNext (?evts ! (length ?evts - 1)) = cur"
    using message_events_nth [OF msgs, where i = "length ?evts - 1" and account = account and convID = convID and full = full
      and cur = cur and fid = fid and gen = gen] len
    by (cases ?evts) (auto simp flip: len)
  ultimately show ?thesis by (subst last_appendR) (simp_all add: last_conv_nth)
qed

text \<open>C10: a daemon that follows the cursors reads the whole thread. When the phone serves a thread of text
  messages by position, in pages of the limit asked for, with a cursor for each page but the last,
  then asking for the first page and going on with the cursor of the last event received emits the
  pages of the thread one after the other, newest first, in message events that end with the cursor
  of the next page, and stops after the oldest; put together, the pages are the thread, each message
  once and in order. (A history that is an exact multiple of the limit costs one more request.)\<close>

theorem read_history_complete:
  assumes "serves_thread env client convID limit at hist" and "list_all text_message hist"
    and "1 \<le> limit" and "limit \<le> 100" and "\<not> unat limit dvd length hist"
    and "s_client s = Some client" and "\<not> s_closed s" and "s_trace s = []"
    and "pages = Suc (length hist div unat limit)" and "pages \<le> n"
    and "run_state (read_history env convID limit fetchID n None) s = (u, t)"
  shows "emitted t = concat (map (\<lambda>i. message_events (s_account s) convID
        (map (history_message convID) (history_page (unat limit) i hist)) False
        (next_cursor at (unat limit) i hist) fetchID 0) [0..<pages])
    \<and> concat (map (\<lambda>i. history_page (unat limit) i hist) (rev [0..<pages])) = hist"
proof
  let ?n = "unat limit"
  let ?evts = "\<lambda>i. message_events (s_account s) convID
        (map (history_message convID) (history_page ?n i hist)) False (next_cursor at ?n i hist) fetchID 0"
  have pos: "0 < ?n" using assms(3) by (simp add: word_le_nat_alt)
  have in_hist: "i * ?n < length hist \<longleftrightarrow> i < pages" for i
  proof -
    have "length hist mod ?n \<noteq> 0" using assms(5) by (simp add: dvd_eq_mod_eq_0)
    then have "length hist div ?n * ?n < length hist"
      using div_mult_mod_eq [of "length hist" ?n] by linarith
    with pos show ?thesis
      unfolding assms(9) less_Suc_eq_le
      by (metis less_le_not_le linorder_not_less mult_le_mono1 order.strict_trans1 less_eq_div_iff_mult_less_eq
          order_less_imp_le)
  qed
  have walk: "wp (read_history env convID limit fetchID k
        (if i = 0 then None else Some (mintCursor (rc_LastItemID (at i)) (rc_LastItemTimestamp (at i)))))
      (\<lambda>_ t. emitted t = emitted v @ concat (map ?evts [i..<pages])) v"
    if "i < pages" "pages \<le> i + k" "s_client v = Some client" "\<not> s_closed v" "s_account v = s_account s" for k i v
    using that
  proof (induction k arbitrary: i v)
    case (Suc k)
    show ?case
      unfolding read_history.simps wp_bind
    proof (rule wp_mono [OF fetch_text_page [OF assms(1-5) _ Suc.prems(3,4) refl]], use Suc.prems in_hist in simp, elim conjE, goal_cases)
      case (1 x w)
      have "history_page ?n i hist \<noteq> []"
        using in_hist [of i] Suc.prems(1) pos by (simp add: history_page_def)
      then have cur: "ev_CursorNext (last (emitted w)) = next_cursor at ?n i hist"
        unfolding 1 by (intro last_cursor) simp
      have split: "[i..<pages] = i # [Suc i..<pages]" using Suc.prems(1) by (simp add: upt_rec)
      show ?case
      proof (cases "Suc i < pages")
        case True
        then have c: "next_cursor at ?n i hist = mintCursor (rc_LastItemID (at (Suc i))) (rc_LastItemTimestamp (at (Suc i)))"
          "next_cursor at ?n i hist \<noteq> []"
          using in_hist [of "Suc i"] by (simp_all add: next_cursor_def mintCursor_def)
        have "wp (read_history env convID limit fetchID k (Some (next_cursor at ?n i hist)))
          (\<lambda>_ t. emitted t = emitted w @ concat (map ?evts [Suc i..<pages])) w"
          using Suc.IH [of "Suc i" w] True Suc.prems 1 c by simp
        then have "wp (read_history env convID limit fetchID k (Some (next_cursor at ?n i hist)))
          (\<lambda>_ t. emitted t = emitted v @ concat (map ?evts [i..<pages])) w"
          by (rule wp_mono) (use 1 Suc.prems split in simp)
        with cur c(2) show ?thesis by (simp add: wp_simps)
      next
        case False
        then have "next_cursor at ?n i hist = []" "[Suc i..<pages] = []"
          using in_hist [of "Suc i"] by (simp_all add: next_cursor_def)
        with cur 1 Suc.prems split show ?thesis by (simp add: wp_simps)
      qed
    qed
  qed simp
  from wp_run [OF walk [of 0 n s] ] assms show "emitted t = concat (map ?evts [0..<pages])"
    by (simp add: emitted_def)
  have "length hist \<le> pages * ?n" using in_hist [of pages] by linarith
  then show "concat (map (\<lambda>i. history_page ?n i hist) (rev [0..<pages])) = hist"
    unfolding history_pages by simp
qed

text \<open>A thread of three messages, read two at a time.\<close>

definition w_text :: "go_string \<Rightarrow> pb_message" where
  "w_text mid = (w_message INCOMING_COMPLETE [\<lparr>mi_Data = Info_Message ''hi'', mi_ActionMessageID = []\<rparr>])
     \<lparr>pm_MessageID := mid\<rparr>"

definition w_thread :: "pb_message list" where
  "w_thread = [w_text ''m1'', w_text ''m2'', w_text ''m3'']"

definition w_at :: "nat \<Rightarrow> relay_cursor" where
  "w_at i = \<lparr>rc_LastItemID = replicate (Suc i) CHR ''c'', rc_LastItemTimestamp = 5\<rparr>"

definition w_thread_env :: env where
  "w_thread_env = test_env (\<lambda>q. case q of
       FetchMessages convID limit cursor \<Rightarrow>
         (let i = (case cursor of None \<Rightarrow> 0 | Some c \<Rightarrow> length (rc_LastItemID c) - 1) in
          empty_reply\<lparr>rp_msgs := map Some (history_page (unat limit) i w_thread),
             rp_cursor := if Suc i * unat limit < length w_thread then Some (w_at (Suc i)) else None\<rparr>)
     | _ \<Rightarrow> empty_reply)"

lemma read_history_complete_witness:
  "emitted (snd (run_state (read_history w_thread_env ''t'' 2 9 5 None) w_online))
   = message_events ''a'' ''t'' (map (history_message ''t'') [w_text ''m2'', w_text ''m3'']) False
       (mintCursor ''cc'' 5) 9 0
     @ message_events ''a'' ''t'' [history_message ''t'' (w_text ''m1'')] False [] 9 0"
proof -
  obtain u t where run: "run_state (read_history w_thread_env ''t'' 2 9 5 None) w_online = (u, t)" by (rule prod.exhaust)
  have serves: "serves_thread w_thread_env 7 ''t'' 2 w_at w_thread"
    unfolding serves_thread_def
  proof (intro conjI allI)
    fix i s
    show "rc_LastItemID (w_at i) \<noteq> []" "CHR '':'' \<notin> set (rc_LastItemID (w_at i))" by (simp_all add: w_at_def)
    show "e_relay w_thread_env 7 (FetchMessages ''t'' 2 (if i = 0 then None else Some (w_at i))) s
      = (empty_reply\<lparr>rp_msgs := map Some (history_page (unat (2 :: u32)) i w_thread),
           rp_cursor := if Suc i * unat (2 :: u32) < length w_thread then Some (w_at (Suc i)) else None\<rparr>, s)"
      by (cases i) (simp_all add: w_thread_env_def test_env_def w_at_def Let_def)
  qed
  have "\<not> go_contains ''INCOMING_COMPLETE'' ''TOMBSTONE''" by code_simp
  then have plain: "list_all text_message w_thread"
    by (simp add: w_thread_def w_text_def w_message_def text_message_def isTombstone_def isDeletion_def textParts_def
        mediaParts_def List.map_filter_simps)
  have n: "unat (2 :: u32) = 2" "length w_thread = 3" by (simp_all add: w_thread_def)
  have "\<not> (2 :: nat) dvd 3" by simp
  then have "emitted t = concat (map (\<lambda>i. message_events ''a'' ''t''
      (map (history_message ''t'') (history_page 2 i w_thread)) False (next_cursor w_at 2 i w_thread) 9 0) [0, Suc 0])"
    using read_history_complete [OF serves plain _ _ _ w_online_fields(3) _ w_online_fields(2) refl _ run]
    unfolding n by simp
  moreover have "history_page 2 0 w_thread = [w_text ''m2'', w_text ''m3'']" "history_page 2 (Suc 0) w_thread = [w_text ''m1'']"
    by (simp_all add: history_page_def w_thread_def)
  moreover have "next_cursor w_at 2 0 w_thread = mintCursor ''cc'' 5" "next_cursor w_at 2 (Suc 0) w_thread = []"
    by (simp_all add: next_cursor_def n(2) w_at_def)
  ultimately show ?thesis using run by simp
qed

end
