(* ===== verification/LoginLine.thy ===== *)
theory LoginLine
  imports HubProps
begin

text \<open>The way of a login from the daemon's line to the session.\<close>

subsection \<open>Base64 is read back\<close>

text \<open>The standard alphabet and the encoder of \<open>base64.StdEncoding\<close>, as the daemon uses it.\<close>

definition b64_digit :: "nat \<Rightarrow> char" where
  "b64_digit n =
     (if n < 26 then chr (65 + n) else if n < 52 then chr (71 + n) else if n < 62 then chr (n - 4)
      else if n = 62 then CHR ''+'' else CHR ''/'')"

fun b64_encode :: "bytes \<Rightarrow> bytes" where
  "b64_encode [] = []"
| "b64_encode [x] = [b64_digit (byte x div 4), b64_digit (byte x mod 4 * 16), CHR ''='', CHR ''='']"
| "b64_encode [x, y] =
     [b64_digit (byte x div 4), b64_digit (byte x mod 4 * 16 + byte y div 16), b64_digit (byte y mod 16 * 4), CHR ''='']"
| "b64_encode (x # y # z # r) =
     [b64_digit (byte x div 4), b64_digit (byte x mod 4 * 16 + byte y div 16),
      b64_digit (byte y mod 16 * 4 + byte z div 64), b64_digit (byte z mod 64)] @ b64_encode r"

definition b64_char :: "char \<Rightarrow> bool" where
  "b64_char c \<longleftrightarrow> 0x20 < byte c \<and> byte c < 0x80 \<and> byte c \<notin> {0x22, 0x5C, 0x3C, 0x3E, 0x26}"

lemma b64_digit:
  assumes "n < 64"
  shows "b64_value (b64_digit n) = Some n" and "b64_digit n \<noteq> CHR ''=''" and "b64_char (b64_digit n)"
proof -
  consider "n < 26" | "26 \<le> n" "n < 52" | "52 \<le> n" "n < 62" | "n = 62" | "n = 63" using assms by linarith
  then have d: "b64_value (b64_digit n) = Some n \<and> byte (b64_digit n) \<noteq> 0x3D \<and> b64_char (b64_digit n)"
    by cases (simp_all add: b64_digit_def b64_value_def b64_char_def Let_def, linarith)
  then show "b64_value (b64_digit n) = Some n" "b64_char (b64_digit n)" by simp_all
  show "b64_digit n \<noteq> CHR ''=''"
  proof
    assume "b64_digit n = CHR ''=''"
    with d show False by simp
  qed
qed

text \<open>Six-bit groups of bytes.\<close>

lemma b64_small:
  fixes x y z :: nat
  assumes "x < 256" and "y < 256" and "z < 256"
  shows "x div 4 < 64" "x mod 4 * 16 < 64" "y mod 16 * 4 < 64" "z mod 64 < 64"
    "x mod 4 * 16 + y div 16 < 64" "y mod 16 * 4 + z div 64 < 64"
proof -
  have m: "x mod 4 < 4" "y mod 16 < 16" by simp_all
  have d: "y div 16 < 16" "z div 64 < 4" "x div 4 < 64" using assms by (simp_all add: less_mult_imp_div_less)
  from m d show "x div 4 < 64" "x mod 4 * 16 < 64" "y mod 16 * 4 < 64" "z mod 64 < 64"
    "x mod 4 * 16 + y div 16 < 64" "y mod 16 * 4 + z div 64 < 64" by simp_all
qed

lemma b64_join:
  fixes x y z :: nat
  assumes "x < 256" and "y < 256" and "z < 256"
  shows "x div 4 * 4 + (x mod 4 * 16 + y div 16) div 16 = x"
    and "(x mod 4 * 16 + y div 16) mod 16 * 16 + (y mod 16 * 4 + z div 64) div 4 = y"
    and "(y mod 16 * 4 + z div 64) mod 4 * 64 + z mod 64 = z"
proof -
  have d: "y div 16 < 16" "z div 64 < 4" using assms by (simp_all add: less_mult_imp_div_less)
  then have "(x mod 4 * 16 + y div 16) div 16 = x mod 4" "(x mod 4 * 16 + y div 16) mod 16 = y div 16"
    "(y mod 16 * 4 + z div 64) div 4 = y mod 16" "(y mod 16 * 4 + z div 64) mod 4 = z div 64"
    by (simp_all add: add.commute)
  then show "x div 4 * 4 + (x mod 4 * 16 + y div 16) div 16 = x"
    "(x mod 4 * 16 + y div 16) mod 16 * 16 + (y mod 16 * 4 + z div 64) div 4 = y"
    "(y mod 16 * 4 + z div 64) mod 4 * 64 + z mod 64 = z" by simp_all
qed

lemmas b64_fits = b64_small [OF byte_less byte_less byte_less]

lemma b64_pad: "b64_char CHR ''=''"
  by (simp add: b64_char_def)

lemma b64_chars: "list_all b64_char (b64_encode s)"
  by (induction s rule: b64_encode.induct) (simp_all add: b64_digit(3) b64_fits b64_pad)

lemma b64_bytes_split:
  "b64_bytes (byte x div 4) (byte x mod 4 * 16 + byte y div 16) (byte y mod 16 * 4 + byte z div 64) (byte z mod 64)
    = [x, y, z]"
  unfolding b64_bytes_def b64_join [OF byte_less byte_less byte_less] by simp

lemma b64_groups_encode: "b64_groups (b64_encode s) = Some s"
proof (induction s rule: b64_encode.induct)
  case (2 x)
  from b64_bytes_split [of x "chr 0" "chr 0"] show ?case by (simp add: b64_digit b64_fits b64_bytes_def)
next
  case (3 x y)
  from b64_bytes_split [of x y "chr 0"] show ?case by (simp add: b64_digit b64_fits b64_bytes_def)
next
  case (4 x y z r)
  with b64_bytes_split [of x y z] show ?case by (simp add: b64_digit b64_fits)
qed simp

lemma b64_roundtrip: "b64_decode (b64_encode s) = Some s"
proof -
  have "c \<noteq> CHR 0x0A \<and> c \<noteq> CHR 0x0D" if "b64_char c" for c using that by (auto simp: b64_char_def)
  then have "filter (\<lambda>c. c \<noteq> CHR 0x0A \<and> c \<noteq> CHR 0x0D) (b64_encode s) = b64_encode s"
    using b64_chars [of s] by (auto simp: filter_id_conv list_all_iff)
  then show ?thesis by (simp add: b64_decode_def b64_groups_encode)
qed

lemma length_b64_encode: "3 * length (b64_encode s) \<le> 4 * length s + 8"
  by (induction s rule: b64_encode.induct) auto

text \<open>The JSON encoder leaves base64 as it is.\<close>

lemma escape_b64: "b64_char c \<Longrightarrow> escape_ascii c = [c]"
proof -
  assume c: "b64_char c"
  have "c \<noteq> d" if "\<not> b64_char d" for d using c that by auto
  then have "c \<notin> {CHR 0x22, CHR 0x5C, CHR 0x08, CHR 0x0C, CHR 0x0A, CHR 0x0D, CHR 0x09, CHR ''<'', CHR ''>'', CHR ''&''}"
    by (auto simp: b64_char_def)
  moreover have "\<not> byte c < 0x20" using c by (simp add: b64_char_def)
  ultimately show ?thesis by (simp add: escape_ascii_def)
qed

lemma json_escape_b64: "list_all b64_char s \<Longrightarrow> json_escape s = s"
proof (induction s)
  case (Cons c s)
  have "byte c < 0x80" using Cons.prems by (simp add: b64_char_def)
  with Cons show ?case by (subst json_escape.simps) (simp add: escape_b64)
qed (simp add: json_escape.simps)

subsection \<open>The line of a login\<close>

definition login_line :: "go_string \<Rightarrow> cookies \<Rightarrow> bytes" where
  "login_line account cs =
     encodeCommand (zero_command\<lparr>cmd_Type := ''login'', cmd_Account := account,
       cmd_BundleB64 := b64_encode (encodeBundle cs)\<rparr>)"

lemma length_escape_ascii_le: "length (escape_ascii c) \<le> 6"
  by (simp add: escape_ascii_def)

lemma length_json_escape_le: "length (json_escape s) \<le> 6 * length s"
proof (induction s rule: json_escape.induct)
  case (1 s)
  show ?case
  proof (cases s)
    case Nil
    then show ?thesis by (simp add: json_escape.simps)
  next
    case (Cons c cs)
    show ?thesis
    proof (cases "byte c < 0x80")
      case True
      then show ?thesis using "1.IH"(1) [OF Cons True] length_escape_ascii_le [of c] Cons
        by (subst json_escape.simps) simp
    next
      case False
      obtain r n where rn: "decode_rune s = (r, n)" by (rule prod.exhaust)
      have n: "0 < n" "n \<le> length s"
        using decode_rune_size_pos [of s] decode_rune_size_le [of s] rn Cons by simp_all
      have "length (json_escape (drop n s)) \<le> 6 * (length s - n)"
        using "1.IH"(2-4) [OF Cons False rn [symmetric] refl] by fastforce
      with n show ?thesis using False Cons rn by (subst json_escape.simps) (auto simp: Let_def)
    qed
  qed
qed

lemma encodeBundle_nonempty: "encodeBundle cs \<noteq> []"
  by (simp add: encodeBundle_def)

lemma login_line_short:
  assumes "length account \<le> 128" and "length (encodeBundle cs) \<le> MaxBundleBytes"
  shows "length (login_line account cs) < maxLine"
proof -
  have "length (json_escape account) \<le> 6 * 128"
    using length_json_escape_le [of account] assms(1) by linarith
  moreover have "3 * length (b64_encode (encodeBundle cs)) \<le> 4 * MaxBundleBytes + 8"
    using length_b64_encode [of "encodeBundle cs"] assms(2) by linarith
  moreover have "json_escape (b64_encode (encodeBundle cs)) = b64_encode (encodeBundle cs)"
    by (rule json_escape_b64 [OF b64_chars])
  moreover have "json_escape ''login'' = ''login''" "json_escape ''account'' = ''account''" "json_escape ''type'' = ''type''"
     "json_escape ''bundle_b64'' = ''bundle_b64''" by code_simp+
  ultimately show ?thesis
    by (simp add: login_line_def encodeCommand_def command_members_def zero_command_def opt_defs opt_uint_def
        json_string_def maxLine_def MaxBundleBytes_def)
qed

lemma login_line_decodes:
  assumes "valid_utf8 account"
  shows "decodeCommand (login_line account cs) = Some (zero_command\<lparr>cmd_Type := ''login'', cmd_Account := account,
       cmd_BundleB64 := b64_encode (encodeBundle cs)\<rparr>)"
  unfolding login_line_def
proof (rule decode_encode_command)
  have "list_all (\<lambda>c. byte c < 0x80) (b64_encode (encodeBundle cs))"
    by (rule list.pred_mono_strong [OF b64_chars]) (simp add: b64_char_def)
  with assms show "valid_command (zero_command\<lparr>cmd_Type := ''login'', cmd_Account := account,
       cmd_BundleB64 := b64_encode (encodeBundle cs)\<rparr>)"
    by (simp add: valid_command_def zero_command_def valid_utf8_ascii)
qed

text \<open>C25: a login reaches the session it is for with the cookies the daemon put in. A line that carries
  the base64 of a bundle within the cap, for a valid account, always fits the line buffer; it is
  decoded, and when a worker is free, a job of that account's session is queued and nothing is
  written. The job logs in with the bundle, which decodes to exactly the cookies.\<close>

theorem login_line_delivered:
  assumes "validAccount account" and "valid_utf8 account"
    and "distinct (map fst cs)" and "list_all (\<lambda>(k, v). valid_utf8 k \<and> valid_utf8 v) cs"
    and "length (encodeBundle cs) \<le> MaxBundleBytes" and "length (h_jobs h) < maxCommandWorkers"
  shows "\<exists>p bundle. map_of (h_sessions (serve_line env (login_line account cs) h)) account = Some p
    \<and> h_jobs (serve_line env (login_line account cs) h) = h_jobs h @ [Job p (OpLogin bundle)]
    \<and> h_out (serve_line env (login_line account cs) h) = h_out h
    \<and> decodeBundle bundle = Some cs"
proof -
  let ?cmd = "zero_command\<lparr>cmd_Type := ''login'', cmd_Account := account,
       cmd_BundleB64 := b64_encode (encodeBundle cs)\<rparr>"
  obtain p h1 where ses: "hub_session account h = (p, h1)" by (rule prod.exhaust)
  have one: "h_jobs h1 = h_jobs h" "h_out h1 = h_out h" "map_of (h_sessions h1) account = Some p"
    using ses by (auto simp: hub_session_def split: option.splits)
  have "b64_encode (encodeBundle cs) \<noteq> []"
    using encodeBundle_nonempty [of cs] b64_roundtrip [of "encodeBundle cs"] by (auto simp: b64_decode_def)
  then have plan: "command_plan ?cmd = Plan_async account [] (\<lambda>p. Job p (OpLogin (encodeBundle cs)))"
    using assms(1,5) encodeBundle_nonempty [of cs]
    by (simp add: command_plan_def login_plan_def b64_roundtrip zero_command_def)
  have "length account \<le> 128" using assms(1) by (simp add: validAccount_def)
  then have "serve_line env (login_line account cs) h = dispatch env ?cmd h"
    using serve_request [OF login_line_decodes [OF assms(2)] _ plan] login_line_short assms(5) by blast
  also have "\<dots> = h1\<lparr>h_jobs := h_jobs h @ [Job p (OpLogin (encodeBundle cs))]\<rparr>"
    using assms(6) one by (simp add: dispatch_def plan dispatchAsync_def ses spawn_def)
  finally show ?thesis
    using one decode_encode_bundle [OF assms(3,4)] by (intro exI [of _ p] exI [of _ "encodeBundle cs"]) simp
qed

lemma login_line_delivered_witness:
  "\<exists>p bundle. h_jobs (serve_line w_env (login_line ''a'' [(''SID'', ''x'')]) (start_hub w_env w_machine))
      = [Job p (OpLogin bundle)] \<and> decodeBundle bundle = Some [(''SID'', ''x'')]"
proof -
  have a: "validAccount ''a''" by code_simp
  have "h_jobs (start_hub w_env w_machine) = []" by (simp add: start_hub_def new_hub_def split: prod.split)
  moreover have "length (encodeBundle [(''SID'', ''x'')]) = 23" by code_simp
  ultimately show ?thesis
    using login_line_delivered [OF a, of "[(''SID'', ''x'')]" "start_hub w_env w_machine" w_env]
    by (simp add: valid_utf8_ascii MaxBundleBytes_def maxCommandWorkers_def) blast
qed

end
