(* ===== verification/Emission.thy ===== *)
theory Emission
  imports HubProps
begin

text \<open>
  Emission at the granularity of its locks. The other theories take \<open>fire\<close> and \<open>fireIfCurrent\<close>
  (\<open>adapter/session.go\<close>) as one step; in the program they read the lifecycle, test for a closed
  session, marshal the event, and then wait for the mutex of \<open>write\<close> (\<open>main.go\<close>), possibly for a long
  time when stdout is not read. Here each of these is a step of its own, and between any two steps
  other goroutines emit, and sessions change in any way that does not reopen them.

  A goroutine is the list of the emitting calls it still makes; what it does between them is part of
  the arbitrary changes. Since the lists are arbitrary, every behaviour of the program is covered.
\<close>

datatype call =
    Fire nat event
  | FireIfCurrent nat u64 event
  | Write event

text \<open>Where a goroutine is. The session of the call is kept up to the write; \<open>Write\<close> has none.\<close>

datatype pc =
    Idle
  | At_fence nat u64 event
  | At_alive nat event
  | At_lock "nat option" event
  | At_line "nat option" event
  | At_newline "nat option" event
  | At_unlock

record desk =
  dk_sessions :: "nat \<Rightarrow> session"
  dk_pcs :: "nat \<Rightarrow> pc"
  dk_todo :: "nat \<Rightarrow> call list"
  dk_writer :: "nat option"
  dk_stdout :: bytes
  dk_log :: "(nat \<times> nat option \<times> event) list"

text \<open>\<open>dk_log\<close> is ghost state: the lines written, each with the goroutine and the session.\<close>

primrec entry_point :: "call \<Rightarrow> pc" where
  "entry_point (Fire p e) = At_alive p e"
| "entry_point (FireIfCurrent p lc e) = At_fence p lc e"
| "entry_point (Write e) = At_lock None e"

text \<open>The two tests of \<open>fireIfCurrent\<close> and \<open>fire\<close>, each on the session as it is at that moment.\<close>

fun fire_seg :: "(nat \<Rightarrow> session) \<Rightarrow> pc \<Rightarrow> pc" where
  "fire_seg ss (At_fence p lc e) = (if s_lifecycle (ss p) \<noteq> lc then Idle else At_alive p e)"
| "fire_seg ss (At_alive p e) = (if alive (ss p) then At_lock (Some p) e else Idle)"
| "fire_seg ss c = c"

text \<open>\<open>write\<close>: lock, the line, the newline, unlock. \<open>None\<close> means that the goroutine has to wait.\<close>

fun write_seg :: "nat \<Rightarrow> pc \<Rightarrow> desk \<Rightarrow> desk option" where
  "write_seg g (At_lock p e) d =
     (if dk_writer d = None then Some (d\<lparr>dk_writer := Some g, dk_pcs := (dk_pcs d)(g := At_line p e)\<rparr>) else None)"
| "write_seg g (At_line p e) d =
     Some (d\<lparr>dk_stdout := dk_stdout d @ marshal_event e, dk_pcs := (dk_pcs d)(g := At_newline p e)\<rparr>)"
| "write_seg g (At_newline p e) d =
     Some (d\<lparr>dk_stdout := dk_stdout d @ [CHR 0x0A], dk_log := dk_log d @ [(g, p, e)], dk_pcs := (dk_pcs d)(g := At_unlock)\<rparr>)"
| "write_seg g At_unlock d = Some (d\<lparr>dk_writer := None, dk_pcs := (dk_pcs d)(g := Idle)\<rparr>)"
| "write_seg g c d = None"

inductive desk_step :: "desk \<Rightarrow> desk \<Rightarrow> bool" where
  begins: "dk_pcs d g = Idle \<Longrightarrow> dk_todo d g = c # cs \<Longrightarrow>
    desk_step d (d\<lparr>dk_todo := (dk_todo d)(g := cs), dk_pcs := (dk_pcs d)(g := entry_point c)\<rparr>)"
| tests: "dk_pcs d g = At_fence p lc e \<or> dk_pcs d g = At_alive p e \<Longrightarrow>
    desk_step d (d\<lparr>dk_pcs := (dk_pcs d)(g := fire_seg (dk_sessions d) (dk_pcs d g))\<rparr>)"
| writes: "write_seg g (dk_pcs d g) d = Some d' \<Longrightarrow> desk_step d d'"
| others: "(s_closed (dk_sessions d p) \<Longrightarrow> s_closed s) \<Longrightarrow>
    desk_step d (d\<lparr>dk_sessions := (dk_sessions d)(p := s)\<rparr>)"

lemma write_seg_cases:
  assumes "write_seg g c d = Some d'"
  obtains (lock) p e where "c = At_lock p e" "dk_writer d = None"
      "d' = d\<lparr>dk_writer := Some g, dk_pcs := (dk_pcs d)(g := At_line p e)\<rparr>"
  | (line) p e where "c = At_line p e"
      "d' = d\<lparr>dk_stdout := dk_stdout d @ marshal_event e, dk_pcs := (dk_pcs d)(g := At_newline p e)\<rparr>"
  | (newline) p e where "c = At_newline p e"
      "d' = d\<lparr>dk_stdout := dk_stdout d @ [CHR 0x0A], dk_log := dk_log d @ [(g, p, e)], dk_pcs := (dk_pcs d)(g := At_unlock)\<rparr>"
  | (unlock) "c = At_unlock" "d' = d\<lparr>dk_writer := None, dk_pcs := (dk_pcs d)(g := Idle)\<rparr>"
  using assms by (cases c) (auto split: if_splits)

subsection \<open>Alone, the segments are the operations\<close>

definition said :: "call \<Rightarrow> (nat \<Rightarrow> session) \<Rightarrow> event list" where
  "said c ss =
     (case c of
        Fire p e \<Rightarrow> emitted (snd (run_state (fire e) ((ss p)\<lparr>s_trace := []\<rparr>)))
      | FireIfCurrent p lc e \<Rightarrow> emitted (snd (run_state (fireIfCurrent lc e) ((ss p)\<lparr>s_trace := []\<rparr>)))
      | Write e \<Rightarrow> [e])"

definition framed :: "event list \<Rightarrow> bytes" where
  "framed es = concat (map (\<lambda>e. marshal_event e @ [CHR 0x0A]) es)"

lemma said_simps:
  "said (Fire p e) ss = (if s_closed (ss p) then [] else [e])"
  "said (FireIfCurrent p lc e) ss = (if s_lifecycle (ss p) \<noteq> lc \<or> s_closed (ss p) then [] else [e])"
  "said (Write e) ss = [e]"
  by (auto simp: said_def fire_def fireIfCurrent_def alive_def act_def emitted_def State_Monad.get_def)



text \<open>The one-step \<open>emitConversations\<close> says what its calls say one by one.\<close>

lemma wp_fire_all:
  "wp (for_each fire evs) (\<lambda>_ t. emitted t = emitted s @ (if s_closed s then [] else evs) \<and> s_closed t = s_closed s) s"
proof (induction evs arbitrary: s)
  case (Cons e evs)
  show ?case
    by (auto simp: wp_simps intro!: wp_mono [OF Cons.IH])
qed (simp add: wp_simps)

lemma emitConversations_calls:
  "wp (emitConversations threads generation authoritative)
     (\<lambda>_ t. emitted t = emitted s @ concat (map (\<lambda>c. said c (\<lambda>q. s))
        (map (Fire p) (conversation_events (s_account s) threads generation authoritative)))) s"
proof -
  have "concat (map (\<lambda>c. said c (\<lambda>q. s)) (map (Fire p) evs)) = (if s_closed s then [] else evs)" for evs
    by (induction evs) (auto simp: said_simps)
  then show ?thesis by (auto simp: emitConversations_def wp_simps intro!: wp_mono [OF wp_fire_all])
qed

subsection \<open>Lines are never interleaved\<close>

definition holds_lock :: "pc \<Rightarrow> bool" where
  "holds_lock c \<longleftrightarrow> (case c of At_line p e \<Rightarrow> True | At_newline p e \<Rightarrow> True | At_unlock \<Rightarrow> True | _ \<Rightarrow> False)"

definition part_line :: "pc \<Rightarrow> bytes" where
  "part_line c = (case c of At_newline p e \<Rightarrow> marshal_event e | _ \<Rightarrow> [])"

definition logged :: "desk \<Rightarrow> event list" where
  "logged d = map (\<lambda>(g, p, e). e) (dk_log d)"

definition tidy :: "desk \<Rightarrow> bool" where
  "tidy d \<longleftrightarrow> (\<forall>g. holds_lock (dk_pcs d g) \<longleftrightarrow> dk_writer d = Some g)
     \<and> dk_stdout d = framed (logged d) @ (case dk_writer d of None \<Rightarrow> [] | Some g \<Rightarrow> part_line (dk_pcs d g))"

lemma lock_free [simp]:
  "\<not> holds_lock Idle" "\<not> holds_lock (At_fence p lc e)" "\<not> holds_lock (At_alive p e)" "\<not> holds_lock (At_lock q e)"
  "holds_lock (At_line q e)" "holds_lock (At_newline q e)" "holds_lock At_unlock" "\<not> holds_lock (entry_point c)"
  by (simp_all add: holds_lock_def split: call.split) (cases c; simp)

lemma fire_seg_free: "\<not> holds_lock c \<Longrightarrow> \<not> holds_lock (fire_seg ss c)"
  by (cases c) simp_all

lemma tidy_move:
  "tidy d \<Longrightarrow> \<not> holds_lock (dk_pcs d g) \<Longrightarrow> \<not> holds_lock c \<Longrightarrow> tidy (d\<lparr>dk_pcs := (dk_pcs d)(g := c)\<rparr>)"
  by (auto simp: tidy_def logged_def split: option.splits)

lemma tidy_step: "desk_step d d' \<Longrightarrow> tidy d \<Longrightarrow> tidy d'"
proof (induction rule: desk_step.induct)
  case (begins d g c cs)
  then have "tidy (d\<lparr>dk_todo := (dk_todo d)(g := cs)\<rparr>)" by (simp add: tidy_def logged_def split: option.splits)
  from tidy_move [OF this, of g "entry_point c"] begins show ?case by simp
next
  case (tests d g p lc e)
  from tests(1) have "\<not> holds_lock (dk_pcs d g)" by auto
  from tidy_move [OF tests(2) this fire_seg_free [OF this]] show ?case .
next
  case (writes g d d')
  note now = writes(2) [unfolded tidy_def, THEN conjunct1, rule_format] writes(2) [unfolded tidy_def, THEN conjunct2]
  from writes(1) show ?case
  proof (cases rule: write_seg_cases)
    case (lock p e)
    with now show ?thesis by (simp add: tidy_def logged_def part_line_def)
  next
    case (line p e)
    with now(1) [of g] have "dk_writer d = Some g" by simp
    with now line show ?thesis by (simp add: tidy_def logged_def part_line_def)
  next
    case (newline p e)
    with now(1) [of g] have "dk_writer d = Some g" by simp
    with now newline show ?thesis by (simp add: tidy_def logged_def part_line_def framed_def)
  next
    case unlock
    with now(1) [of g] have "dk_writer d = Some g" by simp
    with now unlock show ?thesis by (simp add: tidy_def logged_def part_line_def)
  qed
next
  case (others d p s)
  then show ?case by (simp add: tidy_def logged_def split: option.split)
qed

text \<open>Whatever the goroutines write at the same time, stdout is the lines of whole events, in the order of
  the log, and at most one unfinished line, of the goroutine that holds the mutex.\<close>

theorem lines_not_interleaved:
  assumes "desk_step\<^sup>*\<^sup>* d d'" and "tidy d"
  shows "dk_stdout d' = framed (logged d') @ (case dk_writer d' of None \<Rightarrow> [] | Some g \<Rightarrow> part_line (dk_pcs d' g))"
proof -
  from assms have "tidy d'" by (induction rule: rtranclp_induct) (use tidy_step in blast)+
  then show ?thesis by (simp add: tidy_def)
qed

subsection \<open>What a goroutine still says\<close>

text \<open>The events of session \<open>p\<close> a goroutine has written, the one it holds past the tests, and what its
  further \<open>Fire\<close> calls on \<open>p\<close> would write.\<close>

definition written :: "nat \<Rightarrow> nat \<Rightarrow> desk \<Rightarrow> event list" where
  "written g p d = map (\<lambda>(g', q, e). e) (filter (\<lambda>(g', q, e). g' = g \<and> q = Some p) (dk_log d))"

definition in_flight :: "nat \<Rightarrow> pc \<Rightarrow> event list" where
  "in_flight p c =
     (case c of
        At_lock q e \<Rightarrow> if q = Some p then [e] else []
      | At_line q e \<Rightarrow> if q = Some p then [e] else []
      | At_newline q e \<Rightarrow> if q = Some p then [e] else []
      | _ \<Rightarrow> [])"

definition ahead :: "nat \<Rightarrow> pc \<Rightarrow> event list" where
  "ahead p c = (case c of At_alive q e \<Rightarrow> if q = p then [e] else [] | _ \<Rightarrow> in_flight p c)"

lemma length_in_flight: "length (in_flight p c) \<le> 1"
  by (simp add: in_flight_def split: pc.split)

lemma flight_simps [simp]:
  "in_flight p Idle = []" "in_flight p (At_fence q lc e) = []" "in_flight p (At_alive q e) = []" "in_flight p At_unlock = []"
  "in_flight p (At_lock r e) = (if r = Some p then [e] else [])"
  "in_flight p (At_line r e) = (if r = Some p then [e] else [])"
  "in_flight p (At_newline r e) = (if r = Some p then [e] else [])"
  "ahead p (At_alive q e) = (if q = p then [e] else [])" "ahead p Idle = []" "ahead p At_unlock = []"
  "ahead p (At_lock r e) = in_flight p (At_lock r e)" "ahead p (At_line r e) = in_flight p (At_line r e)"
  "ahead p (At_newline r e) = in_flight p (At_newline r e)"
  by (simp_all add: in_flight_def ahead_def)

lemma entry_flight: "in_flight p (entry_point c) = []" by (cases c) simp_all

lemma write_flight:
  assumes "write_seg g' (dk_pcs d g') d = Some d'"
  shows "written g p d' @ in_flight p (dk_pcs d' g) = written g p d @ in_flight p (dk_pcs d g)"
    and "dk_sessions d' = dk_sessions d" and "dk_todo d' = dk_todo d"
    and "written g p d' @ ahead p (dk_pcs d' g) = written g p d @ ahead p (dk_pcs d g)"
    and "(\<exists>q e. dk_pcs d g = At_alive q e) \<longleftrightarrow> (\<exists>q e. dk_pcs d' g = At_alive q e)"
  using assms by (cases rule: write_seg_cases; auto simp: written_def)+

lemma step_closed: "desk_step d d' \<Longrightarrow> s_closed (dk_sessions d p) \<Longrightarrow> s_closed (dk_sessions d' p)"
  by (induction rule: desk_step.induct) (auto dest: write_flight(2))

lemma steps_closed: "desk_step\<^sup>*\<^sup>* d d' \<Longrightarrow> s_closed (dk_sessions d p) \<Longrightarrow> s_closed (dk_sessions d' p)"
  by (induction rule: rtranclp_induct) (use step_closed in blast)+

text \<open>On a closed session nothing is added to what was in flight.\<close>

lemma step_flight:
  "desk_step d d' \<Longrightarrow> s_closed (dk_sessions d p) \<Longrightarrow>
     written g p d' @ in_flight p (dk_pcs d' g) = written g p d @ in_flight p (dk_pcs d g)"
proof (induction rule: desk_step.induct)
  case (begins d g' c cs)
  then show ?case by (auto simp: written_def entry_flight)
next
  case (tests d g' q lc e)
  then show ?case by (auto simp: written_def alive_def)
next
  case (writes g' d d')
  from writes(1) show ?case by (rule write_flight(1))
qed (simp add: written_def)

lemma steps_flight:
  assumes "desk_step\<^sup>*\<^sup>* d d'" and "s_closed (dk_sessions d p)"
  shows "written g p d' @ in_flight p (dk_pcs d' g) = written g p d @ in_flight p (dk_pcs d g)"
  using assms(1)
proof (induction rule: rtranclp_induct)
  case (step y z)
  with step_flight [OF step(2) steps_closed [OF step(1) assms(2)]] show ?case by simp
qed simp

lemma step_written: "desk_step d d' \<Longrightarrow> prefix (written g p d) (written g p d')"
proof (induction rule: desk_step.induct)
  case (writes g' d d')
  then show ?case by (cases rule: write_seg_cases) (auto simp: written_def)
qed (auto simp: written_def)

lemma steps_written: "desk_step\<^sup>*\<^sup>* d d' \<Longrightarrow> prefix (written g p d) (written g p d')"
  by (induction rule: rtranclp_induct) (auto intro: step_written prefix_order.trans)





text \<open>The fence of \<open>fireIfCurrent\<close>, at this granularity: while the lifecycle is another one, a goroutine
  that only emits through the fence gets at most one event out, the one that had passed it.\<close>

definition fenced :: "nat \<Rightarrow> nat \<Rightarrow> u64 \<Rightarrow> event list \<Rightarrow> desk \<Rightarrow> bool" where
  "fenced g p lc evs d \<longleftrightarrow> set (dk_todo d g) \<subseteq> range (FireIfCurrent p lc)
     \<and> (\<forall>q l e. dk_pcs d g = At_fence q l e \<longrightarrow> q = p \<and> l = lc)
     \<and> prefix (written g p d @ ahead p (dk_pcs d g)) evs"

lemma step_fenced:
  "desk_step d d' \<Longrightarrow> s_lifecycle (dk_sessions d p) \<noteq> lc \<Longrightarrow> fenced g p lc evs d \<Longrightarrow> fenced g p lc evs d'"
proof (induction rule: desk_step.induct)
  case (begins d g' c cs)
  then show ?case
    by (cases "g' = g") (auto simp: fenced_def written_def ahead_def in_flight_def)
next
  case (tests d g' q l e)
  then show ?case
    by (cases "g' = g") (auto simp: fenced_def written_def ahead_def in_flight_def alive_def prefix_def split: if_splits)
next
  case (writes g' d d')
  have "\<forall>q l e. dk_pcs d' g = At_fence q l e \<longrightarrow> q = p \<and> l = lc"
    using writes(1,3) by (cases rule: write_seg_cases) (auto simp: fenced_def)
  with writes(3) show ?case
    unfolding fenced_def write_flight(3) [OF writes(1)] write_flight(4) [OF writes(1)] by blast
next
  case (others d q s)
  then show ?case by (simp add: fenced_def written_def)
qed

theorem fence_cuts_output:
  assumes "(\<lambda>x y. desk_step x y \<and> s_lifecycle (dk_sessions y p) \<noteq> lc)\<^sup>*\<^sup>* d d'"
    and "s_lifecycle (dk_sessions d p) \<noteq> lc" and "set (dk_todo d g) \<subseteq> range (FireIfCurrent p lc)"
    and "\<forall>q l e. dk_pcs d g = At_fence q l e \<longrightarrow> q = p \<and> l = lc"
  shows "prefix (written g p d') (written g p d @ ahead p (dk_pcs d g))"
proof -
  let ?evs = "written g p d @ ahead p (dk_pcs d g)"
  have "fenced g p lc ?evs d' \<and> s_lifecycle (dk_sessions d' p) \<noteq> lc"
    using assms(1)
  proof (induction rule: rtranclp_induct)
    case base
    show ?case using assms(2-4) by (simp add: fenced_def)
  next
    case (step y z)
    with step_fenced show ?case by blast
  qed
  then show ?thesis unfolding fenced_def by (meson append_prefixD)
qed


subsection \<open>Properties\<close>

text \<open>C5: what a close cuts off. After \<open>Close\<close> the session stays closed, and however the goroutines go on, of
  each one at most one event of the session is still written: the one that had passed the test for a
  closed session before, and was waiting for stdout or writing. A call that reaches the test later
  writes nothing. (One such event can follow a close: the test and the write are not one step.)\<close>

theorem close_cuts_output:
  assumes "desk_step\<^sup>*\<^sup>* (d\<lparr>dk_sessions := (dk_sessions d)(p := snd (run_state Close (dk_sessions d p)))\<rparr>) d'"
  shows "s_closed (dk_sessions d' p)
    \<and> (\<exists>late. written g p d' = written g p d @ late \<and> prefix late (in_flight p (dk_pcs d g)) \<and> length late \<le> 1)"
proof -
  let ?d = "d\<lparr>dk_sessions := (dk_sessions d)(p := snd (run_state Close (dk_sessions d p)))\<rparr>"
  have "wp Close (\<lambda>_ t. s_closed t) (dk_sessions d p)" using close_closes by (rule wp_mono) simp
  then have closed: "s_closed (dk_sessions ?d p)" by (simp add: wp_def split: prod.splits)
  have "written g p d' @ in_flight p (dk_pcs d' g) = written g p d @ in_flight p (dk_pcs d g)"
    using steps_flight [OF assms closed, of g] by (simp add: written_def)
  moreover obtain late where late: "written g p d' = written g p d @ late"
    using steps_written [OF assms, of g p] by (auto simp: written_def prefix_def)
  ultimately have "in_flight p (dk_pcs d g) = late @ in_flight p (dk_pcs d' g)" by simp
  moreover from this have "length late \<le> 1" using length_in_flight [of p "dk_pcs d g"] by simp
  ultimately show ?thesis using late steps_closed [OF assms closed] by auto
qed


subsection \<open>Concrete runs\<close>

definition w_event :: event where "w_event = error_event ''a'' ''busy''"

text \<open>Goroutine 0 has passed the test for a closed session and waits for stdout, goroutine 1 is before it.\<close>

definition w_desk :: desk where
  "w_desk = \<lparr>dk_sessions = (\<lambda>p. w_session), dk_pcs = (\<lambda>g. if g = 0 then At_lock (Some 0) w_event
       else if g = 1 then At_alive 0 w_event else Idle), dk_todo = (\<lambda>g. []), dk_writer = None, dk_stdout = [], dk_log = []\<rparr>"

text \<open>After the close the first still writes its event, and the second never does: the bound is met.\<close>

lemma close_cuts_output_witness:
  "\<exists>d'. desk_step\<^sup>*\<^sup>* (w_desk\<lparr>dk_sessions := (dk_sessions w_desk)(0 := snd (run_state Close (dk_sessions w_desk 0)))\<rparr>) d'
     \<and> s_closed (dk_sessions d' 0) \<and> written 0 0 d' = [w_event] \<and> written 1 0 d' = []"
proof -
  let ?c = "w_desk\<lparr>dk_sessions := (dk_sessions w_desk)(0 := snd (run_state Close (dk_sessions w_desk 0)))\<rparr>"
  define d1 where "d1 = ?c\<lparr>dk_writer := Some 0, dk_pcs := (dk_pcs ?c)(0 := At_line (Some 0) w_event)\<rparr>"
  define d2 where "d2 = d1\<lparr>dk_stdout := dk_stdout d1 @ marshal_event w_event, dk_pcs := (dk_pcs d1)(0 := At_newline (Some 0) w_event)\<rparr>"
  define d3 where "d3 = d2\<lparr>dk_stdout := dk_stdout d2 @ [CHR 0x0A], dk_log := dk_log d2 @ [(0, Some 0, w_event)],
    dk_pcs := (dk_pcs d2)(0 := At_unlock)\<rparr>"
  have "desk_step ?c d1" "desk_step d1 d2" "desk_step d2 d3"
    by (auto intro!: desk_step.writes [where g = 0] simp: d1_def d2_def d3_def w_desk_def)
  then have run: "desk_step\<^sup>*\<^sup>* ?c d3" by (meson converse_rtranclp_into_rtranclp rtranclp.rtrancl_refl)
  have "written 0 0 d3 = [w_event]" by (simp add: written_def d3_def d2_def d1_def w_desk_def)
  moreover have "s_closed (dk_sessions d3 0)" using close_cuts_output [OF run] by blast
  moreover have "written 1 0 d3 = []"
    using close_cuts_output [OF run, of 1] by (auto simp: w_desk_def written_def)
  ultimately show ?thesis using run by blast
qed



end
