(* ===== verification/Spec2Isabelle.thy ===== *)
theory Spec2Isabelle
  imports MediaProps LogView Restart SyncPool HistoryWalk LoginLine Emission
begin

text \<open>
  Verification of handover-gmessages, the helper process that speaks the Handover helper IPC on
  standard input and output and drives Google Messages through the library libgm.

  \<^bold>\<open>The program and its parts.\<close> The daemon writes one JSON command per line; \<open>main.go\<close> decodes it
  and dispatches it to the session of the command's account, on at most sixteen worker goroutines. A
  session (\<open>adapter/session.go\<close>, \<open>sync.go\<close>, \<open>messages.go\<close>, \<open>send.go\<close>) holds the client of one
  paired phone. The client's callback puts relay events into a bounded queue; one goroutine per
  session takes them out and turns them into wire events; others connect with a backoff, catch up
  after a connect, finish a pairing, repair after a queue overflow, and look for a suspended machine.
  Every login, logout and close moves the session's \<open>lifecycle\<close> counter, and late work compares the
  counter it captured with the current one. The session file of an account and the directory of
  staged attachments belong to \<open>adapter/store.go\<close>. Events leave through \<open>fire\<close>, which drops them
  when the session is closed, and are marshalled by \<open>adapter/contract.go\<close>.

  \<^bold>\<open>Theories and source files.\<close>
  \<^item> \<open>Prelude\<close>, \<open>GoText\<close>: the state monad with its predicate transformer \<open>wp\<close> and triple \<open>hoare\<close>;
    bytes, runes, UTF-8, decimal numerals and the functions of Go's \<open>strings\<close>, \<open>unicode\<close> and
    \<open>encoding/json\<close> the code calls, written out.
  \<^item> \<open>Contract\<close>: \<open>contract.go\<close>, commands, events and the JSON line of an event.
  \<^item> \<open>Json\<close>: the decoding of a command line and of a login bundle, \<open>json.Unmarshal\<close> written out;
    \<open>JsonProps\<close>: what is written is read back.
  \<^item> \<open>RelayTypes\<close>, \<open>RelayMap\<close>: the relay records and \<open>map.go\<close>.
  \<^item> \<open>TextOps\<close>, \<open>MediaOps\<close>: \<open>messages.go\<close>, the pure half and the half with state.
  \<^item> \<open>Paging\<close>, \<open>SyncOps\<close>: \<open>sync.go\<close>, the chunking and cursors as pure functions, and the rest.
  \<^item> \<open>Store\<close>: \<open>store.go\<close> over directories whose system calls can fail.
  \<^item> \<open>SessionState\<close>, \<open>EventLoop\<close>: \<open>session.go\<close>, the record, the fences, the queue and the dirty
    set, then the event handler and the loops.
  \<^item> \<open>FileTree\<close>: lexical paths, and a file tree with symbolic links as the system calls see it;
    \<open>SendOps\<close>: \<open>send.go\<close>.
  \<^item> \<open>Hub\<close>: \<open>main.go\<close>.
  \<^item> \<open>Sha256\<close>, \<open>LogView\<close>: \<open>crypto/sha256\<close> and \<open>log.go\<close>.
  \<^item> \<open>WireTypes\<close>: well-formed messages and events, and what the programs return.
  \<^item> \<open>Invariants\<close>, \<open>Requests\<close>, \<open>Connection\<close>, \<open>HubProps\<close>, \<open>SaveRace\<close>, \<open>Restart\<close>, \<open>Schedule\<close>,
    \<open>SyncPool\<close>, \<open>SyncInbox\<close>, \<open>HistoryWalk\<close>, \<open>LoginLine\<close>, \<open>MediaProps\<close>, \<open>Emission\<close>: properties that span operations.

  \<^bold>\<open>How state and operations correspond.\<close> The record \<open>session\<close> has the fields of the Go struct; maps
  are association lists, pointers are options or, where identity is compared, numbers. A method is a
  program of the state monad of the same name, with its guards and early returns in the code's order;
  an error result is a sum or an option. The record \<open>hub\<close> holds the account map, the sessions, the
  worker goroutines and the output. Ghost fields record time, the files of the machine and, in
  \<open>s_trace\<close>, every action with the lifecycle and the closed flag of its moment, so that ordering and
  fencing can be stated. Concurrency enters in three ways. A call that blocks is the parameter
  \<open>e_relay\<close> or \<open>e_wait\<close> of the environment; it returns an arbitrary new session, so whatever other
  goroutines do meanwhile is covered. Whole operations interleave as steps of \<open>session_step\<close> and
  \<open>hub_step\<close>, where the two halves of forgetting a session, and every close of a shutdown, are steps of
  their own. Where the locks matter, \<open>SaveRace\<close> (a save against a logout), \<open>SyncPool\<close> (the eight
  workers of a sync) and \<open>Emission\<close> (\<open>fire\<close>, \<open>fireIfCurrent\<close> and \<open>write\<close>) cut the operations at their
  lock boundaries, show that the pieces run alone are the operations, and interleave the pieces. The
  other theories take an emission as one step: what they say of the order of events and of the fences
  holds as long as nothing else happens between the test of an emission and its write, and \<open>Emission\<close>
  says what remains without that: at most one event of each goroutine can follow a close or, through
  \<open>fireIfCurrent\<close>, a new lifecycle, and the chunks fired without the fence all can.

  \<^bold>\<open>What the lemmas show.\<close> The interfaces are locales, each interpreted on the model's definitions:
  \<open>size_chunker\<close> (chunking of events), \<open>session_store\<close> (save, delete, load, list against an
  abstract map), \<open>fence_counter\<close> (counters that never return zero), and the chain
  \<open>quiet_invariant\<close>, \<open>handler_invariant\<close>, \<open>session_invariant\<close>, \<open>command_invariant\<close>, which turns an
  invariant of the primitive updates into one of every operation; its interpretations are the bounds
  of the tables, silence after close, the lifecycle fence, the fence of a sync, the count of results,
  the well-formedness of every event, and what a closed session can do. The properties carry their claim numbers in the text before them. Some of them
  state defects of the code as it is: a pairing failure that is never reported, logins lost to a
  concurrent login or logout, a stale connection loop that ends a newer login, a saved file that
  reappears after a logout, the wrong thread marked after an overflow, an attachment named after the
  wrong part, a local user the order of the sync workers decides on, an error and chunks from a retired sync, an
  event after a close, an upload deleted through a link, and events above the size bound.

  \<^bold>\<open>Bounds and fuel.\<close> \<open>connectLoop\<close> runs at most \<open>n\<close> rounds and says whether it returned; it is
  shown to return within \<open>k + 1\<close> rounds when the relay accepts after \<open>k\<close> refusals, and when the
  loop is cancelled or the session closed by the \<open>k\<close>th wait. The listing loop has the code's own bound of ten pages, the retry
  loop the code's list of backoffs. The eviction of the message cache is a terminating recursion.
  Counters and sizes the code keeps in 32 or 64 bits are words; nanoseconds and file sizes are
  integers, far from their bounds in any run.

  \<^bold>\<open>Parameters.\<close> The record \<open>env\<close> collects what is not in this repository: the answers of the relay
  and what happens while it is asked, the clock's wake-ups, random names, the iteration order of Go
  maps and sets, the scheduling of the sync workers, the JSON coding of the library's auth
  data, MIME detection, the sorting function, faults of system calls, and the process's
  directories.
  Theorems assume of them only what they name, such as that a blocking call does not reopen a closed
  session.

  A file the daemon hands over is looked up in a tree of directories, links and files that does not
  change between the steps of one upload; the session files and the staging directory are flat
  directories of their own, since the code joins their names itself.

  \<^bold>\<open>Not modelled.\<close> The version flag and the choice of log level and log file; the debug log lines of
  the adapter other than those of \<open>log.go\<close>; contexts and timeouts beyond their effect on a wait;
  \<open>clientMedia\<close>, \<open>tmpID\<close> and \<open>ptrOf\<close>, which only wrap the library or the Go runtime; the
  protocol library itself.
\<close>

end
